(* ===== verification/Prelude.thy ===== *)
theory Prelude
  imports
    Main
    "HOL-Library.Word"
    "HOL-Library.AList"
    "HOL-Library.List_Lexorder"
    "HOL-Library.Char_ord"
begin

text \<open>
  What every component of the development shares: the outcome of a Go computation that may
  panic or not return, Go's error values, the fixed-width integers the program counts with, the
  order in which a \<^verbatim>\<open>range\<close> statement visits a map, and generic lemmas on lists and
  association lists.

  \<^item> \<open>'a go\<close>: a computation returns a value (\<open>Ret\<close>), panics (\<open>Panic\<close>), or has used up
    the iterations it was given (\<open>Stuck\<close>), which is how a loop that never ends shows up.
  \<^item> \<open>go_ok P r\<close> is the total-correctness triple (\<open>r\<close> returns a value that satisfies
    \<open>P\<close>), \<open>go_inv P r\<close> the partial one, and \<open>go_safe P r\<close> also excludes panics. Their rules for sequencing and for loops over a list
    are collected in \<open>go_rules\<close> and carry the proofs about the stateful components.
\<close>

named_theorems go_rules "sequencing rules for go_ok and go_inv"
named_theorems wf_simps "unfolding of well-formedness predicates"

section \<open>Outcomes\<close>

datatype 'a go = Ret 'a | Panic string | Stuck

fun go_bind :: "'a go \<Rightarrow> ('a \<Rightarrow> 'b go) \<Rightarrow> 'b go" where
  "go_bind (Ret x) f = f x"
| "go_bind (Panic s) f = Panic s"
| "go_bind Stuck f = Stuck"

text \<open>A \<^verbatim>\<open>for _, x := range xs\<close> loop over the slice \<open>xs\<close> whose body updates the state.\<close>

fun go_for :: "('a \<Rightarrow> 's \<Rightarrow> 's go) \<Rightarrow> 'a list \<Rightarrow> 's \<Rightarrow> 's go" where
  "go_for f [] s = Ret s"
| "go_for f (x # xs) s = go_bind (f x s) (go_for f xs)"

definition go_ok :: "('a \<Rightarrow> bool) \<Rightarrow> 'a go \<Rightarrow> bool" where
  "go_ok P r \<longleftrightarrow> (case r of Ret x \<Rightarrow> P x | Panic _ \<Rightarrow> False | Stuck \<Rightarrow> False)"

definition go_inv :: "('a \<Rightarrow> bool) \<Rightarrow> 'a go \<Rightarrow> bool" where
  "go_inv P r \<longleftrightarrow> (case r of Ret x \<Rightarrow> P x | Panic _ \<Rightarrow> True | Stuck \<Rightarrow> True)"

lemma go_ok_simps [simp]:
  "go_ok P (Ret x) = P x" "\<not> go_ok P (Panic s)" "\<not> go_ok P Stuck"
  by (simp_all add: go_ok_def)

lemma go_inv_simps [simp]:
  "go_inv P (Ret x) = P x" "go_inv P (Panic s)" "go_inv P Stuck"
  by (simp_all add: go_inv_def)

lemma go_ok_iff: "go_ok P r \<longleftrightarrow> (\<exists>x. r = Ret x \<and> P x)"
  by (cases r) auto

lemma go_inv_iff: "go_inv P r \<longleftrightarrow> (\<forall>x. r = Ret x \<longrightarrow> P x)"
  by (cases r) auto

lemma go_ok_mono: "go_ok P r \<Longrightarrow> (\<And>x. P x \<Longrightarrow> Q x) \<Longrightarrow> go_ok Q r"
  by (cases r) auto

lemma go_inv_mono: "go_inv P r \<Longrightarrow> (\<And>x. P x \<Longrightarrow> Q x) \<Longrightarrow> go_inv Q r"
  by (cases r) auto

lemma go_ok_imp_inv: "go_ok P r \<Longrightarrow> go_inv P r"
  by (cases r) auto

lemma go_ok_conj: "go_ok P r \<Longrightarrow> go_inv Q r \<Longrightarrow> go_ok (\<lambda>x. P x \<and> Q x) r"
  by (cases r) auto

lemma go_ok_bind [go_rules]:
  "go_ok Q r \<Longrightarrow> (\<And>x. Q x \<Longrightarrow> go_ok P (f x)) \<Longrightarrow> go_ok P (go_bind r f)"
  by (cases r) auto

lemma go_inv_bind [go_rules]:
  "go_inv Q r \<Longrightarrow> (\<And>x. Q x \<Longrightarrow> go_inv P (f x)) \<Longrightarrow> go_inv P (go_bind r f)"
  by (cases r) auto

text \<open>Between the two: the computation does not panic, and what it returns satisfies \<open>P\<close>.\<close>

definition go_safe :: "('a \<Rightarrow> bool) \<Rightarrow> 'a go \<Rightarrow> bool" where
  "go_safe P r \<longleftrightarrow> (case r of Ret x \<Rightarrow> P x | Panic _ \<Rightarrow> False | Stuck \<Rightarrow> True)"

lemma go_safe_simps [simp]:
  "go_safe P (Ret x) = P x" "\<not> go_safe P (Panic s)" "go_safe P Stuck"
  by (simp_all add: go_safe_def)

lemma go_ok_imp_safe: "go_ok P r \<Longrightarrow> go_safe P r"
  by (cases r) auto

lemma go_safe_mono: "go_safe P r \<Longrightarrow> (\<And>x. P x \<Longrightarrow> Q x) \<Longrightarrow> go_safe Q r"
  by (cases r) auto

lemma go_safe_returns: "go_safe P r \<Longrightarrow> r \<noteq> Stuck \<Longrightarrow> go_ok P r"
  by (cases r) auto

lemma go_safe_bind [go_rules]:
  "go_safe Q r \<Longrightarrow> (\<And>x. Q x \<Longrightarrow> go_safe P (f x)) \<Longrightarrow> go_safe P (go_bind r f)"
  by (cases r) auto

lemma go_ok_if: "(b \<Longrightarrow> go_ok P x) \<Longrightarrow> (\<not> b \<Longrightarrow> go_ok P y) \<Longrightarrow> go_ok P (if b then x else y)"
  by simp

lemma go_bind_Ret_iff: "go_bind r f = Ret y \<longleftrightarrow> (\<exists>x. r = Ret x \<and> f x = Ret y)"
  by (cases r) auto

lemma go_bind_assoc: "go_bind (go_bind r f) g = go_bind r (\<lambda>x. go_bind (f x) g)"
  by (cases r) auto

lemma go_for_append: "go_for f (xs @ ys) s = go_bind (go_for f xs s) (go_for f ys)"
proof (induction xs arbitrary: s)
  case (Cons x xs)
  have "go_for f (xs @ ys) = (\<lambda>s. go_bind (go_for f xs s) (go_for f ys))"
    using Cons.IH by blast
  then show ?case by (simp add: go_bind_assoc)
qed simp

text \<open>Loop rules: an invariant kept by the body holds after the loop.\<close>

lemma go_ok_for:
  assumes "I s" and "\<And>x s. x \<in> set xs \<Longrightarrow> I s \<Longrightarrow> go_ok I (f x s)"
  shows "go_ok I (go_for f xs s)"
  using assms
proof (induction xs arbitrary: s)
  case Nil
  then show ?case by simp
next
  case (Cons x xs)
  then have "go_ok I (f x s)" by simp
  then show ?case
    by (auto intro!: go_ok_bind [of I] Cons.IH Cons.prems(2))
qed

lemma go_inv_for:
  assumes "I s" and "\<And>x s. x \<in> set xs \<Longrightarrow> I s \<Longrightarrow> go_inv I (f x s)"
  shows "go_inv I (go_for f xs s)"
  using assms
proof (induction xs arbitrary: s)
  case Nil
  then show ?case by simp
next
  case (Cons x xs)
  then have "go_inv I (f x s)" by simp
  then show ?case
    by (auto intro!: go_inv_bind [of I] Cons.IH Cons.prems(2))
qed

lemma go_for_map: "go_for (\<lambda>x. f (g x)) xs s = go_for f (map g xs) s"
proof (induction xs arbitrary: s)
  case (Cons x xs)
  then have "go_for (\<lambda>x. f (g x)) xs = go_for f (map g xs)" by blast
  then show ?case by simp
qed simp

text \<open>Two loop bodies that agree on the states the loop passes through give the same loop.\<close>

lemma go_for_cong:
  assumes "\<And>x s. x \<in> set xs \<Longrightarrow> I s \<Longrightarrow> f x s = g x s"
    and "\<And>x s. x \<in> set xs \<Longrightarrow> I s \<Longrightarrow> go_inv I (g x s)" and "I s"
  shows "go_for f xs s = go_for g xs s"
  using assms
proof (induction xs arbitrary: s)
  case (Cons x xs)
  have eq: "f x s = g x s" and inv: "go_inv I (g x s)" using Cons.prems by simp_all
  show ?case
  proof (cases "g x s")
    case (Ret t)
    with inv have "I t" by simp
    with Cons have "go_for f xs t = go_for g xs t" by simp
    with eq Ret show ?thesis by simp
  qed (simp_all add: eq)
qed simp

section \<open>Error values\<close>

text \<open>
  Go's \<^verbatim>\<open>error\<close> interface, by the concrete types the program makes or receives:
  \<^verbatim>\<open>errors.New\<close>/\<^verbatim>\<open>fmt.Errorf\<close> values, the \<^verbatim>\<open>fatalError\<close> of pkg/cluster/error.go, the
  \<^verbatim>\<open>RetryError\<close> of pkg/util/retry.go, the status errors of the Kubernetes API machinery with
  their reason, and the \<^verbatim>\<open>withMessage\<close> wrapper of \<^verbatim>\<open>errors.Wrap\<close>.
  A nil error is \<open>None\<close> of \<open>go_error option\<close>.
\<close>

datatype api_reason = NotFound | AlreadyExists | Conflict | OtherReason string

datatype go_error =
    ErrNew string
  | FatalError string
  | RetryError string
  | StatusError api_reason string
  | WithMessage go_error string

fun Error :: "go_error \<Rightarrow> string" where
  "Error (ErrNew s) = s"
| "Error (FatalError s) = s"
| "Error (RetryError s) = s"
| "Error (StatusError r s) = s"
| "Error (WithMessage e s) = s @ '': '' @ Error e"

fun Cause :: "go_error \<Rightarrow> go_error" where
  "Cause (WithMessage e s) = Cause e"
| "Cause e = e"

definition IsNotFound :: "go_error option \<Rightarrow> bool" where
  "IsNotFound e = (case e of Some (StatusError NotFound _) \<Rightarrow> True | _ \<Rightarrow> False)"

definition IsAlreadyExists :: "go_error option \<Rightarrow> bool" where
  "IsAlreadyExists e = (case e of Some (StatusError AlreadyExists _) \<Rightarrow> True | _ \<Rightarrow> False)"

definition IsConflict :: "go_error option \<Rightarrow> bool" where
  "IsConflict e = (case e of Some (StatusError Conflict _) \<Rightarrow> True | _ \<Rightarrow> False)"

section \<open>Integers\<close>

text \<open>
  \<^verbatim>\<open>int32\<close> and \<^verbatim>\<open>int64\<close> values are \<open>int\<close>s with the two's-complement wrap-around
  written out where the code computes with them; \<^verbatim>\<open>uint64\<close> counters are \<open>64 word\<close>s.
\<close>

type_synonym int32 = int
type_synonym int64 = int
type_synonym uint64 = "64 word"

definition wrap32 :: "int \<Rightarrow> int32" where
  "wrap32 x = (x + 2 ^ 31) mod 2 ^ 32 - 2 ^ 31"

definition wrap64 :: "int \<Rightarrow> int64" where
  "wrap64 x = (x + 2 ^ 63) mod 2 ^ 64 - 2 ^ 63"

lemma wrap32_id: "- (2 ^ 31) \<le> x \<Longrightarrow> x < 2 ^ 31 \<Longrightarrow> wrap32 x = x"
  by (simp add: wrap32_def)

lemma wrap64_id: "- (2 ^ 63) \<le> x \<Longrightarrow> x < 2 ^ 63 \<Longrightarrow> wrap64 x = x"
  by (simp add: wrap64_def)

lemma wrap64_bounds: "- (2 ^ 63) \<le> wrap64 x" "wrap64 x < 2 ^ 63"
  by (simp_all add: wrap64_def)

text \<open>An \<^verbatim>\<open>int32\<close> counter incremented once for each element that satisfies \<open>P\<close>.\<close>

fun count32 :: "('a \<Rightarrow> bool) \<Rightarrow> 'a list \<Rightarrow> int32 \<Rightarrow> int32" where
  "count32 P [] c = c"
| "count32 P (x # xs) c = count32 P xs (if P x then wrap32 (c + 1) else c)"

lemma count32_filter:
  "0 \<le> c \<Longrightarrow> c + int (length xs) < 2 ^ 31 \<Longrightarrow> count32 P xs c = c + int (length (filter P xs))"
proof (induction xs arbitrary: c)
  case Nil
  then show ?case by simp
next
  case (Cons x xs)
  from Cons.prems have w: "wrap32 (c + 1) = c + 1" by (intro wrap32_id) auto
  show ?case using Cons.IH [of "c + 1"] Cons.IH [of c] Cons.prems by (auto simp: w)
qed

section \<open>Slices\<close>

text \<open>
  Where \<^verbatim>\<open>reflect.DeepEqual\<close> compares slices, a nil slice and an empty one differ:
  such a slice is a \<open>'a list option\<close>, \<open>None\<close> for nil.
\<close>

type_synonym 'a slice = "'a list option"

definition elems :: "'a slice \<Rightarrow> 'a list" where
  "elems s = (case s of None \<Rightarrow> [] | Some xs \<Rightarrow> xs)"

definition sappend :: "'a slice \<Rightarrow> 'a \<Rightarrow> 'a slice" where
  "sappend s x = Some (elems s @ [x])"

definition sliceOf :: "'a list \<Rightarrow> 'a slice" where
  "sliceOf xs = (if xs = [] then None else Some xs)"

lemma elems_simps [simp]: "elems None = []" "elems (Some xs) = xs"
  by (simp_all add: elems_def)

lemma elems_sappend [simp]: "elems (sappend s x) = elems s @ [x]"
  by (simp add: sappend_def)

lemma elems_sliceOf [simp]: "elems (sliceOf xs) = xs"
  by (simp add: sliceOf_def)

section \<open>Map iteration order\<close>

text \<open>
  Go leaves the order in which \<^verbatim>\<open>range\<close> visits the entries of a map open. A component that
  ranges over a map takes the order the runtime picked as an argument; a proposal that is not a
  permutation of the keys is read as the order of insertion, so every value of the argument is a
  possible order and every possible order is a value of the argument.
\<close>

definition range_keys :: "'a list \<Rightarrow> 'a list \<Rightarrow> 'a list" where
  "range_keys proposal ks = (if distinct proposal \<and> set proposal = set ks then proposal else ks)"

lemma set_range_keys [simp]: "set (range_keys p ks) = set ks"
  by (simp add: range_keys_def)

lemma distinct_range_keys [simp]: "distinct ks \<Longrightarrow> distinct (range_keys p ks)"
  by (simp add: range_keys_def)

text \<open>Sorting makes the order of iteration irrelevant.\<close>

lemma sort_range_keys: "distinct ks \<Longrightarrow> sort (range_keys order ks) = sort ks"
  by (rule sorted_distinct_set_unique) simp_all

section \<open>Generic lemmas\<close>

lemma update_new: "map_of ns k = None \<Longrightarrow> AList.update k v ns = ns @ [(k, v)]"
  by (induction ns) (auto split: if_splits)

lemma map_of_filter_key: "map_of (filter (\<lambda>p. Q (fst p)) xs) k = (if Q k then map_of xs k else None)"
  by (induction xs) auto

lemma map_of_map_val: "map_of (map (\<lambda>(k, v). (k, f v)) xs) k = map_option f (map_of xs k)"
  by (induction xs) auto

lemma distinct_map_fst_filter: "distinct (map fst xs) \<Longrightarrow> distinct (map fst (filter Q xs))"
  by (induction xs) auto

lemma length_filter_strict:
  "x \<in> set xs \<Longrightarrow> P x \<Longrightarrow> \<not> Q x \<Longrightarrow> (\<And>y. Q y \<Longrightarrow> P y) \<Longrightarrow>
   length (filter Q xs) < length (filter P xs)"
proof (induction xs)
  case Nil
  then show ?case by simp
next
  case (Cons y ys)
  have le: "length (filter Q zs) \<le> length (filter P zs)" for zs
    using Cons.prems(4) by (induction zs) auto
  show ?case using Cons le [of ys] by (cases "x = y") auto
qed

end
