(* ===== verification/GoStrings.thy ===== *)
theory GoStrings
  imports Prelude
begin

text \<open>
  The parts of Go's \<^verbatim>\<open>strconv\<close>, \<^verbatim>\<open>strings\<close> and \<^verbatim>\<open>fmt\<close> packages the program uses.
  Strings are lists of bytes. \<open>ParseUint\<close>, \<open>ParseInt\<close> and \<open>Atoi\<close> return the value and the
  error together, as the Go functions do: callers that drop the error go on with the value, which
  is 0 after a syntax error and the nearest representable number after a range error.
  \<open>TrimSpace\<close> is modelled on ASCII text, which is what the application scripts print.
\<close>

section \<open>Decimal numbers\<close>

definition digit_char :: "nat \<Rightarrow> char" where
  "digit_char d = char_of (48 + d)"

definition digit_val :: "char \<Rightarrow> nat option" where
  "digit_val c = (let n = (of_char c :: nat) in if 48 \<le> n \<and> n \<le> 57 then Some (n - 48) else None)"

definition is_digit :: "char \<Rightarrow> bool" where
  "is_digit c = (digit_val c \<noteq> None)"

fun show_nat :: "nat \<Rightarrow> string" where
  "show_nat n = (if n < 10 then [digit_char n] else show_nat (n div 10) @ [digit_char (n mod 10)])"

declare show_nat.simps [simp del]

definition show_int :: "int \<Rightarrow> string" where
  "show_int i = (if i < 0 then CHR ''-'' # show_nat (nat (- i)) else show_nat (nat i))"

text \<open>\<^verbatim>\<open>fmt.Sprintf("%04d", i)\<close>: zero padding to width four, the sign included.\<close>

definition show_int04 :: "int \<Rightarrow> string" where
  "show_int04 i =
     (if i < 0
      then CHR ''-'' # replicate (3 - length (show_nat (nat (- i)))) CHR ''0'' @ show_nat (nat (- i))
      else replicate (4 - length (show_nat (nat i))) CHR ''0'' @ show_nat (nat i))"

datatype num_error = ErrSyntax | ErrRange

text \<open>The digit loop of \<^verbatim>\<open>strconv.ParseUint\<close> in base 10, up to \<open>maxVal\<close>.\<close>

fun parseUintLoop :: "nat \<Rightarrow> string \<Rightarrow> nat \<Rightarrow> nat \<times> num_error option" where
  "parseUintLoop maxVal [] n = (n, None)"
| "parseUintLoop maxVal (c # cs) n =
     (case digit_val c of
        None \<Rightarrow> (0, Some ErrSyntax)
      | Some v \<Rightarrow>
          if maxVal < n * 10 + v then (maxVal, Some ErrRange)
          else parseUintLoop maxVal cs (n * 10 + v))"

definition ParseUint :: "string \<Rightarrow> nat \<Rightarrow> nat \<times> num_error option" where
  "ParseUint s bits = (if s = [] then (0, Some ErrSyntax) else parseUintLoop (2 ^ bits - 1) s 0)"

text \<open>The range check and sign of \<^verbatim>\<open>strconv.ParseInt\<close> on the unsigned value it has read.\<close>

definition signed_of :: "bool \<Rightarrow> nat \<Rightarrow> nat \<Rightarrow> int \<times> num_error option" where
  "signed_of neg cutoff un =
     (if \<not> neg \<and> cutoff \<le> un then (int cutoff - 1, Some ErrRange)
      else if neg \<and> cutoff < un then (- int cutoff, Some ErrRange)
      else (if neg then - int un else int un, None))"

definition ParseInt :: "string \<Rightarrow> nat \<Rightarrow> int \<times> num_error option" where
  "ParseInt s bits =
     (case s of
        [] \<Rightarrow> (0, Some ErrSyntax)
      | c # cs \<Rightarrow>
          (let neg = (c = CHR ''-'');
               body = (if c = CHR ''+'' \<or> c = CHR ''-'' then cs else s);
               r = ParseUint body bits
           in if snd r = Some ErrSyntax then (0, Some ErrSyntax)
              else signed_of neg (2 ^ (bits - 1)) (fst r)))"

definition Atoi :: "string \<Rightarrow> int \<times> num_error option" where
  "Atoi s = ParseInt s 64"

text \<open>
  \<^verbatim>\<open>(*NumError).Error\<close> of \<^verbatim>\<open>strconv\<close>, for texts that \<^verbatim>\<open>strconv.Quote\<close> leaves as they are.
\<close>

definition NumErrorString :: "string \<Rightarrow> string \<Rightarrow> num_error \<Rightarrow> string" where
  "NumErrorString fn s e =
     ''strconv.'' @ fn @ '': parsing '' @ [CHR 0x22] @ s @ [CHR 0x22] @ '': '' @
     (case e of ErrSyntax \<Rightarrow> ''invalid syntax'' | ErrRange \<Rightarrow> ''value out of range'')"

definition quoted :: "string \<Rightarrow> string" where
  "quoted s = [CHR 0x27] @ s @ [CHR 0x27]"

text \<open>\<^verbatim>\<open>%q\<close> for text without characters that it escapes.\<close>

definition dquoted :: "string \<Rightarrow> string" where
  "dquoted s = [CHR 0x22] @ s @ [CHR 0x22]"

lemma digit_val_digit_char [simp]: "d < 10 \<Longrightarrow> digit_val (digit_char d) = Some d"
  by (simp add: digit_val_def digit_char_def)

lemma is_digit_digit_char [simp]: "d < 10 \<Longrightarrow> is_digit (digit_char d)"
  by (simp add: is_digit_def)

lemma digit_val_less: "digit_val c = Some d \<Longrightarrow> d < 10"
  by (auto simp: digit_val_def Let_def split: if_splits)

lemma show_nat_nonempty [simp]: "show_nat n \<noteq> []"
  by (subst show_nat.simps) simp

lemma show_nat_digits: "\<forall>c \<in> set (show_nat n). is_digit c"
proof (induction n rule: show_nat.induct)
  case (1 n)
  show ?case
  proof (cases "n < 10")
    case True
    then show ?thesis by (subst show_nat.simps) simp
  next
    case False
    with "1.IH" show ?thesis by (subst show_nat.simps) auto
  qed
qed

lemma not_is_digit [simp]: "\<not> is_digit CHR ''-''" "\<not> is_digit CHR ''+''"
  by (simp_all add: is_digit_def digit_val_def)

lemma parseUintLoop_append:
  "parseUintLoop m (xs @ ys) n =
     (case parseUintLoop m xs n of
        (k, None) \<Rightarrow> parseUintLoop m ys k
      | r \<Rightarrow> r)"
  by (induction xs arbitrary: n) (auto split: option.splits)

lemma parseUintLoop_show_nat:
  "n \<le> m \<Longrightarrow> parseUintLoop m (show_nat n) 0 = (n, None)"
proof (induction n rule: show_nat.induct)
  case (1 n)
  show ?case
  proof (cases "n < 10")
    case True
    with "1.prems" show ?thesis by (subst show_nat.simps) simp
  next
    case False
    with "1.IH" "1.prems" have "parseUintLoop m (show_nat (n div 10)) 0 = (n div 10, None)" by simp
    moreover have "n div 10 * 10 + n mod 10 = n" by simp
    ultimately show ?thesis
      using False "1.prems" by (subst show_nat.simps) (simp add: parseUintLoop_append)
  qed
qed

lemma parseUintLoop_zeros:
  "parseUintLoop m (replicate k CHR ''0'' @ s) 0 = parseUintLoop m s 0"
  by (induction k) (simp_all add: digit_val_def)

lemma ParseUint_show_nat: "n < 2 ^ bits \<Longrightarrow> ParseUint (show_nat n) bits = (n, None)"
  by (simp add: ParseUint_def parseUintLoop_show_nat)

lemma parseUintLoop_bound: "n \<le> m \<Longrightarrow> parseUintLoop m s n = (k, e) \<Longrightarrow> k \<le> m"
proof (induction s arbitrary: n)
  case (Cons c s)
  have step: "\<not> m < n * 10 + v \<Longrightarrow> parseUintLoop m s (n * 10 + v) = (k, e) \<Longrightarrow> k \<le> m" for v
    using Cons.IH [of "n * 10 + v"] by simp
  from Cons.prems show ?case by (auto dest: step split: option.splits if_splits)
qed simp

lemma ParseUint_bound: "fst (ParseUint s bits) < 2 ^ bits"
proof -
  have "fst (ParseUint s bits) \<le> 2 ^ bits - 1"
    using parseUintLoop_bound [of 0 "2 ^ bits - 1" s]
    by (cases "parseUintLoop (2 ^ bits - 1) s 0") (auto simp: ParseUint_def)
  then show ?thesis by (simp add: Nat.le_diff_conv2 less_eq_Suc_le)
qed

text \<open>A string that starts with a digit is read without a sign.\<close>

lemma ParseInt_digits:
  assumes "s \<noteq> []" and "is_digit (hd s)" and "ParseUint s bits = (n, None)" and "n < 2 ^ (bits - 1)"
  shows "ParseInt s bits = (int n, None)"
proof -
  from assms(1) obtain c cs where s: "s = c # cs" by (cases s) auto
  with assms(2) have "c \<noteq> CHR ''-''" "c \<noteq> CHR ''+''" by auto
  with assms s show ?thesis by (simp add: ParseInt_def signed_of_def)
qed

lemma hd_show_nat [simp]: "is_digit (hd (show_nat n))"
  using show_nat_digits [of n] show_nat_nonempty [of n] hd_in_set by blast

lemma ParseInt_show_nat: "1 \<le> bits \<Longrightarrow> n < 2 ^ (bits - 1) \<Longrightarrow> ParseInt (show_nat n) bits = (int n, None)"
proof (rule ParseInt_digits)
  assume "1 \<le> bits" "n < 2 ^ (bits - 1)"
  moreover have "(2::nat) ^ (bits - 1) \<le> 2 ^ bits" by (simp add: power_increasing)
  ultimately show "ParseUint (show_nat n) bits = (n, None)"
    by (intro ParseUint_show_nat) linarith
qed simp_all

lemma signed_of_bounds:
  "0 < cutoff \<Longrightarrow> - int cutoff \<le> fst (signed_of neg cutoff un) \<and> fst (signed_of neg cutoff un) < int cutoff"
  by (auto simp: signed_of_def)

lemma ParseInt_bounds:
  "- (2 ^ (bits - 1)) \<le> fst (ParseInt s bits) \<and> fst (ParseInt s bits) < 2 ^ (bits - 1)"
proof (cases s)
  case Nil
  then show ?thesis by (simp add: ParseInt_def)
next
  case (Cons c cs)
  show ?thesis
    using signed_of_bounds [of "2 ^ (bits - 1)"] unfolding ParseInt_def Cons by (simp add: Let_def)
qed

section \<open>Searching and splitting\<close>

definition HasPrefix :: "string \<Rightarrow> string \<Rightarrow> bool" where
  "HasPrefix s p = (take (length p) s = p)"

text \<open>\<^verbatim>\<open>strings.Index\<close>: the text after the first occurrence, \<open>None\<close> for -1.\<close>

fun after_first :: "string \<Rightarrow> string \<Rightarrow> string option" where
  "after_first p [] = (if p = [] then Some [] else None)"
| "after_first p (c # cs) =
     (if HasPrefix (c # cs) p then Some (drop (length p) (c # cs)) else after_first p cs)"

text \<open>\<^verbatim>\<open>strings.LastIndex(s, "-")\<close> as the texts before and after the last occurrence.\<close>

fun split_last :: "char \<Rightarrow> string \<Rightarrow> (string \<times> string) option" where
  "split_last x [] = None"
| "split_last x (c # cs) =
     (case split_last x cs of
        Some (before, rest) \<Rightarrow> Some (c # before, rest)
      | None \<Rightarrow> if c = x then Some ([], cs) else None)"

fun Split :: "char \<Rightarrow> string \<Rightarrow> string list" where
  "Split x [] = [[]]"
| "Split x (c # cs) =
     (if c = x then [] # Split x cs
      else case Split x cs of [] \<Rightarrow> [[c]] | y # ys \<Rightarrow> (c # y) # ys)"

fun Join :: "string list \<Rightarrow> string \<Rightarrow> string" where
  "Join [] sep = []"
| "Join [x] sep = x"
| "Join (x # y # ys) sep = x @ sep @ Join (y # ys) sep"

definition is_space :: "char \<Rightarrow> bool" where
  "is_space c = (let n = (of_char c :: nat) in n = 32 \<or> (9 \<le> n \<and> n \<le> 13))"

definition TrimSpace :: "string \<Rightarrow> string" where
  "TrimSpace s = rev (dropWhile is_space (rev (dropWhile is_space s)))"

lemma HasPrefix_append [simp]: "HasPrefix (p @ s) p"
  by (simp add: HasPrefix_def)

lemma after_first_prefix: "p \<noteq> [] \<Longrightarrow> after_first p (p @ s) = Some s"
  by (cases p) (simp_all add: HasPrefix_def)

lemma after_first_Some:
  "after_first p s = Some r \<Longrightarrow> \<exists>a. s = a @ p @ r"
proof (induction p s rule: after_first.induct)
  case (1 p)
  then show ?case by (simp split: if_splits)
next
  case (2 p c cs)
  show ?case
  proof (cases "HasPrefix (c # cs) p")
    case True
    then have "c # cs = p @ drop (length p) (c # cs)"
      by (metis HasPrefix_def append_take_drop_id)
    with True "2.prems" show ?thesis by (intro exI [of _ "[]"]) simp
  next
    case False
    with "2" obtain a where "cs = a @ p @ r" by auto
    then show ?thesis by (intro exI [of _ "c # a"]) simp
  qed
qed

lemma split_last_None: "split_last x s = None \<longleftrightarrow> x \<notin> set s"
  by (induction s) (auto split: option.splits)

lemma split_last_append: "x \<notin> set b \<Longrightarrow> split_last x (a @ x # b) = Some (a, b)"
proof (induction a)
  case Nil
  then have "split_last x b = None" by (simp add: split_last_None)
  then show ?case by simp
qed simp

lemma split_last_Some: "split_last x s = Some (a, b) \<Longrightarrow> s = a @ x # b \<and> x \<notin> set b"
  by (induction s arbitrary: a b) (auto simp: split_last_None split: option.splits if_splits)

lemma Split_nonempty [simp]: "Split x s \<noteq> []"
  by (induction s) (auto split: list.splits)

lemma Join_Split: "Join (Split x s) [x] = s"
proof (induction s)
  case Nil
  then show ?case by simp
next
  case (Cons c cs)
  obtain y ys where "Split x cs = y # ys" using Split_nonempty [of x cs] by (cases "Split x cs") auto
  with Cons show ?case by (cases ys) auto
qed

lemma hd_Split_append: "x \<notin> set a \<Longrightarrow> hd (Split x (a @ x # b)) = a"
proof (induction a)
  case (Cons c a)
  then show ?case
    by (cases "Split x (a @ x # b)") auto
qed simp

lemma dropWhile_space_id: "s = [] \<or> \<not> is_space (hd s) \<Longrightarrow> dropWhile is_space s = s"
  by (cases s) auto

lemma digit_not_space: "is_digit c \<Longrightarrow> \<not> is_space c"
  by (auto simp: is_digit_def digit_val_def is_space_def Let_def split: if_splits)

lemma TrimSpace_show_nat [simp]: "TrimSpace (show_nat n) = show_nat n"
proof -
  have "last (show_nat n) \<in> set (show_nat n)" by simp
  then have "is_digit (last (show_nat n))" using show_nat_digits by blast
  then have "\<not> is_space (hd (rev (show_nat n)))" by (simp add: hd_rev digit_not_space)
  then show ?thesis
    by (simp add: TrimSpace_def dropWhile_space_id digit_not_space)
qed

lemma Split_no_sep: "t \<in> set (Split x s) \<Longrightarrow> x \<notin> set t"
  by (induction s arbitrary: t) (fastforce split: if_splits list.splits)+

end
