(* ===== verification/KubeTypes.thy ===== *)
theory KubeTypes
  imports GoStrings
begin

text \<open>
  The Kubernetes API objects the operator reads and writes, with the fields its code touches;
  what it only passes through is kept as text (\<open>string\<close>), so that two objects differ when the
  passed-through part does. A Go map that may be nil is a \<open>gomap\<close>.
\<close>

type_synonym 'v gomap = "(string \<times> 'v) list option"

definition gm_get :: "'v gomap \<Rightarrow> string \<Rightarrow> 'v option" where
  "gm_get m k = (case m of None \<Rightarrow> None | Some kvs \<Rightarrow> map_of kvs k)"

definition gm_list :: "'v gomap \<Rightarrow> (string \<times> 'v) list" where
  "gm_list m = (case m of None \<Rightarrow> [] | Some kvs \<Rightarrow> kvs)"

text \<open>\<^verbatim>\<open>m[k] = v\<close>: assignment to an entry of a nil map panics.\<close>

definition gm_put :: "string \<Rightarrow> 'v \<Rightarrow> 'v gomap \<Rightarrow> 'v gomap go" where
  "gm_put k v m =
     (case m of None \<Rightarrow> Panic ''assignment to entry in nil map''
      | Some kvs \<Rightarrow> Ret (Some (AList.update k v kvs)))"

record ownerref =
  OwnerAPIVersion :: string
  OwnerKind :: string
  OwnerName :: string
  OwnerUID :: string
  OwnerController :: "bool option"

record objmeta =
  ObjName :: string
  ObjNamespace :: string
  GenerateName :: string
  UID :: string
  ResourceVersion :: string
  Labels :: "string gomap"
  Annotations :: "string gomap"
  OwnerReferences :: "ownerref list"

definition zero_meta :: objmeta where
  "zero_meta = \<lparr>ObjName = [], ObjNamespace = [], GenerateName = [], UID = [], ResourceVersion = [],
     Labels = None, Annotations = None, OwnerReferences = []\<rparr>"

record envvar =
  EnvName :: string
  EnvValue :: string
  EnvFieldRef :: "(string \<times> string) option"

record volumemount =
  MountName :: string
  MountReadOnly :: bool
  MountPath :: string
  SubPath :: string

record container =
  ContainerName :: string
  Image :: string
  Env :: "envvar list"
  VolumeMounts :: "volumemount list"
  ContainerRest :: string

datatype volumesource =
    DownwardAPI "(string \<times> string) list"
  | SecretVolume string
  | OtherVolume string

record volume =
  VolumeName :: string
  VolumeSource :: volumesource

datatype intorstring = IntVal int | StrVal string

record serviceport =
  PortName :: string
  Port :: int32
  TargetPort :: intorstring

text \<open>Required pod anti-affinity on one label set and topology key, or an affinity given by the user.\<close>

datatype affinity = RequiredAntiAffinity "(string \<times> string) list" string | UserAffinity string

record podspec =
  PodVolumes :: "volume list"
  PodContainers :: "container list"
  PodSecurityContext :: "string option"
  PodServiceAccountName :: string
  PodSpecNodeSelector :: "string gomap"
  PodTolerations :: "string list"
  PodAffinity :: "affinity option"
  TerminationGracePeriodSeconds :: "int64 option"
  PodAutomountToken :: "bool option"

record podcondition =
  PodCondType :: string
  PodCondStatus :: string

record pod =
  PodMeta :: objmeta
  PodSpec :: podspec
  PodPhase :: string
  PodConditions :: "podcondition list"

record servicespec =
  ClusterIP :: string
  SvcPorts :: "serviceport list"
  Selector :: "string gomap"
  PublishNotReadyAddresses :: bool

record service =
  SvcMeta :: objmeta
  SvcSpec :: servicespec

record secret =
  SecretMeta :: objmeta
  SecretData :: "string gomap"

record configmap =
  CMMeta :: objmeta
  CMData :: "(string \<times> string) list"

record statefulsetspec =
  StsServiceName :: string
  StsReplicas :: "int32 option"
  PodManagementPolicy :: string
  StsVolumeClaimTemplates :: "string list"
  UpdateStrategy :: string
  TemplateMeta :: objmeta
  TemplateSpec :: podspec

record statefulset =
  StsMeta :: objmeta
  StsSpec :: statefulsetspec

lemma gm_get_simps [simp]: "gm_get None k = None" "gm_get (Some kvs) k = map_of kvs k"
  by (simp_all add: gm_get_def)

lemma gm_list_simps [simp]: "gm_list None = []" "gm_list (Some kvs) = kvs"
  by (simp_all add: gm_list_def)

lemma gm_get_list: "gm_get m k = map_of (gm_list m) k"
  by (cases m) simp_all

end
