(* ===== verification/ApiStatus.thy ===== *)
theory ApiStatus
  imports KubeTypes
begin

text \<open>
  pkg/apis/clusterlabs/v1alpha1/status.go: the status of a cluster and its conditions. The clock
  that \<^verbatim>\<open>newClusterCondition\<close> reads is an argument (\<open>now\<close>), as text in RFC 3339 form.

  A locale states what every condition setter promises (\<open>condition_setter\<close>): the type of a
  condition occurs once, the new condition is the one found afterwards, the others stay, and
  setting the same condition again keeps its timestamps. Each setter of the source is an instance.
\<close>

section \<open>Phases, conditions and the status record\<close>

definition ClusterPhaseNone :: string where "ClusterPhaseNone = []"
definition ClusterPhaseCreating :: string where "ClusterPhaseCreating = ''Creating''"
definition ClusterPhaseRunning :: string where "ClusterPhaseRunning = ''Running''"
definition ClusterPhasePaused :: string where "ClusterPhasePaused = ''Paused''"
definition ClusterPhaseFailed :: string where "ClusterPhaseFailed = ''Failed''"

definition ClusterConditionAvailable :: string where "ClusterConditionAvailable = ''Available''"
definition ClusterConditionRecovering :: string where "ClusterConditionRecovering = ''Recovering''"
definition ClusterConditionScaling :: string where "ClusterConditionScaling = ''Scaling''"
definition ClusterConditionUpgrading :: string where "ClusterConditionUpgrading = ''Upgrading''"

definition ConditionTrue :: string where "ConditionTrue = ''True''"

lemmas phase_defs = ClusterPhaseNone_def ClusterPhaseCreating_def ClusterPhaseRunning_def
  ClusterPhasePaused_def ClusterPhaseFailed_def

lemmas condition_type_defs = ClusterConditionAvailable_def ClusterConditionRecovering_def
  ClusterConditionScaling_def ClusterConditionUpgrading_def

record clustercondition =
  CondType :: string
  CondStatus :: string
  LastUpdateTime :: string
  LastTransitionTime :: string
  CondReason :: string
  Message :: string

record membersstatus =
  Ready :: "string slice"
  Unready :: "string slice"
  Primary :: "string slice"
  Secondary :: "string slice"
  Failed :: "string slice"

record clusterstatus =
  Phase :: string
  Reason :: string
  ControlPaused :: bool
  Conditions :: "clustercondition slice"
  StatusReplicas :: int
  RestoreReplicas :: int
  StatusServiceName :: string
  ClientPort :: int
  StatusMembers :: membersstatus
  CurrentVersion :: string
  TargetVersion :: string

definition zero_status :: clusterstatus where
  "zero_status = \<lparr>Phase = [], Reason = [], ControlPaused = False, Conditions = None,
     StatusReplicas = 0, RestoreReplicas = 0, StatusServiceName = [], ClientPort = 0,
     StatusMembers = \<lparr>Ready = None, Unready = None, Primary = None, Secondary = None, Failed = None\<rparr>,
     CurrentVersion = [], TargetVersion = []\<rparr>"

section \<open>Operations\<close>

definition IsFailed :: "clusterstatus option \<Rightarrow> bool" where
  "IsFailed cs = (case cs of None \<Rightarrow> False | Some s \<Rightarrow> Phase s = ClusterPhaseFailed)"

definition SetPhase :: "string \<Rightarrow> clusterstatus \<Rightarrow> clusterstatus" where
  "SetPhase p cs = cs\<lparr>Phase := p\<rparr>"

definition PauseControl :: "clusterstatus \<Rightarrow> clusterstatus" where
  "PauseControl cs = cs\<lparr>ControlPaused := True\<rparr>"

definition Control :: "clusterstatus \<Rightarrow> clusterstatus" where
  "Control cs = cs\<lparr>ControlPaused := False\<rparr>"

definition UpgradeVersionTo :: "string \<Rightarrow> clusterstatus \<Rightarrow> clusterstatus" where
  "UpgradeVersionTo v cs = cs\<lparr>TargetVersion := v\<rparr>"

definition SetVersion :: "string \<Rightarrow> clusterstatus \<Rightarrow> clusterstatus" where
  "SetVersion v cs = cs\<lparr>TargetVersion := [], CurrentVersion := v\<rparr>"

definition SetReason :: "string \<Rightarrow> clusterstatus \<Rightarrow> clusterstatus" where
  "SetReason r cs = cs\<lparr>Reason := r\<rparr>"

text \<open>The loop of \<^verbatim>\<open>getClusterCondition\<close>: the position and value of the first condition of a type.\<close>

fun findCondition :: "string \<Rightarrow> clustercondition list \<Rightarrow> nat \<Rightarrow> (nat \<times> clustercondition) option" where
  "findCondition t [] i = None"
| "findCondition t (c # cs) i = (if t = CondType c then Some (i, c) else findCondition t cs (Suc i))"

definition getClusterCondition :: "clusterstatus \<Rightarrow> string \<Rightarrow> (nat \<times> clustercondition) option" where
  "getClusterCondition status t = findCondition t (elems (Conditions status)) 0"

definition setClusterCondition :: "clustercondition \<Rightarrow> clusterstatus \<Rightarrow> clusterstatus" where
  "setClusterCondition c cs =
     (case getClusterCondition cs (CondType c) of
        Some (pos, cp) \<Rightarrow>
          if CondStatus cp = CondStatus c \<and> CondReason cp = CondReason c \<and> Message cp = Message c
          then cs
          else cs\<lparr>Conditions := Some ((elems (Conditions cs))[pos := c])\<rparr>
      | None \<Rightarrow> cs\<lparr>Conditions := sappend (Conditions cs) c\<rparr>)"

definition ClearCondition :: "string \<Rightarrow> clusterstatus \<Rightarrow> clusterstatus" where
  "ClearCondition t cs =
     (case getClusterCondition cs t of
        None \<Rightarrow> cs
      | Some (pos, _) \<Rightarrow>
          cs\<lparr>Conditions := Some (take pos (elems (Conditions cs)) @ drop (Suc pos) (elems (Conditions cs)))\<rparr>)"

definition newClusterCondition :: "string \<Rightarrow> string \<Rightarrow> string \<Rightarrow> string \<Rightarrow> string \<Rightarrow> clustercondition" where
  "newClusterCondition now condType status reason message =
     \<lparr>CondType = condType, CondStatus = status, LastUpdateTime = now, LastTransitionTime = now,
      CondReason = reason, Message = message\<rparr>"

definition scalingMsg :: "int32 \<Rightarrow> int32 \<Rightarrow> string" where
  "scalingMsg from_size to_size =
     ''Current cluster size: '' @ show_int from_size @ '', desired cluster size: '' @ show_int to_size"

definition SetScalingUpCondition :: "int32 \<Rightarrow> int32 \<Rightarrow> string \<Rightarrow> clusterstatus \<Rightarrow> clusterstatus" where
  "SetScalingUpCondition from_size to_size now cs =
     setClusterCondition (newClusterCondition now ClusterConditionScaling ConditionTrue ''Scaling up''
       (scalingMsg from_size to_size)) cs"

definition SetScalingDownCondition :: "int32 \<Rightarrow> int32 \<Rightarrow> string \<Rightarrow> clusterstatus \<Rightarrow> clusterstatus" where
  "SetScalingDownCondition from_size to_size now cs =
     setClusterCondition (newClusterCondition now ClusterConditionScaling ConditionTrue ''Scaling down''
       (scalingMsg from_size to_size)) cs"

definition SetRecoveringCondition :: "string \<Rightarrow> clusterstatus \<Rightarrow> clusterstatus" where
  "SetRecoveringCondition now cs =
     ClearCondition ClusterConditionAvailable
       (setClusterCondition (newClusterCondition now ClusterConditionRecovering ConditionTrue
          ''Disaster recovery'' ''Majority is down. Recovering from backup'') cs)"

definition SetUpgradingCondition :: "string \<Rightarrow> string \<Rightarrow> clusterstatus \<Rightarrow> clusterstatus" where
  "SetUpgradingCondition to_version now cs =
     setClusterCondition (newClusterCondition now ClusterConditionUpgrading ConditionTrue
       ''Cluster upgrading'' (''upgrading to '' @ to_version)) cs"

definition SetReadyCondition :: "string \<Rightarrow> clusterstatus \<Rightarrow> clusterstatus" where
  "SetReadyCondition now cs =
     setClusterCondition (newClusterCondition now ClusterConditionAvailable ConditionTrue
       ''Cluster available'' []) cs"

section \<open>Lemmas\<close>

text \<open>The condition of a type, if there is one.\<close>

definition condition_of :: "clusterstatus \<Rightarrow> string \<Rightarrow> clustercondition option" where
  "condition_of cs t = map_option snd (getClusterCondition cs t)"

definition conds_wf :: "clusterstatus \<Rightarrow> bool" where
  "conds_wf cs = distinct (map CondType (elems (Conditions cs)))"

lemma findCondition_None: "findCondition t cs i = None \<longleftrightarrow> t \<notin> CondType ` set cs"
  by (induction cs arbitrary: i) auto

lemma findCondition_Some:
  "findCondition t cs i = Some (p, c) \<Longrightarrow>
   \<exists>j < length cs. p = i + j \<and> cs ! j = c \<and> CondType c = t \<and> t \<notin> CondType ` set (take j cs)"
proof (induction cs arbitrary: i)
  case (Cons x cs)
  show ?case
  proof (cases "t = CondType x")
    case True
    with Cons.prems show ?thesis by (intro exI [of _ 0]) simp
  next
    case False
    with Cons.prems have "findCondition t cs (Suc i) = Some (p, c)" by simp
    from Cons.IH [OF this] obtain j where
      "j < length cs" "p = Suc i + j" "cs ! j = c" "CondType c = t" "t \<notin> CondType ` set (take j cs)"
      by blast
    with False show ?thesis by (intro exI [of _ "Suc j"]) auto
  qed
qed simp

lemma findCondition_append:
  "findCondition t (xs @ ys) i =
     (case findCondition t xs i of None \<Rightarrow> findCondition t ys (i + length xs) | Some r \<Rightarrow> Some r)"
  by (induction xs arbitrary: i) (auto split: option.splits)

lemma findCondition_shift:
  "map_option snd (findCondition t cs i) = map_option snd (findCondition t cs j)"
  by (induction cs arbitrary: i j) auto

lemma findCondition_update_other:
  "CondType c \<noteq> t \<Longrightarrow> CondType (cs ! p) \<noteq> t \<Longrightarrow> p < length cs \<Longrightarrow>
   findCondition t (cs[p := c]) i = findCondition t cs i"
  by (induction cs arbitrary: i p) (auto split: nat.splits)

lemma findCondition_update_same:
  assumes "j < length cs" "CondType (cs ! j) = CondType c" "CondType c \<notin> CondType ` set (take j cs)"
  shows "findCondition (CondType c) (cs[j := c]) i = Some (i + j, c)"
  using assms
proof (induction cs arbitrary: i j)
  case (Cons x cs)
  then show ?case by (cases j) auto
qed simp

lemma getClusterCondition_Some:
  assumes "getClusterCondition cs t = Some (p, c)"
  shows "p < length (elems (Conditions cs))" "elems (Conditions cs) ! p = c" "CondType c = t"
    "t \<notin> CondType ` set (take p (elems (Conditions cs)))"
  using findCondition_Some [OF assms [unfolded getClusterCondition_def]] by auto

lemma conds_wf_set: "conds_wf cs \<Longrightarrow> conds_wf (setClusterCondition c cs)"
proof (cases "getClusterCondition cs (CondType c)")
  case None
  assume "conds_wf cs"
  moreover have "CondType c \<notin> CondType ` set (elems (Conditions cs))"
    using None by (simp add: getClusterCondition_def findCondition_None)
  ultimately show ?thesis
    using None by (simp add: setClusterCondition_def conds_wf_def)
next
  case (Some r)
  obtain p cp where r: "r = (p, cp)" by (cases r)
  assume "conds_wf cs"
  moreover have "map CondType ((elems (Conditions cs))[p := c]) = map CondType (elems (Conditions cs))"
    using getClusterCondition_Some [of cs "CondType c" p cp] Some r
    by (metis list_update_id map_update)
  ultimately show ?thesis
    using Some r by (simp add: setClusterCondition_def conds_wf_def)
qed

lemma conds_wf_clear: "conds_wf cs \<Longrightarrow> conds_wf (ClearCondition t cs)"
proof (cases "getClusterCondition cs t")
  case (Some r)
  assume wf: "conds_wf cs"
  let ?xs = "elems (Conditions cs)"
  have "distinct (map CondType (take (fst r) ?xs @ drop (Suc (fst r)) ?xs))"
    using wf set_take_disj_set_drop_if_distinct [of "map CondType ?xs" "fst r" "Suc (fst r)"]
    by (auto simp: conds_wf_def take_map [symmetric] drop_map [symmetric])
  with Some show ?thesis by (cases r) (simp add: ClearCondition_def conds_wf_def)
qed (simp add: ClearCondition_def)

text \<open>The condition found after setting one: the old one where nothing changed, else the new one.\<close>

lemma condition_of_set_same:
  "\<exists>c'. condition_of (setClusterCondition c cs) (CondType c) = Some c' \<and> CondType c' = CondType c \<and>
        CondStatus c' = CondStatus c \<and> CondReason c' = CondReason c \<and> Message c' = Message c"
proof (cases "getClusterCondition cs (CondType c)")
  case None
  then show ?thesis
    by (simp add: setClusterCondition_def condition_of_def getClusterCondition_def findCondition_append)
next
  case (Some r)
  obtain p cp where r: "r = (p, cp)" by (cases r)
  note f = getClusterCondition_Some [OF Some [unfolded r]]
  have new: "getClusterCondition (cs\<lparr>Conditions := Some ((elems (Conditions cs))[p := c])\<rparr>) (CondType c) = Some (p, c)"
    using f findCondition_update_same [OF f(1), of c 0] by (simp add: getClusterCondition_def)
  show ?thesis
    using Some f(3) by (auto simp: r setClusterCondition_def condition_of_def new)
qed

lemma condition_of_set_other:
  assumes "CondType c \<noteq> t"
  shows "condition_of (setClusterCondition c cs) t = condition_of cs t"
proof (cases "getClusterCondition cs (CondType c)")
  case None
  with assms show ?thesis
    by (auto simp: setClusterCondition_def condition_of_def getClusterCondition_def findCondition_append
        split: option.splits)
next
  case (Some r)
  obtain p cp where r: "r = (p, cp)" by (cases r)
  note f = getClusterCondition_Some [OF Some [unfolded r]]
  have "findCondition t ((elems (Conditions cs))[p := c]) 0 = findCondition t (elems (Conditions cs)) 0"
    using assms f by (intro findCondition_update_other) auto
  with Some show ?thesis
    by (simp add: r setClusterCondition_def condition_of_def getClusterCondition_def)
qed

lemma condition_of_clear_same: "conds_wf cs \<Longrightarrow> condition_of (ClearCondition t cs) t = None"
proof (cases "getClusterCondition cs t")
  case (Some r)
  obtain p c where r: "r = (p, c)" by (cases r)
  note f = getClusterCondition_Some [OF Some [unfolded r]]
  assume wf: "conds_wf cs"
  let ?xs = "elems (Conditions cs)"
  have "?xs = take p ?xs @ c # drop (Suc p) ?xs" using f by (metis id_take_nth_drop)
  then have "distinct (map CondType (take p ?xs @ c # drop (Suc p) ?xs))"
    using wf by (simp add: conds_wf_def)
  then have "t \<notin> CondType ` set (take p ?xs @ drop (Suc p) ?xs)" using f(3) by auto
  with Some show ?thesis
    by (simp add: r ClearCondition_def condition_of_def getClusterCondition_def findCondition_None)
qed (simp add: ClearCondition_def condition_of_def)

lemma condition_of_clear_other:
  assumes "t \<noteq> u"
  shows "condition_of (ClearCondition t cs) u = condition_of cs u"
proof (cases "getClusterCondition cs t")
  case (Some r)
  obtain p c where r: "r = (p, c)" by (cases r)
  note f = getClusterCondition_Some [OF Some [unfolded r]]
  let ?xs = "elems (Conditions cs)"
  have "map_option snd (findCondition u ?xs 0) =
      map_option snd (findCondition u (take p ?xs @ c # drop (Suc p) ?xs) 0)"
    using f by (metis id_take_nth_drop)
  also have "\<dots> = map_option snd (findCondition u (take p ?xs @ drop (Suc p) ?xs) 0)"
    using assms f(3) findCondition_shift [of u "drop (Suc p) ?xs"]
    by (auto simp: findCondition_append split: option.splits)
  finally show ?thesis
    using Some by (simp add: r ClearCondition_def condition_of_def getClusterCondition_def)
qed (simp add: ClearCondition_def)

lemma setClusterCondition_again:
  assumes "CondType c = CondType d" "CondStatus c = CondStatus d" "CondReason c = CondReason d" "Message c = Message d"
    and "\<exists>c'. condition_of cs (CondType c) = Some c' \<and> CondStatus c' = CondStatus c \<and>
           CondReason c' = CondReason c \<and> Message c' = Message c"
  shows "setClusterCondition d cs = cs"
  using assms by (auto simp: setClusterCondition_def condition_of_def)

lemma ClearCondition_absent: "condition_of cs t = None \<Longrightarrow> ClearCondition t cs = cs"
  by (simp add: ClearCondition_def condition_of_def)

lemma newClusterCondition_sel [simp]:
  "CondType (newClusterCondition now t s r m) = t" "CondStatus (newClusterCondition now t s r m) = s"
  "CondReason (newClusterCondition now t s r m) = r" "Message (newClusterCondition now t s r m) = m"
  by (simp_all add: newClusterCondition_def)

section \<open>The contract of a condition setter\<close>

text \<open>
  What reconciliation relies on when it sets a condition: types stay unique, the condition is
  listed afterwards as true with its reason and message, the types in \<open>cleared\<close> are gone, all
  others are untouched, and setting the condition again changes nothing (its timestamps stay).
\<close>

locale condition_setter =
  fixes set_cond :: "string \<Rightarrow> clusterstatus \<Rightarrow> clusterstatus"
    and ctype :: string and creason :: string and msg :: string and cleared :: "string set"
  assumes keeps_wf: "conds_wf cs \<Longrightarrow> conds_wf (set_cond now cs)"
    and listed: "conds_wf cs \<Longrightarrow> \<exists>c. condition_of (set_cond now cs) ctype = Some c \<and>
          CondStatus c = ConditionTrue \<and> CondReason c = creason \<and> Message c = msg"
    and others: "t \<noteq> ctype \<Longrightarrow> t \<notin> cleared \<Longrightarrow> condition_of (set_cond now cs) t = condition_of cs t"
    and gone: "conds_wf cs \<Longrightarrow> t \<in> cleared \<Longrightarrow> condition_of (set_cond now cs) t = None"
    and stable: "conds_wf cs \<Longrightarrow> set_cond later (set_cond now cs) = set_cond now cs"
begin

lemma set_many: "conds_wf cs \<Longrightarrow> fold set_cond ticks (set_cond now cs) = set_cond now cs"
  by (induction ticks) (simp_all add: stable)

lemma all_true:
  assumes "conds_wf cs" and "\<forall>t c. condition_of cs t = Some c \<longrightarrow> CondStatus c = ConditionTrue"
  shows "condition_of (set_cond now cs) t = Some c \<Longrightarrow> CondStatus c = ConditionTrue"
  using assms listed [of cs now] others [of t now cs] gone [of cs t now]
  by (cases "t = ctype"; cases "t \<in> cleared") auto

end

lemma simple_setter:
  "condition_setter (\<lambda>now. setClusterCondition (newClusterCondition now t ConditionTrue r m)) t r m {}"
proof
  show "conds_wf cs \<Longrightarrow> conds_wf (setClusterCondition (newClusterCondition now t ConditionTrue r m) cs)" for cs now
    by (rule conds_wf_set)
  show "\<exists>c. condition_of (setClusterCondition (newClusterCondition now t ConditionTrue r m) cs) t = Some c \<and>
      CondStatus c = ConditionTrue \<and> CondReason c = r \<and> Message c = m" for cs now
    using condition_of_set_same [of "newClusterCondition now t ConditionTrue r m" cs] by auto
  then show "setClusterCondition (newClusterCondition later t ConditionTrue r m)
      (setClusterCondition (newClusterCondition now t ConditionTrue r m) cs) =
      setClusterCondition (newClusterCondition now t ConditionTrue r m) cs" for cs now later
    by (intro setClusterCondition_again [of "newClusterCondition now t ConditionTrue r m"]) auto
qed (simp_all add: condition_of_set_other)

interpretation scaling_up: condition_setter "SetScalingUpCondition from_size to_size"
  ClusterConditionScaling "''Scaling up''" "scalingMsg from_size to_size" "{}"
  for from_size to_size
  unfolding SetScalingUpCondition_def [abs_def] by (rule simple_setter)

interpretation scaling_down: condition_setter "SetScalingDownCondition from_size to_size"
  ClusterConditionScaling "''Scaling down''" "scalingMsg from_size to_size" "{}"
  for from_size to_size
  unfolding SetScalingDownCondition_def [abs_def] by (rule simple_setter)

interpretation upgrading: condition_setter "SetUpgradingCondition to_version"
  ClusterConditionUpgrading "''Cluster upgrading''" "''upgrading to '' @ to_version" "{}"
  for to_version
  unfolding SetUpgradingCondition_def [abs_def] by (rule simple_setter)

interpretation ready: condition_setter SetReadyCondition
  ClusterConditionAvailable "''Cluster available''" "[]" "{}"
  unfolding SetReadyCondition_def [abs_def] by (rule simple_setter)

interpretation recovering: condition_setter SetRecoveringCondition
  ClusterConditionRecovering "''Disaster recovery''" "''Majority is down. Recovering from backup''"
  "{ClusterConditionAvailable}"
proof
  let ?new = "\<lambda>now. newClusterCondition now ClusterConditionRecovering ConditionTrue ''Disaster recovery''
    ''Majority is down. Recovering from backup''"
  have ne: "ClusterConditionAvailable \<noteq> ClusterConditionRecovering" by (simp add: condition_type_defs)
  show wf: "conds_wf (SetRecoveringCondition now cs)" if "conds_wf cs" for cs now
    unfolding SetRecoveringCondition_def using that by (intro conds_wf_clear conds_wf_set)
  show listed: "\<exists>c. condition_of (SetRecoveringCondition now cs) ClusterConditionRecovering = Some c \<and>
      CondStatus c = ConditionTrue \<and> CondReason c = ''Disaster recovery'' \<and>
      Message c = ''Majority is down. Recovering from backup''" for cs now
    using condition_of_set_same [of "?new now" cs] ne
    by (auto simp: SetRecoveringCondition_def condition_of_clear_other)
  show gone: "condition_of (SetRecoveringCondition now cs) t = None"
    if "conds_wf cs" "t \<in> {ClusterConditionAvailable}" for cs now t
    using that conds_wf_set by (simp add: SetRecoveringCondition_def condition_of_clear_same)
  show "condition_of (SetRecoveringCondition now cs) t = condition_of cs t"
    if "t \<noteq> ClusterConditionRecovering" "t \<notin> {ClusterConditionAvailable}" for cs now t
    using that by (simp add: SetRecoveringCondition_def condition_of_clear_other condition_of_set_other)
  show "SetRecoveringCondition later (SetRecoveringCondition now cs) = SetRecoveringCondition now cs"
    if "conds_wf cs" for cs now later
  proof -
    have "setClusterCondition (?new later) (SetRecoveringCondition now cs) = SetRecoveringCondition now cs"
      using listed [of now cs] by (intro setClusterCondition_again [of "?new now"]) auto
    then show ?thesis
      using gone [OF that, of ClusterConditionAvailable now]
      by (subst SetRecoveringCondition_def) (simp add: ClearCondition_absent)
  qed
qed

section \<open>Properties\<close>

text \<open>The condition updates a cluster goes through, in any order and at any times.\<close>

datatype cond_op = OpScalingUp int32 int32 | OpScalingDown int32 int32 | OpRecovering | OpUpgrading string | OpReady | OpClear string

fun apply_cond :: "cond_op \<times> string \<Rightarrow> clusterstatus \<Rightarrow> clusterstatus" where
  "apply_cond (OpScalingUp f t, now) cs = SetScalingUpCondition f t now cs"
| "apply_cond (OpScalingDown f t, now) cs = SetScalingDownCondition f t now cs"
| "apply_cond (OpRecovering, now) cs = SetRecoveringCondition now cs"
| "apply_cond (OpUpgrading v, now) cs = SetUpgradingCondition v now cs"
| "apply_cond (OpReady, now) cs = SetReadyCondition now cs"
| "apply_cond (OpClear t, now) cs = ClearCondition t cs"

definition conds_true :: "clusterstatus \<Rightarrow> bool" where
  "conds_true cs = (\<forall>t c. condition_of cs t = Some c \<longrightarrow> CondStatus c = ConditionTrue)"

lemma apply_cond_inv:
  assumes "conds_wf cs" and "conds_true cs"
  shows "conds_wf (apply_cond op cs) \<and> conds_true (apply_cond op cs)"
proof -
  have t: "\<forall>t c. condition_of cs t = Some c \<longrightarrow> CondStatus c = ConditionTrue"
    using assms(2) by (simp add: conds_true_def)
  have clear: "condition_of (ClearCondition u cs) t = Some c \<Longrightarrow> condition_of cs t = Some c" for u t c
    using assms(1) by (cases "t = u") (auto simp: condition_of_clear_same condition_of_clear_other)
  obtain o' now where "op = (o', now)" by (cases op)
  then show ?thesis
    using assms(1) t
    by (cases o') (auto simp: conds_true_def conds_wf_clear
        intro: scaling_up.keeps_wf scaling_down.keeps_wf recovering.keeps_wf upgrading.keeps_wf ready.keeps_wf
        dest: clear scaling_up.all_true scaling_down.all_true recovering.all_true upgrading.all_true ready.all_true)
qed

lemma fold_apply_cond_inv:
  "conds_wf cs \<Longrightarrow> conds_true cs \<Longrightarrow> conds_wf (fold apply_cond ops cs) \<and> conds_true (fold apply_cond ops cs)"
  by (induction ops arbitrary: cs) (simp_all add: apply_cond_inv)


text \<open>
  Reporting a cluster as ready does not withdraw the recovery report: after
  \<open>SetRecoveringCondition\<close> and any number of later \<open>SetReadyCondition\<close> calls the status lists
  Recovering as true next to Available as true.
\<close>

lemma ready_keeps_recovering:
  assumes "conds_wf cs" and "ticks \<noteq> []"
  shows "\<exists>r a. condition_of (fold SetReadyCondition ticks (SetRecoveringCondition now cs)) ClusterConditionRecovering = Some r \<and>
           condition_of (fold SetReadyCondition ticks (SetRecoveringCondition now cs)) ClusterConditionAvailable = Some a \<and>
           CondStatus r = ConditionTrue \<and> CondStatus a = ConditionTrue"
proof -
  from assms(2) obtain t ts where ts: "ticks = t # ts" by (cases ticks) auto
  let ?r = "SetRecoveringCondition now cs"
  have wf: "conds_wf ?r" using assms(1) by (rule recovering.keeps_wf)
  have "fold SetReadyCondition ticks ?r = SetReadyCondition t ?r"
    using ready.set_many [OF wf] by (simp add: ts)
  moreover have "condition_of (SetReadyCondition t ?r) ClusterConditionRecovering = condition_of ?r ClusterConditionRecovering"
    by (rule ready.others) (simp_all add: condition_type_defs)
  ultimately show ?thesis
    using recovering.listed [OF assms(1), of now] ready.listed [OF wf, of t] by auto
qed

end
