(* ===== verification/Selectors.thy ===== *)
theory Selectors
  imports KubeTypes
begin

text \<open>
  Label selectors (vendor/k8s.io/apimachinery/pkg/labels/selector.go, LabelSelectorAsSelector of
  apis/meta/v1/helpers.go, util/validation) and the listing of a cache by selector
  (vendor/k8s.io/client-go/tools/cache/listers.go): what the operator lists pods with and what selects the
  configuration maps of a cluster.

  \<^item> The regular expressions of the validation are predicates on strings; their texts are in the messages.
  \<^item> The operators that compare numbers are made only by the parser of selectors and are left out.
  \<^item> The lemmas give the meaning of a selector, in every order in which a map of labels is visited, and what
    happens to labels that are not valid.
\<close>

section \<open>Keys and values\<close>

definition MaxLenError :: "nat \<Rightarrow> string" where
  "MaxLenError n = ''must be no more than '' @ show_nat n @ '' characters''"

definition RegexError :: "string \<Rightarrow> string \<Rightarrow> string list \<Rightarrow> string" where
  "RegexError msg fmt examples =
     (if examples = [] then msg @ '' (regex used for validation is '' @ quoted fmt @ '')''
      else msg @ '' (e.g. '' @ Join (map (\<lambda>e. quoted e @ '', '') examples) '' or '' @
             ''regex used for validation is '' @ quoted fmt @ '')'')"

definition isLower :: "char \<Rightarrow> bool" where
  "isLower c = (let n = of_char c :: nat in 97 \<le> n \<and> n \<le> 122)"

definition isUpper :: "char \<Rightarrow> bool" where
  "isUpper c = (let n = of_char c :: nat in 65 \<le> n \<and> n \<le> 90)"

definition qnameChar :: "char \<Rightarrow> bool" where
  "qnameChar c = (isLower c \<or> isUpper c \<or> is_digit c)"

definition qnameExtChar :: "char \<Rightarrow> bool" where
  "qnameExtChar c = (qnameChar c \<or> c \<in> set ''-_.'')"

text \<open>A character of the first kind at both ends and characters of the second kind between them.\<close>

definition enclosed :: "(char \<Rightarrow> bool) \<Rightarrow> (char \<Rightarrow> bool) \<Rightarrow> string \<Rightarrow> bool" where
  "enclosed first ext s = (s \<noteq> [] \<and> first (hd s) \<and> first (last s) \<and> list_all ext s)"

definition qualifiedNameRegexp :: "string \<Rightarrow> bool" where
  "qualifiedNameRegexp s = enclosed qnameChar qnameExtChar s"

definition labelValueRegexp :: "string \<Rightarrow> bool" where
  "labelValueRegexp s = (s = [] \<or> qualifiedNameRegexp s)"

definition dns1123LabelRegexp :: "string \<Rightarrow> bool" where
  "dns1123LabelRegexp s =
     enclosed (\<lambda>c. isLower c \<or> is_digit c) (\<lambda>c. isLower c \<or> is_digit c \<or> c = CHR ''-'') s"

definition dns1123SubdomainRegexp :: "string \<Rightarrow> bool" where
  "dns1123SubdomainRegexp s = list_all dns1123LabelRegexp (Split (CHR ''.'') s)"

definition qualifiedNameFmt :: string where
  "qualifiedNameFmt = ''([A-Za-z0-9][-A-Za-z0-9_.]*)?[A-Za-z0-9]''"

definition qualifiedNameErrMsg :: string where
  "qualifiedNameErrMsg = ''must consist of alphanumeric characters, '' @ quoted ''-'' @ '', '' @ quoted ''_'' @ '' or '' @
     quoted ''.'' @ '', and must start and end with an alphanumeric character''"

definition dns1123LabelFmt :: string where
  "dns1123LabelFmt = ''[a-z0-9]([-a-z0-9]*[a-z0-9])?''"

definition IsDNS1123Subdomain :: "string \<Rightarrow> string list" where
  "IsDNS1123Subdomain v =
     (if 253 < length v then [MaxLenError 253] else []) @
     (if \<not> dns1123SubdomainRegexp v
      then [RegexError (''a DNS-1123 subdomain must consist of lower case alphanumeric characters, '' @ quoted ''-'' @
              '' or '' @ quoted ''.'' @ '', and must start and end with an alphanumeric character'')
              (dns1123LabelFmt @ ''('' @ [CHR 0x5C] @ ''.'' @ dns1123LabelFmt @ '')*'') [''example.com'']]
      else [])"

definition namePart :: "string \<Rightarrow> string list" where
  "namePart name =
     (if name = [] then [''name part must be non-empty'']
      else if 63 < length name then [''name part '' @ MaxLenError 63] else []) @
     (if \<not> qualifiedNameRegexp name
      then [''name part '' @ RegexError qualifiedNameErrMsg qualifiedNameFmt [''MyName'', ''my.name'', ''123-abc'']]
      else [])"

definition IsQualifiedName :: "string \<Rightarrow> string list" where
  "IsQualifiedName v =
     (case Split (CHR ''/'') v of
        [name] \<Rightarrow> namePart name
      | [prefix, name] \<Rightarrow>
          (if prefix = [] then [''prefix part must be non-empty'']
           else map (\<lambda>m. ''prefix part '' @ m) (IsDNS1123Subdomain prefix)) @ namePart name
      | _ \<Rightarrow>
          [''a qualified name '' @ RegexError qualifiedNameErrMsg qualifiedNameFmt [''MyName'', ''my.name'', ''123-abc''] @
           '' with an optional DNS subdomain prefix and '' @ quoted ''/'' @ '' (e.g. '' @ quoted ''example.com/MyName'' @ '')''])"

definition IsValidLabelValue :: "string \<Rightarrow> string list" where
  "IsValidLabelValue v =
     (if 63 < length v then [MaxLenError 63] else []) @
     (if \<not> labelValueRegexp v
      then [RegexError (''a valid label must be an empty string or consist of alphanumeric characters, '' @ quoted ''-'' @
              '', '' @ quoted ''_'' @ '' or '' @ quoted ''.'' @ '', and must start and end with an alphanumeric character'')
              (''('' @ qualifiedNameFmt @ '')?'') [''MyValue'', ''my_value'', ''12345'']]
      else [])"

definition validateLabelKey :: "string \<Rightarrow> go_error option" where
  "validateLabelKey k =
     (case IsQualifiedName k of [] \<Rightarrow> None
      | errs \<Rightarrow> Some (ErrNew (''invalid label key '' @ dquoted k @ '': '' @ Join errs ''; '')))"

definition validateLabelValue :: "string \<Rightarrow> go_error option" where
  "validateLabelValue v =
     (case IsValidLabelValue v of [] \<Rightarrow> None
      | errs \<Rightarrow> Some (ErrNew (''invalid label value: '' @ dquoted v @ '': '' @ Join errs ''; '')))"

section \<open>Requirements\<close>

datatype operator = OpIn | OpNotIn | OpEquals | OpDoubleEquals | OpNotEquals | OpExists | OpDoesNotExist

record requirement =
  RqKey :: string
  RqOperator :: operator
  StrValues :: "string list"

definition emptySetError :: go_error where
  "emptySetError = ErrNew (''for '' @ quoted ''in'' @ '', '' @ quoted ''notin'' @ '' operators, values set can'' @ [CHR 0x27] @ ''t be empty'')"

fun operatorArity :: "operator \<Rightarrow> string list \<Rightarrow> go_error option" where
  "operatorArity OpIn vals = (if vals = [] then Some emptySetError else None)"
| "operatorArity OpNotIn vals = (if vals = [] then Some emptySetError else None)"
| "operatorArity OpExists vals =
     (if vals \<noteq> [] then Some (ErrNew ''values set must be empty for exists and does not exist'') else None)"
| "operatorArity OpDoesNotExist vals =
     (if vals \<noteq> [] then Some (ErrNew ''values set must be empty for exists and does not exist'') else None)"
| "operatorArity _ vals =
     (if length vals \<noteq> 1 then Some (ErrNew ''exact-match compatibility requires one single value'') else None)"

definition NewRequirement :: "string \<Rightarrow> operator \<Rightarrow> string list \<Rightarrow> go_error + requirement" where
  "NewRequirement k op vals =
     (case validateLabelKey k of
        Some err \<Rightarrow> Inl err
      | None \<Rightarrow>
          (case operatorArity op vals of
             Some err \<Rightarrow> Inl err
           | None \<Rightarrow>
               (case List.map_filter validateLabelValue vals of
                  err # _ \<Rightarrow> Inl err
                | [] \<Rightarrow> Inr \<lparr>RqKey = k, RqOperator = op, StrValues = sort vals\<rparr>)))"

definition hasValue :: "requirement \<Rightarrow> string \<Rightarrow> bool" where
  "hasValue r v = (v \<in> set (StrValues r))"

definition requirementMatches :: "requirement \<Rightarrow> string gomap \<Rightarrow> bool" where
  "requirementMatches r ls =
     (case RqOperator r of
        OpExists \<Rightarrow> gm_get ls (RqKey r) \<noteq> None
      | OpDoesNotExist \<Rightarrow> gm_get ls (RqKey r) = None
      | OpNotIn \<Rightarrow> (case gm_get ls (RqKey r) of None \<Rightarrow> True | Some v \<Rightarrow> \<not> hasValue r v)
      | OpNotEquals \<Rightarrow> (case gm_get ls (RqKey r) of None \<Rightarrow> True | Some v \<Rightarrow> \<not> hasValue r v)
      | _ \<Rightarrow> (case gm_get ls (RqKey r) of None \<Rightarrow> False | Some v \<Rightarrow> hasValue r v))"

definition requirementString :: "requirement \<Rightarrow> string" where
  "requirementString r =
     (case RqOperator r of
        OpExists \<Rightarrow> RqKey r
      | OpDoesNotExist \<Rightarrow> ''!'' @ RqKey r
      | OpEquals \<Rightarrow> RqKey r @ ''='' @ Join (StrValues r) '',''
      | OpDoubleEquals \<Rightarrow> RqKey r @ ''=='' @ Join (StrValues r) '',''
      | OpNotEquals \<Rightarrow> RqKey r @ ''!='' @ Join (StrValues r) '',''
      | OpIn \<Rightarrow> RqKey r @ '' in ('' @ Join (StrValues r) '','' @ '')''
      | OpNotIn \<Rightarrow> RqKey r @ '' notin ('' @ Join (StrValues r) '','' @ '')'')"

section \<open>Selectors\<close>

datatype selector = Nothing | Requirements "requirement list"

fun selectorAdd :: "requirement \<Rightarrow> selector \<Rightarrow> selector" where
  "selectorAdd r Nothing = Nothing"
| "selectorAdd r (Requirements rs) = Requirements (sort_key RqKey (rs @ [r]))"

fun selectorMatches :: "selector \<Rightarrow> string gomap \<Rightarrow> bool" where
  "selectorMatches Nothing ls = False"
| "selectorMatches (Requirements rs) ls = list_all (\<lambda>r. requirementMatches r ls) rs"

fun selectorString :: "selector \<Rightarrow> string" where
  "selectorString Nothing = []"
| "selectorString (Requirements rs) = Join (map requirementString rs) '',''"

text \<open>The entries of a map in the order in which they are visited.\<close>

definition range_entries :: "string list \<Rightarrow> (string \<times> 'v) list \<Rightarrow> (string \<times> 'v) list" where
  "range_entries order m = List.map_filter (\<lambda>k. map_option (Pair k) (map_of m k)) (range_keys order (map fst m))"

fun setRequirements :: "(string \<times> string) list \<Rightarrow> requirement list option" where
  "setRequirements [] = Some []"
| "setRequirements ((label, val) # rest) =
     (case NewRequirement label OpEquals [val] of
        Inr r \<Rightarrow> map_option ((#) r) (setRequirements rest)
      | Inl _ \<Rightarrow> None)"

definition SelectorFromSet :: "string list \<Rightarrow> (string \<times> string) list \<Rightarrow> selector" where
  "SelectorFromSet order ls =
     (if ls = [] then Requirements []
      else case setRequirements (range_entries order ls) of
        None \<Rightarrow> Requirements []
      | Some rs \<Rightarrow> Requirements (sort_key RqKey rs))"

record lsrequirement =
  LsKey :: string
  LsOperator :: string
  LsValues :: "string list"

record labelselector =
  MatchLabels :: "(string \<times> string) list"
  MatchExpressions :: "lsrequirement list"

fun addLabels :: "(string \<times> string) list \<Rightarrow> selector \<Rightarrow> go_error + selector" where
  "addLabels [] sel = Inr sel"
| "addLabels ((k, v) # rest) sel =
     (case NewRequirement k OpEquals [v] of
        Inl err \<Rightarrow> Inl err
      | Inr r \<Rightarrow> addLabels rest (selectorAdd r sel))"

definition selectionOperator :: "string \<Rightarrow> operator option" where
  "selectionOperator op =
     (if op = ''In'' then Some OpIn else if op = ''NotIn'' then Some OpNotIn
      else if op = ''Exists'' then Some OpExists else if op = ''DoesNotExist'' then Some OpDoesNotExist else None)"

fun addExpressions :: "lsrequirement list \<Rightarrow> selector \<Rightarrow> go_error + selector" where
  "addExpressions [] sel = Inr sel"
| "addExpressions (expr # rest) sel =
     (case selectionOperator (LsOperator expr) of
        None \<Rightarrow> Inl (ErrNew (dquoted (LsOperator expr) @ '' is not a valid pod selector operator''))
      | Some op \<Rightarrow>
          (case NewRequirement (LsKey expr) op (LsValues expr) of
             Inl err \<Rightarrow> Inl err
           | Inr r \<Rightarrow> addExpressions rest (selectorAdd r sel)))"

definition LabelSelectorAsSelector :: "string list \<Rightarrow> labelselector option \<Rightarrow> go_error + selector" where
  "LabelSelectorAsSelector order ps =
     (case ps of
        None \<Rightarrow> Inr Nothing
      | Some ps \<Rightarrow>
          if MatchLabels ps = [] \<and> MatchExpressions ps = [] then Inr (Requirements [])
          else case addLabels (range_entries order (MatchLabels ps)) (Requirements []) of
            Inl err \<Rightarrow> Inl err
          | Inr sel \<Rightarrow> addExpressions (MatchExpressions ps) sel)"

section \<open>Listing a cache\<close>

text \<open>
  The listing functions take the metadata of an object, and what \<^verbatim>\<open>List\<close> and \<^verbatim>\<open>Index\<close> of the indexer
  return; they give the objects that are passed to the append function.
\<close>

definition ListAll :: "('a \<Rightarrow> objmeta) \<Rightarrow> 'a list \<Rightarrow> selector \<Rightarrow> 'a list" where
  "ListAll metaOf items sel = filter (\<lambda>m. selectorMatches sel (Labels (metaOf m))) items"

definition ListAllByNamespace :: "('a \<Rightarrow> objmeta) \<Rightarrow> 'a list \<Rightarrow> go_error + 'a list \<Rightarrow> string \<Rightarrow> selector \<Rightarrow> 'a list" where
  "ListAllByNamespace metaOf items index ns sel =
     (if ns = [] then filter (\<lambda>m. selectorMatches sel (Labels (metaOf m))) items
      else case index of
        Inl _ \<Rightarrow> filter (\<lambda>m. ObjNamespace (metaOf m) = ns \<and> selectorMatches sel (Labels (metaOf m))) items
      | Inr found \<Rightarrow> filter (\<lambda>m. selectorMatches sel (Labels (metaOf m))) found)"

section \<open>What a selector means\<close>

definition validLabel :: "string \<times> string \<Rightarrow> bool" where
  "validLabel kv = (IsQualifiedName (fst kv) = [] \<and> IsValidLabelValue (snd kv) = [])"

lemma validate_None [simp]:
  "validateLabelKey k = None \<longleftrightarrow> IsQualifiedName k = []" "validateLabelValue v = None \<longleftrightarrow> IsValidLabelValue v = []"
  by (simp_all add: validateLabelKey_def validateLabelValue_def split: list.splits)

lemma map_filter_Nil: "List.map_filter f xs = [] \<longleftrightarrow> (\<forall>x \<in> set xs. f x = None)"
  by (induction xs) (auto simp: List.map_filter_simps split: option.splits)

text \<open>A requirement is made exactly of a valid key and as many valid values as the operator takes.\<close>

definition validRequirement :: "string \<Rightarrow> operator \<Rightarrow> string list \<Rightarrow> bool" where
  "validRequirement k op vals =
     (IsQualifiedName k = [] \<and> operatorArity op vals = None \<and> list_all (\<lambda>v. IsValidLabelValue v = []) vals)"

lemma NewRequirement_cases:
  "if validRequirement k op vals then NewRequirement k op vals = Inr \<lparr>RqKey = k, RqOperator = op, StrValues = sort vals\<rparr>
   else \<exists>err. NewRequirement k op vals = Inl err"
  using validate_None(1) [of k] map_filter_Nil [of validateLabelValue vals]
  by (cases "validateLabelKey k"; cases "operatorArity op vals"; cases "List.map_filter validateLabelValue vals")
    (auto simp: NewRequirement_def validRequirement_def list_all_iff simp del: validate_None(1))

lemma validRequirement_label: "validRequirement k OpEquals [v] = validLabel (k, v)"
  by (simp add: validRequirement_def validLabel_def)

lemma requirementMatches_equals:
  "requirementMatches \<lparr>RqKey = k, RqOperator = OpEquals, StrValues = [v]\<rparr> ls \<longleftrightarrow> gm_get ls k = Some v"
  by (auto simp: requirementMatches_def hasValue_def split: option.splits)

lemma selectorMatches_add: "selectorMatches (selectorAdd r sel) ls \<longleftrightarrow> requirementMatches r ls \<and> selectorMatches sel ls"
  by (cases sel) (auto simp: list_all_iff)

lemma range_entries_props:
  assumes "distinct (map fst m)"
  shows "set (range_entries order m) = set m" "distinct (map fst (range_entries order m))"
    "range_entries order m = [] \<longleftrightarrow> m = []"
proof -
  let ?ks = "range_keys order (map fst m)"
  have "map fst (range_entries order m) = ?ks"
  proof -
    have "map fst (List.map_filter (\<lambda>k. map_option (Pair k) (map_of m k)) ks) = ks" if "set ks \<subseteq> set (map fst m)" for ks
      using that by (induction ks) (auto simp: List.map_filter_simps map_of_eq_None_iff image_iff split: option.splits)
    then show ?thesis by (simp add: range_entries_def)
  qed
  then show "distinct (map fst (range_entries order m))" "range_entries order m = [] \<longleftrightarrow> m = []"
    using assms by (simp, metis map_is_Nil_conv set_empty set_range_keys)
  have mem: "(k, v) \<in> set (List.map_filter (\<lambda>k. map_option (Pair k) (map_of m k)) ks) \<longleftrightarrow> k \<in> set ks \<and> map_of m k = Some v"
    for k v ks by (induction ks) (auto simp: List.map_filter_simps split: option.splits)
  show "set (range_entries order m) = set m"
    unfolding range_entries_def set_eq_iff split_paired_All mem set_range_keys
    using map_of_eq_Some_iff [OF assms] by force
qed

lemma sort_key_map: "sort_key f (map g xs) = map g (sort_key (\<lambda>x. f (g x)) xs)"
proof (induction xs)
  case (Cons x xs)
  have "insort_key f (g x) (map g ys) = map g (insort_key (\<lambda>x. f (g x)) x ys)" for ys by (induction ys) auto
  with Cons show ?case by simp
qed simp

lemma setRequirements_eq:
  "setRequirements ls =
     (if list_all validLabel ls then Some (map (\<lambda>(k, v). \<lparr>RqKey = k, RqOperator = OpEquals, StrValues = [v]\<rparr>) ls) else None)"
proof (induction ls)
  case (Cons kv ls)
  obtain k v where "kv = (k, v)" by (cases kv)
  with Cons NewRequirement_cases [of k OpEquals "[v]"] show ?case
    by (auto simp: validRequirement_label split: if_splits)
qed simp

text \<open>
  A map of valid labels selects the objects that carry them all; one that is not valid selects every object,
  in whatever order the map is visited.
\<close>

lemma SelectorFromSet_order:
  assumes "distinct (map fst ls)"
  shows "SelectorFromSet order ls =
    (if list_all validLabel ls
     then Requirements (map (\<lambda>(k, v). \<lparr>RqKey = k, RqOperator = OpEquals, StrValues = [v]\<rparr>) (sort_key fst ls))
     else Requirements [])"
proof -
  note props = range_entries_props [OF assms, of order]
  have all: "list_all validLabel (range_entries order ls) = list_all validLabel ls" by (simp add: list_all_iff props(1))
  have "sort_key fst (range_entries order ls) = sort_key fst ls"
    by (rule map_sorted_distinct_set_unique [where f = fst])
      (use assms props in \<open>auto simp: inj_on_def distinct_map\<close>)
  then show ?thesis
    by (auto simp: SelectorFromSet_def setRequirements_eq all sort_key_map split_beta)
qed

lemma SelectorFromSet_matches:
  assumes "distinct (map fst ls)" and "list_all validLabel ls"
  shows "selectorMatches (SelectorFromSet order ls) obj \<longleftrightarrow> (\<forall>(k, v) \<in> set ls. gm_get obj k = Some v)"
  using assms by (auto simp: SelectorFromSet_order list_all_iff requirementMatches_equals split_beta)

lemma SelectorFromSet_invalid:
  assumes "distinct (map fst ls)" and "\<not> list_all validLabel ls"
  shows "SelectorFromSet order ls = Requirements []" "selectorMatches (SelectorFromSet order ls) obj"
    "selectorString (SelectorFromSet order ls) = []"
  using assms by (simp_all add: SelectorFromSet_order)

section \<open>The selectors of the API\<close>

text \<open>The documented meaning of a selector of the API, and when it can be converted.\<close>

definition expressionHolds :: "lsrequirement \<Rightarrow> string gomap \<Rightarrow> bool" where
  "expressionHolds e ls =
     (let v = gm_get ls (LsKey e) in
      if LsOperator e = ''In'' then (case v of None \<Rightarrow> False | Some x \<Rightarrow> x \<in> set (LsValues e))
      else if LsOperator e = ''NotIn'' then (case v of None \<Rightarrow> True | Some x \<Rightarrow> x \<notin> set (LsValues e))
      else if LsOperator e = ''Exists'' then v \<noteq> None else v = None)"

definition selects_by :: "labelselector \<Rightarrow> string gomap \<Rightarrow> bool" where
  "selects_by ps ls = (list_all (\<lambda>(k, v). gm_get ls k = Some v) (MatchLabels ps) \<and>
     list_all (\<lambda>e. expressionHolds e ls) (MatchExpressions ps))"

definition validExpression :: "lsrequirement \<Rightarrow> bool" where
  "validExpression e =
     (case selectionOperator (LsOperator e) of None \<Rightarrow> False | Some op \<Rightarrow> validRequirement (LsKey e) op (LsValues e))"

definition convertible :: "labelselector \<Rightarrow> bool" where
  "convertible ps = (list_all validLabel (MatchLabels ps) \<and> list_all validExpression (MatchExpressions ps))"

lemma addLabels_cases:
  "if list_all validLabel kvs
   then \<exists>sel'. addLabels kvs sel = Inr sel' \<and>
     (\<forall>ls. selectorMatches sel' ls \<longleftrightarrow> selectorMatches sel ls \<and> list_all (\<lambda>(k, v). gm_get ls k = Some v) kvs)
   else \<exists>err. addLabels kvs sel = Inl err"
proof (induction kvs arbitrary: sel)
  case (Cons kv kvs)
  obtain k v where kv: "kv = (k, v)" by (cases kv)
  show ?case
  proof (cases "validLabel (k, v)")
    case True
    then have "NewRequirement k OpEquals [v] = Inr \<lparr>RqKey = k, RqOperator = OpEquals, StrValues = [v]\<rparr>"
      using NewRequirement_cases [of k OpEquals "[v]"] by (simp add: validRequirement_label)
    with True Cons.IH [of "selectorAdd \<lparr>RqKey = k, RqOperator = OpEquals, StrValues = [v]\<rparr> sel"] show ?thesis
      by (auto simp: kv selectorMatches_add requirementMatches_equals split: if_splits)
  next
    case False
    then show ?thesis using NewRequirement_cases [of k OpEquals "[v]"] by (auto simp: kv validRequirement_label)
  qed
qed simp

lemma expression_matches:
  assumes "selectionOperator (LsOperator e) = Some op"
  shows "requirementMatches \<lparr>RqKey = LsKey e, RqOperator = op, StrValues = sort (LsValues e)\<rparr> ls \<longleftrightarrow> expressionHolds e ls"
  using assms by (auto simp: selectionOperator_def requirementMatches_def hasValue_def expressionHolds_def Let_def
      split: option.splits if_splits)

lemma addExpressions_cases:
  "if list_all validExpression es
   then \<exists>sel'. addExpressions es sel = Inr sel' \<and>
     (\<forall>ls. selectorMatches sel' ls \<longleftrightarrow> selectorMatches sel ls \<and> list_all (\<lambda>e. expressionHolds e ls) es)
   else \<exists>err. addExpressions es sel = Inl err"
proof (induction es arbitrary: sel)
  case (Cons e es)
  show ?case
  proof (cases "selectionOperator (LsOperator e)")
    case (Some op)
    let ?r = "\<lparr>RqKey = LsKey e, RqOperator = op, StrValues = sort (LsValues e)\<rparr>"
    from NewRequirement_cases [of "LsKey e" op "LsValues e"] Some Cons.IH [of "selectorAdd ?r sel"] show ?thesis
      by (cases "validRequirement (LsKey e) op (LsValues e)")
        (auto simp: validExpression_def selectorMatches_add expression_matches [OF Some])
  qed (simp add: validExpression_def)
qed simp

lemma LabelSelectorAsSelector_spec:
  assumes "distinct (map fst (MatchLabels ps))"
  shows "if convertible ps
    then \<exists>sel. LabelSelectorAsSelector order (Some ps) = Inr sel \<and> (\<forall>ls. selectorMatches sel ls \<longleftrightarrow> selects_by ps ls)
    else \<exists>err. LabelSelectorAsSelector order (Some ps) = Inl err"
proof (cases "MatchLabels ps = [] \<and> MatchExpressions ps = []")
  case True
  then show ?thesis by (auto simp: convertible_def LabelSelectorAsSelector_def selects_by_def)
next
  case False
  let ?kvs = "range_entries order (MatchLabels ps)"
  have same: "list_all P ?kvs = list_all P (MatchLabels ps)" for P
    by (simp add: list_all_iff range_entries_props(1) [OF assms])
  from addLabels_cases [of ?kvs "Requirements []"] show ?thesis
  proof (cases "list_all validLabel (MatchLabels ps)")
    case True
    then obtain sel where "addLabels ?kvs (Requirements []) = Inr sel"
      and "\<And>ls. selectorMatches sel ls \<longleftrightarrow> list_all (\<lambda>(k, v). gm_get ls k = Some v) (MatchLabels ps)"
      using addLabels_cases [of ?kvs "Requirements []"] by (auto simp: same)
    with True False addExpressions_cases [of "MatchExpressions ps" sel] show ?thesis
      by (auto simp: convertible_def LabelSelectorAsSelector_def selects_by_def split: if_splits)
  qed (use False in \<open>auto simp: same convertible_def LabelSelectorAsSelector_def\<close>)
qed

end
