(* ===== verification/ApiSpec.thy ===== *)
theory ApiSpec
  imports ApiStatus Selectors
begin

text \<open>
  pkg/apis/clusterlabs/v1alpha1/cluster.go, cluster_tls.go and the names of register.go: the custom
  resource, its specification with the defaults applied to it, and the validation of what a user
  submits. \<open>Validate\<close> ranges over the label map, so it takes the order of that iteration; a nil
  dereference in the TLS check is a \<open>Panic\<close>.
\<close>

section \<open>Names\<close>

definition ReplicatedStatefulSetResourceKind :: string where
  "ReplicatedStatefulSetResourceKind = ''ReplicatedStatefulSet''"
definition ReplicatedStatefulSetResourcePlural :: string where
  "ReplicatedStatefulSetResourcePlural = ''replicatedstatefulsets''"
definition ReplicatedStatefulSetResourceShort :: string where
  "ReplicatedStatefulSetResourceShort = ''rss''"
definition groupName :: string where "groupName = ''clusterlabs.org''"
definition groupVersion :: string where "groupVersion = ''v1alpha1''"
definition SchemeGroupVersion :: string where "SchemeGroupVersion = groupName @ ''/'' @ groupVersion"
definition ReplicatedStatefulSetCRDName :: string where
  "ReplicatedStatefulSetCRDName = ReplicatedStatefulSetResourcePlural @ ''.'' @ groupName"

definition StatusCommandKey :: string where "StatusCommandKey = ''status''"
definition SequenceCommandKey :: string where "SequenceCommandKey = ''sequence''"
definition StopCommandKey :: string where "StopCommandKey = ''stop''"
definition SeedCommandKey :: string where "SeedCommandKey = ''seed''"
definition PrimaryCommandKey :: string where "PrimaryCommandKey = ''primary''"
definition SecondaryCommandKey :: string where "SecondaryCommandKey = ''secondary''"

lemmas command_key_defs = StatusCommandKey_def SequenceCommandKey_def StopCommandKey_def
  SeedCommandKey_def PrimaryCommandKey_def SecondaryCommandKey_def

definition minClusterSize :: int32 where "minClusterSize = 3"

section \<open>TLS\<close>

record membersecret =
  PeerSecret :: string
  ServerSecret :: string

record statictls =
  Member :: "membersecret option"
  OperatorSecret :: string

record tlspolicy =
  Static :: "statictls option"

definition TLSValidate :: "tlspolicy \<Rightarrow> go_error option go" where
  "TLSValidate tp =
     (case Static tp of
        None \<Rightarrow> Ret None
      | Some st \<Rightarrow>
          if OperatorSecret st \<noteq> [] then
            (case Member st of
               None \<Rightarrow> Panic ''invalid memory address or nil pointer dereference''
             | Some mem \<Rightarrow>
                 if ServerSecret mem = []
                 then Ret (Some (ErrNew ''operator secret set but member serverSecret not set''))
                 else Ret None)
          else
            (case Member st of
               Some mem \<Rightarrow>
                 if ServerSecret mem \<noteq> []
                 then Ret (Some (ErrNew ''member serverSecret set but operator secret not set''))
                 else Ret None
             | None \<Rightarrow> Ret None))"

definition IsSecureClient :: "tlspolicy option \<Rightarrow> bool" where
  "IsSecureClient tp =
     (case tp of None \<Rightarrow> False
      | Some t \<Rightarrow> (case Static t of None \<Rightarrow> False | Some st \<Rightarrow> OperatorSecret st \<noteq> []))"

definition IsSecurePeer :: "tlspolicy option \<Rightarrow> bool" where
  "IsSecurePeer tp =
     (case tp of None \<Rightarrow> False
      | Some t \<Rightarrow>
          (case Static t of None \<Rightarrow> False
           | Some st \<Rightarrow> (case Member st of None \<Rightarrow> False | Some mem \<Rightarrow> PeerSecret mem \<noteq> [])))"

section \<open>The custom resource\<close>

record replicationcommand =
  Timeout :: "string option"
  Command :: "string list"

definition zero_command :: replicationcommand where
  "zero_command = \<lparr>Timeout = None, Command = []\<rparr>"

record podpolicy =
  PolicyNodeSelector :: "string gomap"
  AntiAffinity :: bool
  AutomountServiceAccountToken :: "bool option"
  Containers :: "container list"
  Volumes :: "volume list"
  VolumeClaimTemplates :: "string list"
  Commands :: "replicationcommand gomap"
  SecurityContext :: "string option"

record clusterspec =
  Replicas :: "int32 option"
  Primaries :: "int32 option"
  ReconcileInterval :: "string option"
  ImagePullSecrets :: "string list"
  Paused :: bool
  ChaosLevel :: "int option"
  Pod :: podpolicy
  ServicePorts :: "serviceport slice"
  TLS :: "tlspolicy option"
  RuleSelector :: "labelselector option"
  ResourceRequests :: "string gomap"
  ResourceLimits :: "string gomap"
  NodeSelector :: "string gomap"
  ServiceAccountName :: string
  Secrets :: "string list"
  Affinity :: "affinity option"
  Tolerations :: "string list"

record rss =
  RssMeta :: objmeta
  Spec :: clusterspec
  Status :: clusterstatus

definition zero_podpolicy :: podpolicy where
  "zero_podpolicy = \<lparr>PolicyNodeSelector = None, AntiAffinity = False, AutomountServiceAccountToken = None,
     Containers = [], Volumes = [], VolumeClaimTemplates = [], Commands = None, SecurityContext = None\<rparr>"

definition zero_spec :: clusterspec where
  "zero_spec = \<lparr>Replicas = None, Primaries = None, ReconcileInterval = None, ImagePullSecrets = [],
     Paused = False, ChaosLevel = None, Pod = zero_podpolicy, ServicePorts = None, TLS = None,
     RuleSelector = None, ResourceRequests = None, ResourceLimits = None, NodeSelector = None,
     ServiceAccountName = [], Secrets = [], Affinity = None, Tolerations = []\<rparr>"

definition zero_rss :: rss where
  "zero_rss = \<lparr>RssMeta = zero_meta, Spec = zero_spec, Status = zero_status\<rparr>"

abbreviation RssName :: "rss \<Rightarrow> string" where "RssName r \<equiv> ObjName (RssMeta r)"
abbreviation RssNamespace :: "rss \<Rightarrow> string" where "RssNamespace r \<equiv> ObjNamespace (RssMeta r)"
abbreviation RssLabels :: "rss \<Rightarrow> string gomap" where "RssLabels r \<equiv> Labels (RssMeta r)"

definition AsOwner :: "rss \<Rightarrow> ownerref" where
  "AsOwner r = \<lparr>OwnerAPIVersion = SchemeGroupVersion, OwnerKind = ReplicatedStatefulSetResourceKind,
     OwnerName = RssName r, OwnerUID = UID (RssMeta r), OwnerController = Some True\<rparr>"

definition ServiceName :: "rss \<Rightarrow> string" where
  "ServiceName r = RssName r @ ''-svc''"

section \<open>Validation\<close>

text \<open>The loop over the required command keys, then the one over the labels, then the containers.\<close>

fun missingCommand :: "replicationcommand gomap \<Rightarrow> string list \<Rightarrow> go_error option" where
  "missingCommand cmds [] = None"
| "missingCommand cmds (key # keys) =
     (if gm_get cmds key = None
      then Some (ErrNew (''Validate: no '' @ key @ '' command specified''))
      else missingCommand cmds keys)"

fun reservedLabel :: "string gomap \<Rightarrow> string list \<Rightarrow> go_error option" where
  "reservedLabel ls [] = None"
| "reservedLabel ls (k # ks) =
     (let v = (case gm_get ls k of None \<Rightarrow> [] | Some v \<Rightarrow> v)
      in if k = ''app''
         then Some (ErrNew (''Validate: definition contains reserved label: '' @ k @ ''='' @ v))
         else if HasPrefix k ''rss''
         then Some (ErrNew (''Validate: definition contains reserved value: '' @ k @ ''='' @ v))
         else reservedLabel ls ks)"

fun missingImage :: "container list \<Rightarrow> nat \<Rightarrow> go_error option" where
  "missingImage [] n = None"
| "missingImage (c # cs) n =
     (if Image c = []
      then Some (ErrNew (''Validate: No image configured for container['' @ show_nat n @ '']: '' @ ContainerName c))
      else missingImage cs (Suc n))"

definition requiredCommands :: "string list" where
  "requiredCommands = [SequenceCommandKey, StatusCommandKey, StopCommandKey, PrimaryCommandKey]"

definition ValidateSpec :: "string list \<Rightarrow> rss \<Rightarrow> go_error option" where
  "ValidateSpec order r =
     (if Commands (Pod (Spec r)) = None then Some (ErrNew ''Validate: no cluster commands specified'')
      else case missingCommand (Commands (Pod (Spec r))) requiredCommands of
        Some e \<Rightarrow> Some e
      | None \<Rightarrow>
          (case reservedLabel (RssLabels r) (range_keys order (map fst (gm_list (RssLabels r)))) of
             Some e \<Rightarrow> Some e
           | None \<Rightarrow>
               if length (Containers (Pod (Spec r))) < 1
               then Some (ErrNew (''Validate: No containers configured for: '' @ RssName r))
               else missingImage (Containers (Pod (Spec r))) 0))"

definition Validate :: "string list \<Rightarrow> rss \<Rightarrow> go_error option go" where
  "Validate order r =
     (case TLS (Spec r) of
        None \<Rightarrow> Ret (ValidateSpec order r)
      | Some tls \<Rightarrow>
          go_bind (TLSValidate tls)
            (\<lambda>e. case e of Some err \<Rightarrow> Ret (Some err) | None \<Rightarrow> Ret (ValidateSpec order r)))"

section \<open>Defaults\<close>

definition GetServicePorts :: "clusterspec \<Rightarrow> serviceport list" where
  "GetServicePorts c =
     (case ServicePorts c of
        Some ps \<Rightarrow> ps
      | None \<Rightarrow> [\<lparr>PortName = ''dummy'', Port = 12345, TargetPort = StrVal ''dummy''\<rparr>])"

definition GetNumReplicas :: "clusterspec \<Rightarrow> int32" where
  "GetNumReplicas c =
     (case Replicas c of
        None \<Rightarrow> minClusterSize
      | Some n \<Rightarrow>
          if n < 0 then 0
          else if n > 0 \<and> n < minClusterSize then minClusterSize
          else n)"

definition GetNumPrimaries :: "clusterspec \<Rightarrow> int32" where
  "GetNumPrimaries c =
     (let replicas = GetNumReplicas c
      in case Primaries c of
           None \<Rightarrow> replicas
         | Some n \<Rightarrow>
             if n < 0 then 1
             else if n > replicas then replicas
             else n)"

definition ResourceMemory :: string where "ResourceMemory = ''memory''"

definition Cleanup :: "clusterspec \<Rightarrow> clusterspec" where
  "Cleanup c =
     (let reqs = (case ResourceRequests c of None \<Rightarrow> [] | Some kvs \<Rightarrow> kvs)
      in c\<lparr>ResourceRequests :=
             Some (if map_of reqs ResourceMemory = None then AList.update ResourceMemory ''2M'' reqs else reqs)\<rparr>)"

section \<open>Lemmas\<close>

lemma GetNumReplicas_cases: "GetNumReplicas c = 0 \<or> 3 \<le> GetNumReplicas c"
  by (auto simp: GetNumReplicas_def minClusterSize_def split: option.splits)

lemma missingCommand_None: "missingCommand cmds ks = None \<longleftrightarrow> (\<forall>k \<in> set ks. gm_get cmds k \<noteq> None)"
  by (induction ks) auto

lemma reservedLabel_None:
  "reservedLabel ls ks = None \<longleftrightarrow> (\<forall>k \<in> set ks. k \<noteq> ''app'' \<and> \<not> HasPrefix k ''rss'')"
  by (induction ks) (auto simp: Let_def)

lemma missingImage_None: "missingImage cs n = None \<longleftrightarrow> (\<forall>c \<in> set cs. Image c \<noteq> [])"
  by (induction cs arbitrary: n) auto

text \<open>When a specification passes validation, whatever the order of the label iteration.\<close>

definition spec_valid :: "rss \<Rightarrow> bool" where
  "spec_valid r \<longleftrightarrow>
     (\<forall>k \<in> set requiredCommands. gm_get (Commands (Pod (Spec r))) k \<noteq> None) \<and>
     (\<forall>k. gm_get (RssLabels r) k \<noteq> None \<longrightarrow> k \<noteq> ''app'' \<and> \<not> HasPrefix k ''rss'') \<and>
     Containers (Pod (Spec r)) \<noteq> [] \<and> (\<forall>c \<in> set (Containers (Pod (Spec r))). Image c \<noteq> [])"

lemma gm_keys: "set (map fst (gm_list m)) = {k. gm_get m k \<noteq> None}"
  by (auto simp: gm_get_list map_of_eq_None_iff image_iff)

lemma ValidateSpec_None: "ValidateSpec order r = None \<longleftrightarrow> spec_valid r"
proof -
  have "Commands (Pod (Spec r)) = None \<Longrightarrow> \<not> spec_valid r"
    by (auto simp: spec_valid_def requiredCommands_def)
  moreover have "missingCommand (Commands (Pod (Spec r))) requiredCommands = None \<longleftrightarrow>
      (\<forall>k \<in> set requiredCommands. gm_get (Commands (Pod (Spec r))) k \<noteq> None)"
    by (rule missingCommand_None)
  moreover have "reservedLabel (RssLabels r) (range_keys order (map fst (gm_list (RssLabels r)))) = None \<longleftrightarrow>
      (\<forall>k. gm_get (RssLabels r) k \<noteq> None \<longrightarrow> k \<noteq> ''app'' \<and> \<not> HasPrefix k ''rss'')"
    unfolding reservedLabel_None set_range_keys gm_keys by blast
  ultimately show ?thesis
    unfolding ValidateSpec_def
    by (auto simp: spec_valid_def missingImage_None less_Suc_eq_0_disj split: option.splits)
qed

text \<open>Well-formed TLS settings: both secrets or neither; a missing member section only without the operator secret.\<close>

definition tls_valid :: "tlspolicy option \<Rightarrow> bool" where
  "tls_valid t =
     (case t of None \<Rightarrow> True
      | Some tp \<Rightarrow>
          (case Static tp of None \<Rightarrow> True
           | Some st \<Rightarrow> (OperatorSecret st \<noteq> []) = (\<exists>mem. Member st = Some mem \<and> ServerSecret mem \<noteq> [])))"

definition tls_panics :: "tlspolicy option \<Rightarrow> bool" where
  "tls_panics t = (\<exists>tp st. t = Some tp \<and> Static tp = Some st \<and> OperatorSecret st \<noteq> [] \<and> Member st = None)"

lemma TLSValidate_cases:
  "TLS (Spec r) = Some tp \<Longrightarrow>
   (if tls_panics (TLS (Spec r)) then TLSValidate tp = Panic ''invalid memory address or nil pointer dereference''
    else \<exists>e. TLSValidate tp = Ret e \<and> (e = None \<longleftrightarrow> tls_valid (TLS (Spec r))))"
  by (auto simp: TLSValidate_def tls_panics_def tls_valid_def split: option.splits)

lemma Validate_accepts:
  "Validate order r = Ret None \<longleftrightarrow> \<not> tls_panics (TLS (Spec r)) \<and> tls_valid (TLS (Spec r)) \<and> spec_valid r"
proof (cases "TLS (Spec r)")
  case None
  then show ?thesis by (simp add: Validate_def ValidateSpec_None tls_panics_def tls_valid_def)
next
  case (Some tp)
  from TLSValidate_cases [OF this] show ?thesis
    by (auto simp: Validate_def Some ValidateSpec_None split: if_splits option.splits)
qed

lemma Validate_panics:
  "(\<exists>msg. Validate order r = Panic msg) \<longleftrightarrow> tls_panics (TLS (Spec r))"
proof (cases "TLS (Spec r)")
  case None
  then show ?thesis by (simp add: Validate_def tls_panics_def)
next
  case (Some tp)
  from TLSValidate_cases [OF this] show ?thesis
    by (auto simp: Validate_def Some split: if_splits option.splits)
qed

section \<open>Properties\<close>

text \<open>
  C5. A specification is accepted exactly when its TLS secrets are consistent, the four required
  commands are there, no label uses a reserved name, and there is at least one container and every
  container names an image; the order in which the labels are visited does not matter. Validation
  crashes instead of reporting an error exactly when an operator secret is set and the member section
  of the TLS policy is missing, and it always returns otherwise.
\<close>

theorem Validate_outcome:
  "(Validate order r = Ret None \<longleftrightarrow> \<not> tls_panics (TLS (Spec r)) \<and> tls_valid (TLS (Spec r)) \<and> spec_valid r) \<and>
   ((\<exists>msg. Validate order r = Panic msg) \<longleftrightarrow> tls_panics (TLS (Spec r))) \<and> Validate order r \<noteq> Stuck"
  using Validate_accepts Validate_panics
  by (auto simp: Validate_def TLSValidate_def split: option.splits)

text \<open>
  C6. The sizes the operator works with: the number of replicas is 0 or at least 3, and the number of
  primaries is between 0 and the number of replicas, except that a negative setting gives one
  primary even for a stopped cluster.
\<close>

theorem cluster_size_bounds:
  "(GetNumReplicas c = 0 \<or> minClusterSize \<le> GetNumReplicas c) \<and> 0 \<le> GetNumPrimaries c \<and>
   (GetNumPrimaries c \<le> GetNumReplicas c \<longleftrightarrow> \<not> (GetNumReplicas c = 0 \<and> (\<exists>n. Primaries c = Some n \<and> n < 0)))"
  using GetNumReplicas_cases [of c]
  by (auto simp: GetNumPrimaries_def Let_def minClusterSize_def split: option.splits)

end
