(* ===== verification/Members.thy ===== *)
theory Members
  imports GoStrings
begin

text \<open>
  pkg/util/member.go: the in-memory record of one pod of the replicated application and the set of
  all of them. A \<^verbatim>\<open>MemberSet\<close> is a Go map from names to \<^verbatim>\<open>*Member\<close>; here it is an
  association list with distinct keys, and a pointer into the set is its key. Dereferencing a
  missing key is the nil-pointer panic of the Go code (\<open>ms_modify\<close>).

  The lemmas at the end give \<open>Reconcile\<close> its meaning key by key (\<open>reconcile_entry\<close>), the counters
  their values as cardinalities, and the member-name functions their round trips.
\<close>

section \<open>Members\<close>

record member =
  MemberName :: string
  MemberNamespace :: string
  SEQ :: uint64
  Failures :: uint64
  Online :: bool
  AppPrimary :: bool
  AppRunning :: bool
  AppFailed :: bool
  SecurePeer :: bool
  SecureClient :: bool

text \<open>Go's zero value \<^verbatim>\<open>Member{}\<close>.\<close>

definition zero_member :: member where
  "zero_member = \<lparr>MemberName = [], MemberNamespace = [], SEQ = 0, Failures = 0, Online = False,
     AppPrimary = False, AppRunning = False, AppFailed = False, SecurePeer = False,
     SecureClient = False\<rparr>"

definition clusterNameFromMemberName :: "string \<Rightarrow> string go" where
  "clusterNameFromMemberName mn =
     (case split_last CHR ''-'' mn of
        None \<Rightarrow> Panic (''unexpected member name: '' @ mn)
      | Some (before, rest) \<Rightarrow> Ret before)"

definition Addr :: "member \<Rightarrow> string go" where
  "Addr m = go_bind (clusterNameFromMemberName (MemberName m))
     (\<lambda>c. Ret (MemberName m @ ''.'' @ c @ ''.'' @ MemberNamespace m @ ''.svc''))"

definition clientScheme :: "member \<Rightarrow> string" where
  "clientScheme m = (if SecureClient m then ''https'' else ''http'')"

definition peerScheme :: "member \<Rightarrow> string" where
  "peerScheme m = (if SecurePeer m then ''https'' else ''http'')"

definition ClientURL :: "member \<Rightarrow> string go" where
  "ClientURL m = go_bind (Addr m) (\<lambda>a. Ret (clientScheme m @ ''://'' @ a @ '':2379''))"

definition MemberString :: "member \<Rightarrow> string" where
  "MemberString m =
     (if \<not> Online m then MemberName m @ ''~''
      else if AppFailed m then MemberName m @ ''!''
      else if AppRunning m then MemberName m @ '':'' @ show_nat (unat (SEQ m))
      else if 0 < SEQ m then MemberName m @ ''?'' @ show_nat (unat (SEQ m))
      else MemberName m)"

definition ListenClientURL :: "member \<Rightarrow> string" where
  "ListenClientURL m = clientScheme m @ ''://0.0.0.0:2379''"

definition ListenPeerURL :: "member \<Rightarrow> string" where
  "ListenPeerURL m = peerScheme m @ ''://0.0.0.0:2380''"

definition PeerURL :: "member \<Rightarrow> string go" where
  "PeerURL m = go_bind (Addr m) (\<lambda>a. Ret (peerScheme m @ ''://'' @ a @ '':2380''))"

definition Restore :: "member \<Rightarrow> member \<Rightarrow> member" where
  "Restore m last_m = m\<lparr>AppPrimary := AppPrimary last_m, AppRunning := AppRunning last_m,
     AppFailed := AppFailed last_m, Failures := Failures last_m, SEQ := SEQ last_m\<rparr>"

definition CopyMember :: "member \<Rightarrow> member" where
  "CopyMember m = zero_member\<lparr>MemberName := MemberName m, Online := Online m,
     AppPrimary := AppPrimary m, AppRunning := AppRunning m, AppFailed := AppFailed m,
     Failures := Failures m, SEQ := SEQ m\<rparr>"

definition MemberIsEqual :: "member \<Rightarrow> member \<Rightarrow> bool" where
  "MemberIsEqual m other =
     (if Online m \<noteq> Online other then False
      else if SEQ m \<noteq> SEQ other then False
      else if AppRunning m \<noteq> AppRunning other then False
      else if AppPrimary m \<noteq> AppPrimary other then False
      else if AppFailed m \<noteq> AppFailed other then False
      else True)"

definition Offline :: "member \<Rightarrow> member" where
  "Offline m = m\<lparr>Online := False, AppPrimary := False, AppRunning := False, AppFailed := False,
     SEQ := 0\<rparr>"

section \<open>Member sets\<close>

type_synonym memberset = "(string \<times> member) list"

text \<open>The members in the order in which the entries are listed.\<close>

definition members :: "memberset \<Rightarrow> member list" where
  "members ms = map snd ms"

text \<open>\<^verbatim>\<open>ms[k].f = v\<close> through the pointer stored under the key.\<close>

definition ms_modify :: "string \<Rightarrow> (member \<Rightarrow> member) \<Rightarrow> memberset \<Rightarrow> memberset go" where
  "ms_modify k f ms =
     (case map_of ms k of
        None \<Rightarrow> Panic ''invalid memory address or nil pointer dereference''
      | Some m \<Rightarrow> Ret (AList.update k (f m) ms))"

definition NewMemberSet :: "member list \<Rightarrow> memberset" where
  "NewMemberSet ms = fold (\<lambda>m r. AList.update (MemberName m) m r) ms []"

definition AddMember :: "memberset \<Rightarrow> member \<Rightarrow> memberset" where
  "AddMember ms m = AList.update (MemberName m) m ms"

definition RemoveMember :: "memberset \<Rightarrow> string \<Rightarrow> memberset" where
  "RemoveMember ms name = AList.delete name ms"

definition Diff :: "memberset \<Rightarrow> memberset \<Rightarrow> memberset" where
  "Diff ms other = filter (\<lambda>p. map_of other (fst p) = None) ms"

definition DiffExtended :: "memberset \<Rightarrow> memberset \<Rightarrow> memberset" where
  "DiffExtended ms other =
     filter (\<lambda>(n, m). case map_of other n of None \<Rightarrow> True | Some o' \<Rightarrow> Online o' \<noteq> Online m) ms"

definition CopySet :: "memberset \<Rightarrow> memberset" where
  "CopySet ms = map (\<lambda>(n, m). (n, CopyMember m)) ms"

definition Size :: "memberset \<Rightarrow> int32" where
  "Size ms = wrap32 (int (length ms))"

definition AppPrimaries :: "memberset \<Rightarrow> int32" where
  "AppPrimaries ms = count32 (\<lambda>m. Online m \<and> AppPrimary m \<and> AppRunning m) (members ms) 0"

definition AppMembers :: "memberset \<Rightarrow> int32" where
  "AppMembers ms = count32 (\<lambda>m. Online m \<and> AppRunning m) (members ms) 0"

definition ActiveMembers :: "memberset \<Rightarrow> int32" where
  "ActiveMembers ms = count32 Online (members ms) 0"

definition InActiveMembers :: "memberset \<Rightarrow> int32" where
  "InActiveMembers ms = count32 (\<lambda>m. \<not> Online m) (members ms) 0"

text \<open>The first loop of \<^verbatim>\<open>Reconcile\<close>: copies of the members that have appeared.\<close>

definition addAppeared :: "memberset \<Rightarrow> memberset \<Rightarrow> memberset" where
  "addAppeared running result =
     fold (\<lambda>(n, a) r. if map_of r n = None then AList.update n (CopyMember a) r else r) running result"

text \<open>The body of the last loop of \<^verbatim>\<open>Reconcile\<close>.\<close>

definition loseMember :: "memberset \<Rightarrow> int32 \<Rightarrow> member \<Rightarrow> memberset \<Rightarrow> memberset go" where
  "loseMember running maxm m result =
     (if map_of result (MemberName m) = None \<and> Size running \<le> maxm
      then ms_modify (MemberName m) Offline (AList.update (MemberName m) (CopyMember m) result)
      else ms_modify (MemberName m) Offline result)"

definition Reconcile :: "memberset \<Rightarrow> memberset \<Rightarrow> int32 \<Rightarrow> memberset go" where
  "Reconcile ms running maxm =
     (let result = addAppeared running (CopySet ms);
          lostMembers = Diff result running;
          newMembers = DiffExtended running ms
      in go_bind
           (go_for (\<lambda>m. ms_modify (MemberName m) (\<lambda>r. r\<lparr>Online := True\<rparr>)) (members newMembers) result)
           (go_for (loseMember running maxm) (members lostMembers)))"

definition MemberSetIsEqual :: "memberset \<Rightarrow> memberset \<Rightarrow> bool" where
  "MemberSetIsEqual ms other =
     (if Size ms \<noteq> Size other then False
      else list_all (\<lambda>(n, m). case map_of other n of
                               None \<Rightarrow> False | Some o' \<Rightarrow> MemberIsEqual m o') ms)"

definition MemberSetString :: "memberset \<Rightarrow> string" where
  "MemberSetString ms = ''['' @ Join (sort (map MemberString (members ms))) '', '' @ '']''"

definition PickOne :: "memberset \<Rightarrow> member go" where
  "PickOne ms = (case members ms of [] \<Rightarrow> Panic ''empty'' | m # _ \<Rightarrow> Ret m)"

definition PeerURLPairs :: "memberset \<Rightarrow> (string list) go" where
  "PeerURLPairs ms =
     go_for (\<lambda>m ps. go_bind (PeerURL m) (\<lambda>u. Ret (ps @ [MemberName m @ ''='' @ u]))) (members ms) []"

definition ClientURLs :: "memberset \<Rightarrow> (string list) go" where
  "ClientURLs ms = go_for (\<lambda>m ps. go_bind (ClientURL m) (\<lambda>u. Ret (ps @ [u]))) (members ms) []"

section \<open>Member names\<close>

definition GetCounterFromMemberName :: "string \<Rightarrow> int \<times> go_error option" where
  "GetCounterFromMemberName name =
     (case split_last CHR ''-'' name of
        Some (_, d # ds) \<Rightarrow>
          (case Atoi (d # ds) of
             (c, None) \<Rightarrow> (c, None)
           | (_, Some e) \<Rightarrow>
               (0, Some (ErrNew (''could not atoi '' @ (d # ds) @ '': '' @ NumErrorString ''Atoi'' (d # ds) e))))
      | _ \<Rightarrow> (0, Some (ErrNew (''name ('' @ name @ '') does not contain '' @ quoted ''-'' @
                   '' or anything after '' @ quoted ''-''))))"

text \<open>
  \<^verbatim>\<open>validPeerURL\<close>, the regular expression \<^verbatim>\<open>^\w+:\/\/[\w\.\-]+(:\d+)?$\<close>. The classes
  exclude the colon, so each greedy repetition ends where it must and matching is one pass.
\<close>

definition is_word_char :: "char \<Rightarrow> bool" where
  "is_word_char c = (let n = (of_char c :: nat) in
     is_digit c \<or> (65 \<le> n \<and> n \<le> 90) \<or> (97 \<le> n \<and> n \<le> 122) \<or> n = 95)"

definition is_host_char :: "char \<Rightarrow> bool" where
  "is_host_char c = (is_word_char c \<or> c = CHR ''.'' \<or> c = CHR ''-'')"

definition split_peer_url :: "string \<Rightarrow> (string \<times> string \<times> string) option" where
  "split_peer_url pu =
     (let scheme = takeWhile is_word_char pu;
          rest = dropWhile is_word_char pu;
          host = takeWhile is_host_char (drop 3 rest);
          port = dropWhile is_host_char (drop 3 rest)
      in if scheme \<noteq> [] \<and> take 3 rest = ''://'' \<and> host \<noteq> [] \<and>
            (port = [] \<or> (hd port = CHR '':'' \<and> tl port \<noteq> [] \<and> list_all is_digit (tl port)))
         then Some (scheme, host, port) else None)"

text \<open>
  What \<^verbatim>\<open>url.Parse\<close> makes of such a text: a scheme that does not start with a letter or holds an
  underscore is no scheme, and the text is then rejected for the colon in its first path segment.
\<close>

definition valid_scheme :: "string \<Rightarrow> bool" where
  "valid_scheme s = (case s of [] \<Rightarrow> False
     | c # cs \<Rightarrow> is_word_char c \<and> \<not> is_digit c \<and> list_all (\<lambda>x. x \<noteq> CHR ''_'') s)"

definition MemberNameFromPeerURL :: "string \<Rightarrow> go_error + string" where
  "MemberNameFromPeerURL pu =
     (case split_peer_url pu of
        None \<Rightarrow> Inl (ErrNew ''invalid PeerURL format'')
      | Some (scheme, host, port) \<Rightarrow>
          if \<not> valid_scheme scheme
          then Inl (ErrNew (''parse '' @ pu @ '': first path segment in URL cannot contain colon''))
          else Inr (hd (Split CHR ''.'' (hd (Split CHR '':'' (host @ port))))))"

definition CreateMemberName :: "string \<Rightarrow> int \<Rightarrow> string" where
  "CreateMemberName clusterName n = clusterName @ ''-'' @ show_int04 n"

section \<open>Well-formed sets\<close>

text \<open>
  Every set the program builds stores a member under its own name. \<open>ms_small\<close> is what keeps the
  \<^verbatim>\<open>int32\<close> counters from wrapping around.
\<close>

definition ms_wf :: "memberset \<Rightarrow> bool" where
  "ms_wf ms = (distinct (map fst ms) \<and> list_all (\<lambda>(n, m). MemberName m = n) ms)"

definition ms_small :: "memberset \<Rightarrow> bool" where
  "ms_small ms = (int (length ms) < 2 ^ 31)"

lemma ms_wf_Nil [simp]: "ms_wf []"
  by (simp add: ms_wf_def)

lemma ms_wf_distinct: "ms_wf ms \<Longrightarrow> distinct (map fst ms)"
  by (simp add: ms_wf_def)

lemma ms_wf_name: "ms_wf ms \<Longrightarrow> map_of ms k = Some m \<Longrightarrow> MemberName m = k"
  by (auto simp: ms_wf_def list_all_iff dest!: map_of_SomeD)

lemma ms_wf_iff:
  "ms_wf ms \<longleftrightarrow> distinct (map fst ms) \<and> (\<forall>k m. map_of ms k = Some m \<longrightarrow> MemberName m = k)"
  by (auto simp: ms_wf_def list_all_iff dest!: map_of_SomeD)

lemma ms_wf_members: "ms_wf ms \<Longrightarrow> map MemberName (members ms) = map fst ms"
  by (auto simp: ms_wf_def members_def list_all_iff)

lemma set_members: "distinct (map fst ms) \<Longrightarrow> set (members ms) = ran (map_of ms)"
  by (simp add: members_def ran_distinct)

lemma map_of_update [simp]: "map_of (AList.update k v ms) = (map_of ms)(k \<mapsto> v)"
  by (rule update_conv')

lemma keys_update_old: "map_of ms k = Some m \<Longrightarrow> map fst (AList.update k v ms) = map fst ms"
  by (auto simp: update_keys dest!: map_of_SomeD intro: rev_image_eqI)

lemma length_update_old: "map_of ms k = Some m \<Longrightarrow> length (AList.update k v ms) = length ms"
  using keys_update_old [of ms k m v] by (metis length_map)

lemma ms_wf_update: "ms_wf ms \<Longrightarrow> MemberName m = k \<Longrightarrow> ms_wf (AList.update k m ms)"
  by (auto simp: ms_wf_iff distinct_update)

lemma ms_modify_Some: "map_of ms k = Some m \<Longrightarrow> ms_modify k f ms = Ret (AList.update k (f m) ms)"
  by (simp add: ms_modify_def)

text \<open>Modifying a list of distinct keys that are all present changes exactly those entries.\<close>

lemma ms_modify_all:
  assumes "distinct ks" and "\<forall>k \<in> set ks. map_of ms k \<noteq> None"
  shows "go_ok (\<lambda>r. map fst r = map fst ms \<and>
           map_of r = (\<lambda>k. if k \<in> set ks then map_option f (map_of ms k) else map_of ms k))
         (go_for (\<lambda>k. ms_modify k f) ks ms)"
  using assms
proof (induction ks arbitrary: ms)
  case Nil
  then show ?case by simp
next
  case (Cons k ks)
  from Cons.prems obtain m where m: "map_of ms k = Some m" by auto
  let ?ms = "AList.update k (f m) ms"
  have "go_ok (\<lambda>r. map fst r = map fst ?ms \<and>
           map_of r = (\<lambda>j. if j \<in> set ks then map_option f (map_of ?ms j) else map_of ?ms j))
         (go_for (\<lambda>k. ms_modify k f) ks ?ms)"
    using Cons.prems by (intro Cons.IH) auto
  then show ?case
    using Cons.prems m by (auto simp: ms_modify_Some keys_update_old fun_eq_iff elim!: go_ok_mono)
qed

section \<open>What Reconcile computes\<close>

text \<open>
  The entry \<open>Reconcile\<close> leaves under a key, from the entries of the known members and of the
  running pods: members without a pod go offline and lose their application state, pods seen for
  the first time enter as online copies, all others keep their application state and are online
  when either side says so.
\<close>

fun reconcile_entry :: "member option \<Rightarrow> member option \<Rightarrow> member option" where
  "reconcile_entry None None = None"
| "reconcile_entry (Some m) None = Some (Offline (CopyMember m))"
| "reconcile_entry None (Some a) = Some ((CopyMember a)\<lparr>Online := True\<rparr>)"
| "reconcile_entry (Some m) (Some a) = Some ((CopyMember m)\<lparr>Online := (Online m \<or> Online a)\<rparr>)"

lemma CopyMember_simps [simp]:
  "MemberName (CopyMember m) = MemberName m" "Online (CopyMember m) = Online m"
  "AppPrimary (CopyMember m) = AppPrimary m" "AppRunning (CopyMember m) = AppRunning m"
  "AppFailed (CopyMember m) = AppFailed m" "Failures (CopyMember m) = Failures m"
  "SEQ (CopyMember m) = SEQ m" "MemberNamespace (CopyMember m) = []"
  "SecurePeer (CopyMember m) = False" "SecureClient (CopyMember m) = False"
  by (simp_all add: CopyMember_def zero_member_def)

lemma Offline_simps [simp]:
  "MemberName (Offline m) = MemberName m" "\<not> Online (Offline m)" "\<not> AppPrimary (Offline m)"
  "\<not> AppRunning (Offline m)" "\<not> AppFailed (Offline m)" "Failures (Offline m) = Failures m"
  "SEQ (Offline m) = 0"
  by (simp_all add: Offline_def)

lemma CopyMember_idem [simp]: "CopyMember (CopyMember m) = CopyMember m"
  by (simp add: CopyMember_def)

lemma keys_CopySet [simp]: "map fst (CopySet ms) = map fst ms"
  by (auto simp: CopySet_def)

lemma map_of_CopySet [simp]: "map_of (CopySet ms) k = map_option CopyMember (map_of ms k)"
  by (simp add: CopySet_def map_of_map_val)

lemma distinct_addAppeared:
  "distinct (map fst r) \<Longrightarrow> distinct (map fst (addAppeared running r))"
  unfolding addAppeared_def
  by (induction running arbitrary: r) (auto simp: distinct_update)

lemma map_of_addAppeared:
  "distinct (map fst running) \<Longrightarrow>
   map_of (addAppeared running r) k =
     (case map_of r k of Some m \<Rightarrow> Some m | None \<Rightarrow> map_option CopyMember (map_of running k))"
proof (induction running arbitrary: r)
  case Nil
  then show ?case by (simp add: addAppeared_def split: option.splits)
next
  case (Cons p running)
  obtain n a where p: "p = (n, a)" by (cases p)
  let ?r = "if map_of r n = None then AList.update n (CopyMember a) r else r"
  have "map_of (addAppeared (p # running) r) k = map_of (addAppeared running ?r) k"
    by (simp add: addAppeared_def p)
  also have "\<dots> = (case map_of ?r k of Some m \<Rightarrow> Some m | None \<Rightarrow> map_option CopyMember (map_of running k))"
    using Cons by simp
  finally have eq: "map_of (addAppeared (p # running) r) k =
     (case map_of ?r k of Some m \<Rightarrow> Some m | None \<Rightarrow> map_option CopyMember (map_of running k))" .
  have "map_of running n = None" using Cons.prems by (simp add: p map_of_eq_None_iff)
  then show ?case
    unfolding eq by (cases "map_of r n"; cases "k = n"; cases "map_of r k") (simp_all add: p)
qed

lemma Diff_keys:
  "distinct (map fst ms) \<Longrightarrow> ms_wf ms \<Longrightarrow>
   map MemberName (members (Diff ms other)) = filter (\<lambda>k. map_of other k = None) (map fst ms)"
  by (induction ms) (auto simp: Diff_def members_def ms_wf_def)

lemma DiffExtended_wf: "ms_wf ms \<Longrightarrow> ms_wf (DiffExtended ms other)"
  by (auto simp: ms_wf_def DiffExtended_def list_all_iff intro: distinct_map_fst_filter)

lemma Diff_wf: "ms_wf ms \<Longrightarrow> ms_wf (Diff ms other)"
  by (auto simp: ms_wf_def Diff_def list_all_iff intro: distinct_map_fst_filter)

lemma DiffExtended_keys:
  "ms_wf ms \<Longrightarrow> k \<in> set (map fst (DiffExtended ms other)) \<longleftrightarrow>
   (\<exists>m. map_of ms k = Some m \<and> (case map_of other k of None \<Rightarrow> True | Some o' \<Rightarrow> Online o' \<noteq> Online m))"
  by (auto simp: DiffExtended_def ms_wf_def image_iff intro: rev_bexI dest: map_of_SomeD)

text \<open>The loop over lost members always finds its key, so its first branch is never taken.\<close>

lemma loseMember_present:
  "map_of r (MemberName m) \<noteq> None \<Longrightarrow> loseMember running mx m r = ms_modify (MemberName m) Offline r"
  by (auto simp: loseMember_def)

lemma loseMember_loop:
  assumes "\<forall>m \<in> set lost. map_of r (MemberName m) \<noteq> None"
  shows "go_for (loseMember running mx) lost r =
         go_for (\<lambda>k. ms_modify k Offline) (map MemberName lost) r"
proof -
  let ?I = "\<lambda>r. \<forall>m \<in> set lost. map_of r (MemberName m) \<noteq> None"
  have "go_for (loseMember running mx) lost r = go_for (\<lambda>m. ms_modify (MemberName m) Offline) lost r"
    by (rule go_for_cong [of _ ?I])
      (use assms in \<open>auto simp: loseMember_def ms_modify_def split: option.splits\<close>)
  then show ?thesis by (simp add: go_for_map [of "\<lambda>k. ms_modify k Offline" MemberName])
qed

text \<open>The two phases of \<open>Reconcile\<close> after the copies are made.\<close>

lemma Reconcile_new_phase:
  assumes "ms_wf running" and "\<forall>k. map_of running k \<noteq> None \<longrightarrow> map_of r k \<noteq> None"
  shows "go_ok (\<lambda>r'. map fst r' = map fst r \<and>
           map_of r' = (\<lambda>k. if k \<in> set (map fst (DiffExtended running ms))
                            then map_option (\<lambda>x. x\<lparr>Online := True\<rparr>) (map_of r k) else map_of r k))
         (go_for (\<lambda>m. ms_modify (MemberName m) (\<lambda>x. x\<lparr>Online := True\<rparr>))
            (members (DiffExtended running ms)) r)"
proof -
  let ?ks = "map fst (DiffExtended running ms)"
  have eq: "go_for (\<lambda>m. ms_modify (MemberName m) (\<lambda>x. x\<lparr>Online := True\<rparr>)) (members (DiffExtended running ms)) r
      = go_for (\<lambda>k. ms_modify k (\<lambda>x. x\<lparr>Online := True\<rparr>)) ?ks r"
    using go_for_map [of "\<lambda>k. ms_modify k (\<lambda>x. x\<lparr>Online := True\<rparr>)" MemberName
        "members (DiffExtended running ms)" r]
    by (simp only: ms_wf_members [OF DiffExtended_wf [OF assms(1)]])
  have "distinct ?ks" using assms(1) by (intro ms_wf_distinct DiffExtended_wf)
  moreover have "\<forall>k \<in> set ?ks. map_of r k \<noteq> None"
    using assms DiffExtended_keys [OF assms(1)] by (metis option.distinct(1))
  ultimately show ?thesis unfolding eq by (rule ms_modify_all)
qed

lemma Reconcile_lost_phase:
  assumes wf: "ms_wf r1" and keys: "map fst r = map fst r1"
  shows "go_ok (\<lambda>r'. map fst r' = map fst r \<and>
           map_of r' = (\<lambda>k. if map_of running k = None then map_option Offline (map_of r k) else map_of r k))
         (go_for (loseMember running mx) (members (Diff r1 running)) r)"
proof -
  let ?lost = "filter (\<lambda>k. map_of running k = None) (map fst r1)"
  have names: "map MemberName (members (Diff r1 running)) = ?lost"
    using wf by (simp add: Diff_keys ms_wf_distinct)
  have dom_r: "k \<in> set (map fst r1) \<longleftrightarrow> map_of r k \<noteq> None" for k
    by (simp only: keys [symmetric] map_of_eq_None_iff) simp
  have present: "\<forall>k \<in> set ?lost. map_of r k \<noteq> None"
    using dom_r by auto
  have "\<forall>m \<in> set (members (Diff r1 running)). MemberName m \<in> set ?lost"
    unfolding names [symmetric] by auto
  with present have eq: "go_for (loseMember running mx) (members (Diff r1 running)) r =
      go_for (\<lambda>k. ms_modify k Offline) ?lost r"
    using loseMember_loop [of "members (Diff r1 running)" r running mx] by (auto simp: names)
  have "distinct ?lost" using wf by (simp add: ms_wf_distinct)
  from ms_modify_all [OF this present, of Offline] show ?thesis
    unfolding eq using dom_r by (elim go_ok_mono) (auto simp: fun_eq_iff simp del: set_map)
qed

text \<open>The whole of \<open>Reconcile\<close>, key by key.\<close>

lemma Reconcile_spec:
  assumes ms: "ms_wf ms" and running: "ms_wf running"
  shows "go_ok (\<lambda>r. ms_wf r \<and> (\<forall>k. map_of r k = reconcile_entry (map_of ms k) (map_of running k)))
           (Reconcile ms running mx)"
proof -
  let ?r1 = "addAppeared running (CopySet ms)"
  have r1: "map_of ?r1 k = (case map_of ms k of Some m \<Rightarrow> Some (CopyMember m)
      | None \<Rightarrow> map_option CopyMember (map_of running k))" for k
    using ms_wf_distinct [OF running] by (cases "map_of ms k") (simp_all add: map_of_addAppeared)
  have wf1: "ms_wf ?r1"
    using ms running
    by (auto simp: ms_wf_iff distinct_addAppeared r1 split: option.splits)
  have "\<forall>k. map_of running k \<noteq> None \<longrightarrow> map_of ?r1 k \<noteq> None"
    by (auto simp: r1 split: option.splits)
  note new = Reconcile_new_phase [OF running this, of ms]
  have entry: "map_of r' k = reconcile_entry (map_of ms k) (map_of running k)"
    if "map_of r = (\<lambda>k. if k \<in> set (map fst (DiffExtended running ms))
          then map_option (\<lambda>x. x\<lparr>Online := True\<rparr>) (map_of ?r1 k) else map_of ?r1 k)"
      and "map_of r' = (\<lambda>k. if map_of running k = None then map_option Offline (map_of r k) else map_of r k)"
    for r r' k
    unfolding that DiffExtended_keys [OF running] r1
    by (cases "map_of ms k"; cases "map_of running k") auto
  show ?thesis
    unfolding Reconcile_def Let_def
  proof (rule go_ok_bind [OF new])
    fix r
    assume r: "map fst r = map fst ?r1 \<and> map_of r =
      (\<lambda>k. if k \<in> set (map fst (DiffExtended running ms))
           then map_option (\<lambda>x. x\<lparr>Online := True\<rparr>) (map_of ?r1 k) else map_of ?r1 k)"
    show "go_ok (\<lambda>r. ms_wf r \<and> (\<forall>k. map_of r k = reconcile_entry (map_of ms k) (map_of running k)))
        (go_for (loseMember running mx) (members (Diff ?r1 running)) r)"
    proof (rule go_ok_mono [OF Reconcile_lost_phase [OF wf1]])
      show "map fst r = map fst ?r1" using r by simp
    next
      fix r'
      assume r': "map fst r' = map fst r \<and>
        map_of r' = (\<lambda>k. if map_of running k = None then map_option Offline (map_of r k) else map_of r k)"
      have e: "\<forall>k. map_of r' k = reconcile_entry (map_of ms k) (map_of running k)"
        using entry r r' by blast
      have "\<forall>k m. reconcile_entry (map_of ms k) (map_of running k) = Some m \<longrightarrow> MemberName m = k"
        using ms running by (auto simp: ms_wf_iff elim!: reconcile_entry.elims)
      moreover have "distinct (map fst r')" using r r' wf1 by (simp add: ms_wf_distinct)
      ultimately show "ms_wf r' \<and> (\<forall>k. map_of r' k = reconcile_entry (map_of ms k) (map_of running k))"
        using e by (simp add: ms_wf_iff)
    qed
  qed
qed

section \<open>Counters\<close>

lemma members_small: "ms_small ms \<Longrightarrow> int (length (members ms)) < 2 ^ 31"
  by (simp add: ms_small_def members_def)

lemma AppPrimaries_eq:
  "ms_small ms \<Longrightarrow>
   AppPrimaries ms = int (length (filter (\<lambda>m. Online m \<and> AppPrimary m \<and> AppRunning m) (members ms)))"
  using members_small [of ms] by (simp add: AppPrimaries_def count32_filter)

lemma AppMembers_eq:
  "ms_small ms \<Longrightarrow> AppMembers ms = int (length (filter (\<lambda>m. Online m \<and> AppRunning m) (members ms)))"
  using members_small [of ms] by (simp add: AppMembers_def count32_filter)

lemma ActiveMembers_eq:
  "ms_small ms \<Longrightarrow> ActiveMembers ms = int (length (filter Online (members ms)))"
  using members_small [of ms] by (simp add: ActiveMembers_def count32_filter)

lemma InActiveMembers_eq:
  "ms_small ms \<Longrightarrow> InActiveMembers ms = int (length (filter (\<lambda>m. \<not> Online m) (members ms)))"
  using members_small [of ms] by (simp add: InActiveMembers_def count32_filter)

lemma Size_eq: "ms_small ms \<Longrightarrow> Size ms = int (length ms)"
  by (simp add: Size_def ms_small_def wrap32_id)

lemmas counter_eqs = AppPrimaries_eq AppMembers_eq ActiveMembers_eq InActiveMembers_eq Size_eq

text \<open>How replacing one member changes a counter.\<close>

lemma filter_members_update:
  assumes "map_of ms k = Some m" and "distinct (map fst ms)"
  shows "int (length (filter P (members (AList.update k m' ms)))) =
         int (length (filter P (members ms))) - (if P m then 1 else 0) + (if P m' then 1 else 0)"
  using assms
proof (induction ms)
  case (Cons p ms)
  obtain n x where p: "p = (n, x)" by (cases p)
  show ?case
  proof (cases "k = n")
    case True
    with Cons.prems show ?thesis by (simp add: p members_def)
  next
    case False
    with Cons show ?thesis by (auto simp: p members_def split: if_splits)
  qed
qed simp

section \<open>Names and addresses\<close>

lemma is_digit_zero: "is_digit CHR ''0''"
  by (simp add: is_digit_def digit_val_def)

lemma show_int04_digits: "0 \<le> n \<Longrightarrow> c \<in> set (show_int04 n) \<Longrightarrow> is_digit c"
  using show_nat_digits [of "nat n"] is_digit_zero by (auto simp: show_int04_def)

lemma show_int04_nonempty [simp]: "show_int04 n \<noteq> []"
  by (simp add: show_int04_def)

lemma Atoi_show_int04:
  assumes "0 \<le> n" and "n < 2 ^ 63"
  shows "Atoi (show_int04 n) = (n, None)"
proof -
  have "ParseUint (show_int04 n) 64 = (nat n, None)"
    using assms
    by (simp add: ParseUint_def show_int04_def parseUintLoop_zeros parseUintLoop_show_nat)
  moreover have "is_digit (hd (show_int04 n))"
    using assms show_int04_digits [of n] hd_in_set [of "show_int04 n"] by simp
  ultimately show ?thesis
    using assms ParseInt_digits [of "show_int04 n" 64 "nat n"] by (simp add: Atoi_def)
qed

lemma split_last_CreateMemberName:
  assumes "0 \<le> n"
  shows "split_last CHR ''-'' (CreateMemberName c n) = Some (c, show_int04 n)"
proof -
  have "CHR ''-'' \<notin> set (show_int04 n)"
    using show_int04_digits [OF assms] not_is_digit by blast
  then show ?thesis
    using split_last_append [of "CHR ''-''" "show_int04 n" c] by (simp add: CreateMemberName_def)
qed

lemma takeWhile_host: "\<forall>c \<in> set h. P c \<Longrightarrow> \<not> P c \<Longrightarrow> takeWhile P (h @ c # r) = h \<and> dropWhile P (h @ c # r) = c # r"
  by (simp add: takeWhile_append dropWhile_append)

lemma word_chars: "is_word_char CHR ''h''" "is_word_char CHR ''t''" "is_word_char CHR ''p''"
  "is_word_char CHR ''s''" "is_word_char CHR ''v''" "is_word_char CHR ''c''" "\<not> is_word_char CHR '':''"
  by (simp_all add: is_word_char_def is_digit_def digit_val_def)

lemma host_char_not_colon: "is_host_char c \<Longrightarrow> c \<noteq> CHR '':''"
  by (auto simp: is_host_char_def word_chars)

lemma split_peer_url_http:
  assumes "h \<noteq> []" and "\<forall>c \<in> set h. is_host_char c" and "scheme = ''http'' \<or> scheme = ''https''"
  shows "split_peer_url (scheme @ ''://'' @ h @ '':2380'') = Some (scheme, h, '':2380'')"
proof -
  have scheme: "\<forall>c \<in> set scheme. is_word_char c" using assms(3) by (auto simp: word_chars)
  have "takeWhile is_host_char (h @ '':2380'') = h" "dropWhile is_host_char (h @ '':2380'') = '':2380''"
    using takeWhile_host [of h is_host_char "CHR '':''" "''2380''"] assms(2) host_char_not_colon by auto
  moreover have "takeWhile is_word_char (scheme @ ''://'' @ h @ '':2380'') = scheme"
    "dropWhile is_word_char (scheme @ ''://'' @ h @ '':2380'') = ''://'' @ h @ '':2380''"
    using takeWhile_host [of scheme is_word_char "CHR '':''"] scheme by (auto simp: word_chars)
  moreover have "list_all is_digit ''2380''" by (simp add: is_digit_def digit_val_def)
  ultimately show ?thesis
    using assms(1,3) by (auto simp: split_peer_url_def Let_def)
qed

section \<open>Consequences of the entry-wise description\<close>

lemma reconcile_entry_idem: "reconcile_entry (reconcile_entry m a) a = reconcile_entry m a"
  by (cases m; cases a) (auto simp: CopyMember_def Offline_def zero_member_def)

text \<open>An offline member carries no application state.\<close>

definition offline_clean :: "member \<Rightarrow> bool" where
  "offline_clean m = (Online m \<or> (\<not> AppPrimary m \<and> \<not> AppRunning m \<and> \<not> AppFailed m \<and> SEQ m = 0))"

lemma reconcile_entry_online:
  assumes "\<And>a. r = Some a \<Longrightarrow> Online a" and "reconcile_entry m r = Some x"
  shows "Online x = (r \<noteq> None)" and "offline_clean x"
  using assms by (cases m; cases r; auto simp: offline_clean_def)+

lemma length_filter_keys:
  "distinct (map fst ms) \<Longrightarrow> length (filter P (members ms)) = card {k. \<exists>m. map_of ms k = Some m \<and> P m}"
proof -
  assume d: "distinct (map fst ms)"
  have "length (filter P (members ms)) = length (map fst (filter (\<lambda>p. P (snd p)) ms))"
    by (simp add: members_def filter_map comp_def)
  also have "\<dots> = card (set (map fst (filter (\<lambda>p. P (snd p)) ms)))"
    using d by (simp only: distinct_card distinct_map_fst_filter)
  also have "set (map fst (filter (\<lambda>p. P (snd p)) ms)) = {k. \<exists>m. map_of ms k = Some m \<and> P m}"
    using d by (force simp: image_iff)
  finally show ?thesis .
qed

lemma card_keys: "distinct (map fst ms) \<Longrightarrow> card (dom (map_of ms)) = length ms"
  using distinct_card [of "map fst ms"] by (simp add: dom_map_of_conv_image_fst)

lemma MemberSetIsEqual_iff:
  assumes "ms_wf ms" "ms_wf other" "ms_small ms" "ms_small other"
  shows "MemberSetIsEqual ms other \<longleftrightarrow> (\<forall>k. rel_option MemberIsEqual (map_of ms k) (map_of other k))"
proof
  assume eq: "MemberSetIsEqual ms other"
  then have len: "length ms = length other"
    using assms by (simp add: MemberSetIsEqual_def Size_eq split: if_splits)
  have all: "\<exists>o'. map_of other k = Some o' \<and> MemberIsEqual m o'" if "map_of ms k = Some m" for k m
  proof -
    have "(k, m) \<in> set ms" using that by (rule map_of_SomeD)
    with eq have "case map_of other k of None \<Rightarrow> False | Some o' \<Rightarrow> MemberIsEqual m o'"
      by (auto simp: MemberSetIsEqual_def list_all_iff split: if_splits)
    then show ?thesis by (cases "map_of other k") simp_all
  qed
  have "dom (map_of ms) \<subseteq> dom (map_of other)" using all by blast
  moreover have "card (dom (map_of ms)) = card (dom (map_of other))"
    using assms len by (simp add: card_keys ms_wf_distinct)
  ultimately have "dom (map_of ms) = dom (map_of other)"
    by (simp add: card_subset_eq finite_dom_map_of)
  then show "\<forall>k. rel_option MemberIsEqual (map_of ms k) (map_of other k)"
    using all by (metis domIff option.exhaust option.rel_intros option.sel)
next
  assume r: "\<forall>k. rel_option MemberIsEqual (map_of ms k) (map_of other k)"
  then have "dom (map_of ms) = dom (map_of other)"
    by (metis (no_types, lifting) domIff option.rel_sel subset_antisym subset_iff)
  then have "length ms = length other"
    using assms by (metis card_keys ms_wf_distinct)
  moreover have "\<exists>o'. map_of other k = Some o' \<and> MemberIsEqual m o'" if "(k, m) \<in> set ms" for k m
  proof -
    have "map_of ms k = Some m" using that assms(1) by (simp add: ms_wf_distinct)
    moreover have "rel_option MemberIsEqual (map_of ms k) (map_of other k)" using r by blast
    ultimately show ?thesis by (cases "map_of other k") simp_all
  qed
  ultimately show "MemberSetIsEqual ms other"
    using assms by (fastforce simp: MemberSetIsEqual_def Size_eq list_all_iff)
qed

section \<open>Properties\<close>

text \<open>
  C1. \<open>Reconcile\<close> never panics on well-formed sets, and the set it returns holds under every name
  exactly the entry described by \<open>reconcile_entry\<close>: members whose pod is gone are kept, offline and
  with their application state and sequence number cleared; new pods are added online; all others
  keep their application state. No record is ever dropped, whatever the size limit that is passed: the
  names are exactly the known and the running ones, so records of pods removed by a scale-down stay.
\<close>

theorem Reconcile_entries:
  assumes "ms_wf ms" and "ms_wf running"
  shows "\<exists>r. Reconcile ms running mx = Ret r \<and> ms_wf r \<and>
           (\<forall>k. map_of r k = reconcile_entry (map_of ms k) (map_of running k)) \<and>
           dom (map_of r) = dom (map_of ms) \<union> dom (map_of running)"
proof -
  from Reconcile_spec [OF assms, of mx] obtain r where
    r: "Reconcile ms running mx = Ret r" "ms_wf r" "\<forall>k. map_of r k = reconcile_entry (map_of ms k) (map_of running k)"
    by (auto simp: go_ok_iff)
  then have "map_of r k = None \<longleftrightarrow> map_of ms k = None \<and> map_of running k = None" for k
    by (cases "map_of ms k"; cases "map_of running k") simp_all
  then have "dom (map_of r) = dom (map_of ms) \<union> dom (map_of running)" by (auto simp: dom_def)
  with r show ?thesis by blast
qed

theorem Reconcile_entries_witness:
  "\<exists>r. Reconcile [(''a'', zero_member\<lparr>MemberName := ''a'', Online := True, AppRunning := True\<rparr>)]
         [(''b'', zero_member\<lparr>MemberName := ''b'', Online := True\<rparr>)] 3 = Ret r \<and>
       map_of r ''a'' = Some (Offline (zero_member\<lparr>MemberName := ''a''\<rparr>)) \<and>
       map_of r ''b'' = Some (zero_member\<lparr>MemberName := ''b'', Online := True\<rparr>)"
proof -
  let ?ms = "[(''a'', zero_member\<lparr>MemberName := ''a'', Online := True, AppRunning := True\<rparr>)]"
  let ?rs = "[(''b'', zero_member\<lparr>MemberName := ''b'', Online := True\<rparr>)]"
  have "ms_wf ?ms" "ms_wf ?rs" by (simp_all add: ms_wf_def)
  from Reconcile_entries [OF this, of 3] obtain r where
    r: "Reconcile ?ms ?rs 3 = Ret r" and e: "\<forall>k. map_of r k = reconcile_entry (map_of ?ms k) (map_of ?rs k)"
    by blast
  show ?thesis
    by (intro exI conjI, rule r) (simp_all add: e Offline_def CopyMember_def zero_member_def)
qed

text \<open>
  Reconciling twice against the same pods changes nothing the second time: the second result has
  the same entry under every name.
\<close>

lemma Reconcile_idempotent:
  assumes "ms_wf ms" and "ms_wf running" and "Reconcile ms running mx = Ret r"
  shows "\<exists>r'. Reconcile r running mx' = Ret r' \<and> map_of r' = map_of r"
proof -
  have r: "ms_wf r" "\<forall>k. map_of r k = reconcile_entry (map_of ms k) (map_of running k)"
    using Reconcile_spec [OF assms(1,2), of mx] assms(3) by auto
  from Reconcile_spec [OF r(1) assms(2), of mx'] obtain r' where
    "Reconcile r running mx' = Ret r'"
    "\<forall>k. map_of r' k = reconcile_entry (map_of r k) (map_of running k)"
    by (auto simp: go_ok_iff)
  then show ?thesis using r by (auto simp: fun_eq_iff reconcile_entry_idem)
qed



text \<open>
  Comparing two member sets with \<open>MemberSetIsEqual\<close> is comparing them name by name: they are
  equal when they hold the same names with equal online flag, sequence number and application
  state under each.
\<close>

lemma MemberSetIsEqual_pointwise:
  assumes "ms_wf ms" and "ms_wf other" and "ms_small ms" and "ms_small other"
  shows "MemberSetIsEqual ms other \<longleftrightarrow>
         (\<forall>k. rel_option (\<lambda>m o'. Online m = Online o' \<and> SEQ m = SEQ o' \<and> AppRunning m = AppRunning o' \<and>
                 AppPrimary m = AppPrimary o' \<and> AppFailed m = AppFailed o') (map_of ms k) (map_of other k))"
proof -
  have "MemberIsEqual = (\<lambda>m o'. Online m = Online o' \<and> SEQ m = SEQ o' \<and> AppRunning m = AppRunning o' \<and>
      AppPrimary m = AppPrimary o' \<and> AppFailed m = AppFailed o')"
    by (auto simp: fun_eq_iff MemberIsEqual_def)
  then show ?thesis using MemberSetIsEqual_iff [OF assms] by simp
qed

text \<open>The counter and the cluster name are read back from a member name.\<close>

lemma member_name_roundtrip:
  assumes "0 \<le> n" and "n < 2 ^ 63"
  shows "GetCounterFromMemberName (CreateMemberName c n) = (n, None) \<and>
         clusterNameFromMemberName (CreateMemberName c n) = Ret c"
proof -
  obtain d ds where d: "show_int04 n = d # ds" by (cases "show_int04 n") auto
  then show ?thesis
    using Atoi_show_int04 [OF assms] split_last_CreateMemberName [OF assms(1), of c]
    by (simp add: GetCounterFromMemberName_def clusterNameFromMemberName_def)
qed

text \<open>
  The peer URL of a member leads back to its name when the name is a host name without dots that holds a
  dash and the namespace is made of host-name characters.
\<close>

lemma peer_url_roundtrip:
  assumes "MemberName m = c @ ''-'' @ i" and "CHR ''-'' \<notin> set i"
    and "\<forall>x \<in> set (MemberName m). is_host_char x \<and> x \<noteq> CHR ''.''"
    and "\<forall>x \<in> set (MemberNamespace m). is_host_char x"
  shows "\<exists>u. PeerURL m = Ret u \<and> MemberNameFromPeerURL u = Inr (MemberName m)"
proof -
  let ?h = "MemberName m @ CHR ''.'' # c @ ''.'' @ MemberNamespace m @ ''.svc''"
  have u: "PeerURL m = Ret (peerScheme m @ ''://'' @ ?h @ '':2380'')"
    using split_last_append [OF assms(2), of c]
    by (simp add: PeerURL_def Addr_def clusterNameFromMemberName_def assms(1))
  have host: "\<forall>x \<in> set ?h. is_host_char x"
    using assms(3,4) by (auto simp: assms(1) is_host_char_def word_chars)
  have scheme: "peerScheme m = ''http'' \<or> peerScheme m = ''https''"
    by (simp add: peerScheme_def)
  then have "valid_scheme (peerScheme m)"
    by (auto simp: valid_scheme_def word_chars is_digit_def digit_val_def)
  moreover have "split_peer_url (peerScheme m @ ''://'' @ ?h @ '':2380'') = Some (peerScheme m, ?h, '':2380'')"
    using host scheme by (intro split_peer_url_http) auto
  moreover have "hd (Split CHR '':'' (?h @ '':2380'')) = ?h"
    using host host_char_not_colon hd_Split_append [of "CHR '':''" ?h "''2380''"] by auto
  moreover have "hd (Split CHR ''.'' ?h) = MemberName m"
    using assms(3) hd_Split_append [of "CHR ''.''" "MemberName m"] by blast
  ultimately have "MemberNameFromPeerURL (peerScheme m @ ''://'' @ ?h @ '':2380'') = Inr (MemberName m)"
    by (simp add: MemberNameFromPeerURL_def)
  with u show ?thesis by blast
qed

lemma CreateMemberName_parts:
  assumes "0 \<le> n"
  shows "CreateMemberName c n = c @ ''-'' @ show_int04 n" and "CHR ''-'' \<notin> set (show_int04 n)"
    and "\<forall>x \<in> set (show_int04 n). is_host_char x \<and> x \<noteq> CHR ''.''"
proof -
  show "CreateMemberName c n = c @ ''-'' @ show_int04 n"
    and "CHR ''-'' \<notin> set (show_int04 n)"
    using split_last_Some [OF split_last_CreateMemberName [OF assms, of c]] by simp_all
  have "\<forall>x \<in> set (show_int04 n). is_digit x"
    using assms show_nat_digits [of "nat n"] by (auto simp: show_int04_def is_digit_def digit_val_def)
  then show "\<forall>x \<in> set (show_int04 n). is_host_char x \<and> x \<noteq> CHR ''.''"
    by (auto simp: is_host_char_def is_word_char_def is_digit_def digit_val_def)
qed

text \<open>
  C3. The names of a cluster round-trip: for a cluster name that is a host name without dots, a namespace of
  host-name characters and a counter from 0 up, the member named by \<open>CreateMemberName\<close> gives the counter back
  to \<open>GetCounterFromMemberName\<close> without an error and the cluster name to \<open>clusterNameFromMemberName\<close> without a
  panic, and its \<open>PeerURL\<close> is accepted by \<open>MemberNameFromPeerURL\<close> and leads back to the name.
\<close>

theorem member_names_roundtrip:
  assumes "0 \<le> n" and "n < 2 ^ 63" and "MemberName m = CreateMemberName c n"
    and "\<forall>x \<in> set c. is_host_char x \<and> x \<noteq> CHR ''.''" and "\<forall>x \<in> set (MemberNamespace m). is_host_char x"
  shows "GetCounterFromMemberName (MemberName m) = (n, None) \<and> clusterNameFromMemberName (MemberName m) = Ret c \<and>
         (\<exists>u. PeerURL m = Ret u \<and> MemberNameFromPeerURL u = Inr (MemberName m))"
proof -
  note parts = CreateMemberName_parts [OF assms(1)]
  have "MemberName m = c @ ''-'' @ show_int04 n" by (simp add: assms(3) parts(1))
  moreover have "\<forall>x \<in> set (MemberName m). is_host_char x \<and> x \<noteq> CHR ''.''"
    using assms(4) parts(3) by (auto simp: assms(3) parts(1) is_host_char_def)
  ultimately have "\<exists>u. PeerURL m = Ret u \<and> MemberNameFromPeerURL u = Inr (MemberName m)"
    by (rule peer_url_roundtrip [OF _ parts(2) _ assms(5)])
  then show ?thesis using member_name_roundtrip [OF assms(1,2), of c] unfolding assms(3) by blast
qed

theorem member_names_roundtrip_witness:
  "CreateMemberName ''rss-a'' 7 = ''rss-a-0007'' \<and> GetCounterFromMemberName ''rss-a-0007'' = (7, None) \<and>
   (\<exists>u. PeerURL (zero_member\<lparr>MemberName := ''rss-a-0007'', MemberNamespace := ''ns''\<rparr>) = Ret u \<and>
        MemberNameFromPeerURL u = Inr ''rss-a-0007'')"
proof -
  have e: "CreateMemberName ''rss-a'' 7 = ''rss-a-0007''" by code_simp
  then show ?thesis
    using member_names_roundtrip [of 7 "zero_member\<lparr>MemberName := ''rss-a-0007'', MemberNamespace := ''ns''\<rparr>" "''rss-a''"]
    by (simp add: is_host_char_def is_word_char_def is_digit_def digit_val_def)
qed

end
