(* ===== verification/ExecParse.thy ===== *)
theory ExecParse
  imports GoStrings
begin

text \<open>
  The parsers of pkg/cluster/exec.go: the exit code in the error of a remote command, and the
  durations of the custom resource. The regular expression of \<^verbatim>\<open>parseDuration\<close> is a sequence of
  optional groups, so it matches at the first position, possibly the empty text; a group of digits
  and a unit letter is taken when it is next, and no choice is ever undone (\<open>takeUnit\<close>).
\<close>

section \<open>Exit codes\<close>

definition exitCodeText :: string where
  "exitCodeText = ''command terminated with exit code ''"

definition parseExitCode :: "go_error option \<Rightarrow> int" where
  "parseExitCode err =
     (case err of
        None \<Rightarrow> 0
      | Some e \<Rightarrow>
          (case after_first exitCodeText (Error e) of
             None \<Rightarrow> 1
           | Some sub \<Rightarrow> (case ParseInt sub 32 of (val, None) \<Rightarrow> val | (_, Some _) \<Rightarrow> 1)))"

section \<open>Durations\<close>

text \<open>\<^verbatim>\<open>time.Duration\<close> counts nanoseconds in an \<^verbatim>\<open>int64\<close>.\<close>

definition Second :: int64 where "Second = 1000000000"
definition Minute :: int64 where "Minute = 60 * Second"
definition Hour :: int64 where "Hour = 60 * Minute"

lemmas duration_defs = Hour_def Minute_def Second_def

definition parseInt64 :: "string \<Rightarrow> int64" where
  "parseInt64 value =
     (if length value = 0 then 0
      else case Atoi (butlast value) of (parsed, None) \<Rightarrow> parsed | (_, Some _) \<Rightarrow> 0)"

text \<open>One optional group \<^verbatim>\<open>(\d+u)?\<close>: the text it matched and what is left.\<close>

definition takeUnit :: "char \<Rightarrow> string \<Rightarrow> string \<times> string" where
  "takeUnit u s =
     (let ds = takeWhile is_digit s; rest = dropWhile is_digit s
      in if ds \<noteq> [] \<and> rest \<noteq> [] \<and> hd rest = u then (ds @ [u], tl rest) else ([], s))"

text \<open>The optional \<^verbatim>\<open>T?\<close> between days and hours.\<close>

definition skipT :: "string \<Rightarrow> string" where
  "skipT s = (if s \<noteq> [] \<and> hd s = CHR ''T'' then tl s else s)"

text \<open>The six groups of the regular expression and the unmatched remainder.\<close>

definition matchDuration :: "string \<Rightarrow> string list \<times> string" where
  "matchDuration s0 =
     (let (y, s1) = takeUnit CHR ''Y'' s0;
          (mo, s2) = takeUnit CHR ''M'' s1;
          (d, s3) = takeUnit CHR ''D'' s2;
          (h, s4) = takeUnit CHR ''h'' (skipT s3);
          (mi, s5) = takeUnit CHR ''m'' s4;
          (s, s6) = takeUnit CHR ''s'' s5
      in ([y, mo, d, h, mi, s], s6))"

definition parseDuration :: "string option \<Rightarrow> int64" where
  "parseDuration str =
     (case str of
        None \<Rightarrow> 0
      | Some s \<Rightarrow>
          (let (groups, rest) = matchDuration s;
               years = parseInt64 (groups ! 0);
               months = parseInt64 (groups ! 1);
               days = parseInt64 (groups ! 2);
               hours = parseInt64 (groups ! 3);
               minutes = parseInt64 (groups ! 4);
               seconds = (if rest = s then fst (Atoi s) else parseInt64 (groups ! 5))
           in wrap64 (years * 24 * 365 * Hour + months * 30 * 24 * Hour + days * 24 * Hour +
                hours * Hour + minutes * Minute + seconds * Second)))"

text \<open>The timeout \<^verbatim>\<open>execute\<close> works with: ten minutes by default, at least ten seconds.\<close>

definition sanitiseTimeout :: "int64 \<Rightarrow> int64" where
  "sanitiseTimeout timeout =
     (let minTimeout = 10 * Second
      in if timeout = 0 then 10 * Minute
         else if timeout < minTimeout then minTimeout
         else timeout)"

text \<open>The interval between two reconciliations of \<^verbatim>\<open>run\<close>.\<close>

definition recInterval :: "string option \<Rightarrow> int64" where
  "recInterval str = (let d = parseDuration str in if d \<le> 0 then Minute else d)"

section \<open>Lemmas\<close>

lemma span_show_nat:
  assumes "\<not> is_digit v"
  shows "takeWhile is_digit (show_nat n @ v # s) = show_nat n"
    and "dropWhile is_digit (show_nat n @ v # s) = v # s"
  using show_nat_digits [of n] assms by (simp_all add: takeWhile_append dropWhile_append)

lemma takeUnit_hit: "\<not> is_digit u \<Longrightarrow> takeUnit u (show_nat n @ u # s) = (show_nat n @ [u], s)"
  by (simp add: takeUnit_def span_show_nat)

lemma takeUnit_miss:
  "\<not> is_digit v \<Longrightarrow> v \<noteq> u \<Longrightarrow> takeUnit u (show_nat n @ v # s) = ([], show_nat n @ v # s)"
  by (simp add: takeUnit_def span_show_nat)

lemma takeUnit_digits: "takeUnit u (show_nat n) = ([], show_nat n)"
proof -
  have "dropWhile is_digit (show_nat n) = []" using show_nat_digits [of n] by simp
  then show ?thesis by (simp add: takeUnit_def)
qed

lemma takeUnit_Nil [simp]: "takeUnit u [] = ([], [])"
  by (simp add: takeUnit_def)

lemma not_digit_units [simp]:
  "\<not> is_digit CHR ''Y''" "\<not> is_digit CHR ''M''" "\<not> is_digit CHR ''D''" "\<not> is_digit CHR ''h''"
  "\<not> is_digit CHR ''m''" "\<not> is_digit CHR ''s''" "\<not> is_digit CHR ''T''"
  by (simp_all add: is_digit_def digit_val_def)

lemma skipT_show_nat [simp]: "skipT (show_nat n @ s) = show_nat n @ s" "skipT (show_nat n) = show_nat n"
proof -
  have "hd (show_nat n) \<noteq> CHR ''T''" by (metis hd_show_nat not_digit_units(7))
  then show "skipT (show_nat n @ s) = show_nat n @ s" "skipT (show_nat n) = show_nat n"
    by (simp_all add: skipT_def)
qed

lemma parseInt64_show_nat [simp]: "n < 2 ^ 63 \<Longrightarrow> parseInt64 (show_nat n @ [u]) = int n"
  by (simp add: parseInt64_def Atoi_def ParseInt_show_nat)

lemma parseInt64_Nil [simp]: "parseInt64 [] = 0"
  by (simp add: parseInt64_def)

lemma digit_char_eval:
  "digit_char 0 = CHR ''0''" "digit_char (Suc 0) = CHR ''1''" "digit_char 2 = CHR ''2''"
  "digit_char 3 = CHR ''3''" "digit_char 7 = CHR ''7''" "digit_char 9 = CHR ''9''"
  by code_simp+

text \<open>The text of a duration given by its six optional parts, with or without the separator.\<close>

fun unitText :: "char \<Rightarrow> nat option \<Rightarrow> string" where
  "unitText u None = []"
| "unitText u (Some n) = show_nat n @ [u]"

definition durationText ::
  "nat option \<Rightarrow> nat option \<Rightarrow> nat option \<Rightarrow> bool \<Rightarrow> nat option \<Rightarrow> nat option \<Rightarrow> nat option \<Rightarrow> string" where
  "durationText y mo d t h mi s =
     unitText CHR ''Y'' y @ unitText CHR ''M'' mo @ unitText CHR ''D'' d @ (if t then ''T'' else []) @
     unitText CHR ''h'' h @ unitText CHR ''m'' mi @ unitText CHR ''s'' s"

definition part :: "nat option \<Rightarrow> int" where
  "part n = (case n of None \<Rightarrow> 0 | Some k \<Rightarrow> int k)"

lemma takeUnit_other [simp]:
  "\<not> is_digit v \<Longrightarrow> u \<noteq> v \<Longrightarrow> takeUnit u s = ([], s) \<Longrightarrow>
   takeUnit u (unitText v n @ s) = ([], unitText v n @ s)"
  by (cases n) (simp_all add: takeUnit_miss)

lemma takeUnit_same [simp]:
  "\<not> is_digit u \<Longrightarrow> takeUnit u s = ([], s) \<Longrightarrow> takeUnit u (unitText u n @ s) = (unitText u n, s)"
  by (cases n) (simp_all add: takeUnit_hit)

lemma takeUnit_last [simp]:
  "\<not> is_digit v \<Longrightarrow> u \<noteq> v \<Longrightarrow> takeUnit u (unitText v n) = ([], unitText v n)"
  "\<not> is_digit u \<Longrightarrow> takeUnit u (unitText u n) = (unitText u n, [])"
  using takeUnit_other [of v u "[]" n] takeUnit_same [of u "[]" n] by simp_all

lemma takeUnit_T [simp]: "takeUnit u (CHR ''T'' # s) = ([], CHR ''T'' # s)"
  by (simp add: takeUnit_def)

lemma skipT_unit [simp]:
  "skipT s = s \<Longrightarrow> skipT (unitText v n @ s) = unitText v n @ s" "skipT (unitText v n) = unitText v n"
  by (cases n; simp add: skipT_def [of "[]"])+

lemma skipT_T [simp]: "skipT (CHR ''T'' # s) = s"
  by (simp add: skipT_def)

lemma matchDuration_text:
  "matchDuration (durationText y mo d t h mi s) =
     ([unitText CHR ''Y'' y, unitText CHR ''M'' mo, unitText CHR ''D'' d, unitText CHR ''h'' h,
       unitText CHR ''m'' mi, unitText CHR ''s'' s], [])"
  by (cases t) (simp_all add: matchDuration_def durationText_def)

lemma parseInt64_unit [simp]:
  "(\<And>k. n = Some k \<Longrightarrow> k < 2 ^ 63) \<Longrightarrow> parseInt64 (unitText u n) = part n"
  by (cases n) (simp_all add: part_def)

lemma durationText_empty: "durationText y mo d t h mi s = [] \<Longrightarrow> s = None"
  by (cases s) (simp_all add: durationText_def)

section \<open>Properties\<close>

text \<open>
  C9. A duration written as years, months, days, hours, minutes and seconds, each part optional and
  with or without the separator T, is read as the sum of its parts in nanoseconds, with years of 365
  and months of 30 days, wrapped around at 64 bits; a bare number is read as seconds, and no text as 0.
\<close>

theorem parseDuration_roundtrip:
  assumes "\<forall>n \<in> set_option y \<union> set_option mo \<union> set_option d \<union> set_option h \<union> set_option mi \<union> set_option s.
             n < 2 ^ 63"
    and "k < 2 ^ 63"
  shows "parseDuration (Some (durationText y mo d t h mi s)) =
           wrap64 (part y * 24 * 365 * Hour + part mo * 30 * 24 * Hour + part d * 24 * Hour +
             part h * Hour + part mi * Minute + part s * Second) \<and>
         parseDuration (Some (show_nat k)) = wrap64 (int k * Second) \<and> parseDuration None = 0"
proof -
  let ?t = "durationText y mo d t h mi s"
  have parts: "parseInt64 (unitText u n) = part n"
    if "n = y \<or> n = mo \<or> n = d \<or> n = h \<or> n = mi \<or> n = s" for u n
    using assms(1) that by (intro parseInt64_unit) auto
  have "part s = fst (Atoi ?t)" if "?t = []"
    using durationText_empty [OF that] that by (simp add: part_def Atoi_def ParseInt_def)
  then have "parseDuration (Some ?t) =
      wrap64 (part y * 24 * 365 * Hour + part mo * 30 * 24 * Hour + part d * 24 * Hour +
        part h * Hour + part mi * Minute + part s * Second)"
    by (simp add: parseDuration_def matchDuration_text parts Let_def)
  moreover have "matchDuration (show_nat k) = ([[], [], [], [], [], []], show_nat k)"
    by (simp add: matchDuration_def takeUnit_digits)
  then have "parseDuration (Some (show_nat k)) = wrap64 (int k * Second)"
    using assms(2) by (simp add: parseDuration_def Atoi_def ParseInt_show_nat)
  ultimately show ?thesis by (simp add: parseDuration_def)
qed

theorem parseDuration_roundtrip_witness:
  "parseDuration (Some ''1Y2DT3m'') = wrap64 (365 * 24 * Hour + 2 * 24 * Hour + 3 * Minute) \<and>
   parseDuration (Some ''90'') = wrap64 (90 * Second)"
  using parseDuration_roundtrip [of "Some 1" None "Some 2" None "Some 3" None 90 True]
  by (simp add: durationText_def part_def show_nat.simps digit_char_eval)

text \<open>
  Whatever timeout is written in the resource, a remote command runs with a timeout of at
  least ten seconds, and the loop of a cluster waits a positive time between reconciliations.
\<close>

lemma timeouts_positive:
  "10 * Second \<le> sanitiseTimeout (parseDuration str) \<and> 0 < recInterval str \<and>
   sanitiseTimeout 0 = 600 * Second \<and> recInterval None = 60 * Second"
  by (simp add: sanitiseTimeout_def recInterval_def parseDuration_def duration_defs Let_def)

text \<open>
  The exit code of a remote command is recovered from the text of its error: a number up to
  \<^term>\<open>2 ^ 31 - 1\<close> after the first occurrence of the marker is returned, an error without the
  marker counts as 1, and no error as 0.
\<close>

lemma parseExitCode_spec:
  assumes "after_first exitCodeText (Error e) = Some (show_nat n)" and "n < 2 ^ 31"
    and "after_first exitCodeText (Error e') = None"
  shows "parseExitCode (Some e) = int n \<and> parseExitCode (Some e') = 1 \<and> parseExitCode None = 0"
  using assms by (simp add: parseExitCode_def ParseInt_show_nat)

end
