(* ===== verification/ClusterErrors.thy ===== *)
theory ClusterErrors
  imports GoStrings
begin

text \<open>
  pkg/cluster/error.go: fatal errors and the slices of errors that reconciliation and replication
  collect. A slice of errors that may hold nil entries is a \<open>go_error option list\<close>; the slices the
  operator accumulates only ever receive non-nil errors and are \<open>go_error list\<close>s.
\<close>

definition errCreatedCluster :: go_error where
  "errCreatedCluster = ErrNew ''cluster failed to be created''"

definition newFatalError :: "string \<Rightarrow> go_error" where
  "newFatalError reason = FatalError reason"

definition isFatalError :: "go_error option \<Rightarrow> bool" where
  "isFatalError err =
     (case map_option Cause err of Some (FatalError _) \<Rightarrow> True | _ \<Rightarrow> False)"

definition appendNonNil :: "go_error list \<Rightarrow> go_error option \<Rightarrow> go_error list" where
  "appendNonNil errors err =
     (case err of None \<Rightarrow> errors
      | Some e \<Rightarrow> if Error e = [] then errors else errors @ [e])"

definition appendAllNonNil :: "go_error list \<Rightarrow> go_error option list \<Rightarrow> go_error list" where
  "appendAllNonNil errors other = foldl appendNonNil errors other"

definition combineErrors :: "go_error list \<Rightarrow> go_error option" where
  "combineErrors errors =
     (if length errors = 0 then None
      else Some (ErrNew (''['' @ Join (map Error errors) '', '' @ '']'')))"

text \<open>\<^verbatim>\<open>%v\<close> of an error value that may be nil.\<close>

definition showErr :: "go_error option \<Rightarrow> string" where
  "showErr e = (case e of None \<Rightarrow> ''<nil>'' | Some err \<Rightarrow> Error err)"

section \<open>Lemmas\<close>

lemma appendNonNil_simps [simp]:
  "appendNonNil es None = es"
  "Error e \<noteq> [] \<Longrightarrow> appendNonNil es (Some e) = es @ [e]"
  by (simp_all add: appendNonNil_def)

lemma set_appendNonNil: "set (appendNonNil es e) \<subseteq> set es \<union> set_option e"
  by (auto simp: appendNonNil_def split: option.splits)

lemma appendAllNonNil_filter:
  "appendAllNonNil es other = es @ filter (\<lambda>e. Error e \<noteq> []) (map the (filter (\<lambda>e. e \<noteq> None) other))"
  unfolding appendAllNonNil_def
  by (induction other arbitrary: es) (auto simp: appendNonNil_def split: option.splits)

lemma set_appendAllNonNil: "set (appendAllNonNil es (map Some other)) \<subseteq> set es \<union> set other"
  by (auto simp: appendAllNonNil_filter)

text \<open>The errors made by \<^verbatim>\<open>fmt.Errorf\<close> with some text; they are never fatal.\<close>

fun plain :: "go_error \<Rightarrow> bool" where
  "plain (ErrNew s) = (s \<noteq> [])"
| "plain _ = False"

lemma plain_not_fatal: "plain e \<Longrightarrow> \<not> isFatalError (Some e)"
  by (cases e) (simp_all add: isFatalError_def)

lemma plain_text: "plain e \<Longrightarrow> Error e \<noteq> []"
  by (cases e) simp_all

lemma appendAllNonNil_plain: "list_all plain other \<Longrightarrow> appendAllNonNil es (map Some other) = es @ other"
  by (auto simp: appendAllNonNil_filter comp_def list_all_iff plain_text filter_id_conv)

lemma list_all_appendNonNil:
  "list_all P es \<Longrightarrow> (\<And>x. e = Some x \<Longrightarrow> P x) \<Longrightarrow> list_all P (appendNonNil es e)"
  by (auto simp: appendNonNil_def split: option.splits)

lemma list_all_appendAllNonNil:
  "list_all P es \<Longrightarrow> list_all P other \<Longrightarrow> list_all P (appendAllNonNil es (map Some other))"
  using set_appendAllNonNil [of es other] by (auto simp: list_all_iff)

lemma Cause_not_WithMessage: "Cause e \<noteq> WithMessage c s"
  by (induction e) auto

section \<open>Properties\<close>

text \<open>
  Wrapping does not change whether an error is fatal, and combining errors loses it: what
  \<^verbatim>\<open>combineErrors\<close> returns is nil exactly for an empty slice and is never fatal, whatever it
  combines, so fatality has to be looked for in the single errors.
\<close>

lemma fatal_errors:
  "isFatalError (Some (newFatalError r)) \<and> isFatalError (Some (WithMessage e s)) = isFatalError (Some e) \<and>
   \<not> isFatalError None \<and> \<not> isFatalError (combineErrors es) \<and> (combineErrors es = None \<longleftrightarrow> es = []) \<and>
   \<not> isFatalError (Some errCreatedCluster)"
  by (simp add: isFatalError_def newFatalError_def combineErrors_def errCreatedCluster_def)

end
