(* ===== verification/Retry.thy ===== *)
theory Retry
  imports ClusterErrors
begin

text \<open>
  pkg/util/retry.go: calling a condition again until it holds, fails, or the retries are used up.
  A condition is a state transformer that says whether it is done and whether it failed; the ticker
  between two calls only takes time. The locale \<open>retry_condition\<close> is what a condition has to
  promise for \<open>Retry\<close> to return; each condition of the operator is an instance of it.
\<close>

type_synonym 's condition = "'s \<Rightarrow> ((bool \<times> go_error option) \<times> 's) go"

definition NewRetryError :: "nat \<Rightarrow> go_error" where
  "NewRetryError n = RetryError (''still failing after '' @ show_nat n @ '' retries'')"

definition IsRetryFailure :: "go_error option \<Rightarrow> bool" where
  "IsRetryFailure err = (case err of Some (RetryError _) \<Rightarrow> True | _ \<Rightarrow> False)"

text \<open>The loop with \<open>i\<close> calls made so far.\<close>

function retryLoop :: "'s condition \<Rightarrow> nat \<Rightarrow> nat \<Rightarrow> 's \<Rightarrow> (go_error option \<times> 's) go" where
  "retryLoop f maxRetries i s =
     go_bind (f s) (\<lambda>((ok, err), s').
       if err \<noteq> None then Ret (err, s')
       else if ok then Ret (None, s')
       else if maxRetries \<le> i then Ret (Some (NewRetryError maxRetries), s')
       else retryLoop f maxRetries (Suc i) s')"
  by pat_completeness auto
termination by (relation "measure (\<lambda>(f, m, i, s). m - i)") auto

declare retryLoop.simps [simp del]

definition Retry :: "int \<Rightarrow> 's condition \<Rightarrow> 's \<Rightarrow> (go_error option \<times> 's) go" where
  "Retry maxRetries f s =
     (if maxRetries \<le> 0
      then Ret (Some (ErrNew (''maxRetries ('' @ show_int maxRetries @ '') should be > 0'')), s)
      else retryLoop f (nat maxRetries) 0 s)"

section \<open>The contract of a condition\<close>

text \<open>
  A condition that keeps an invariant and never panics: then the loop returns and keeps the
  invariant, whatever the number of retries.
\<close>

locale retry_condition =
  fixes cond :: "'s condition" and inv :: "'s \<Rightarrow> bool"
  assumes total: "inv s \<Longrightarrow> go_ok (\<lambda>(r, s'). inv s') (cond s)"
begin

lemma retryLoop_returns: "inv s \<Longrightarrow> go_ok (\<lambda>(e, s'). inv s') (retryLoop cond m i s)"
proof (induction "m - i" arbitrary: i s rule: less_induct)
  case less
  have next_call: "\<not> m \<le> i \<Longrightarrow> inv s' \<Longrightarrow> go_ok (\<lambda>(e, s'). inv s') (retryLoop cond m (Suc i) s')" for s'
    by (rule less.hyps) auto
  show ?case
    unfolding retryLoop.simps [of cond m i s]
    by (rule go_ok_bind [OF total [OF less.prems]]) (auto intro: next_call)
qed

lemma Retry_returns: "inv s \<Longrightarrow> go_ok (\<lambda>(e, s'). inv s') (Retry m cond s)"
  by (simp add: Retry_def retryLoop_returns)

end

section \<open>Success\<close>

text \<open>A nil error means that the last call was done.\<close>

lemma retryLoop_done: "go_inv (\<lambda>(e, s'). e = None \<longrightarrow> (\<exists>s0. f s0 = Ret ((True, None), s'))) (retryLoop f m i s)"
proof (induction f m i s rule: retryLoop.induct)
  case (1 f m i s)
  show ?case
  proof (cases "f s")
    case (Ret r)
    obtain ok err s' where r: "r = ((ok, err), s')" by (metis surj_pair)
    have "ok \<Longrightarrow> err = None \<Longrightarrow> \<exists>s0. f s0 = Ret ((True, None), s')" using Ret r by (intro exI [of _ s]) simp
    with 1 Ret r show ?thesis by (subst retryLoop.simps) auto
  qed (subst retryLoop.simps, simp)+
qed

lemma Retry_done: "go_inv (\<lambda>(e, s'). e = None \<longrightarrow> (\<exists>s0. f s0 = Ret ((True, None), s'))) (Retry m f s)"
  by (simp add: Retry_def retryLoop_done)

lemma Retry_first: "0 < m \<Longrightarrow> f s = Ret ((True, None), s') \<Longrightarrow> Retry m f s = Ret (None, s')"
  by (simp add: Retry_def retryLoop.simps)

section \<open>Counting the calls\<close>

text \<open>A run in which the condition is not done before step \<open>k\<close>.\<close>

lemma retryLoop_run:
  assumes "\<And>j. i \<le> j \<Longrightarrow> j < k \<Longrightarrow> f (st j) = Ret ((False, None), st (Suc j))" and "i \<le> k" and "k \<le> m"
  shows "retryLoop f m i (st i) = retryLoop f m k (st k)"
  using assms
proof (induction "k - i" arbitrary: i)
  case 0
  then show ?case by simp
next
  case (Suc d)
  then have "f (st i) = Ret ((False, None), st (Suc i))" and "i < m" by simp_all
  then have "retryLoop f m i (st i) = retryLoop f m (Suc i) (st (Suc i))"
    by (subst retryLoop.simps) simp
  also have "\<dots> = retryLoop f m k (st k)"
    using Suc.prems Suc.hyps(2) by (intro Suc.hyps(1)) auto
  finally show ?case .
qed

section \<open>Properties\<close>

text \<open>
  C10. The condition is called until it is done or fails: after \<open>k\<close> calls that were neither, with
  \<open>k\<close> at most the number of retries, the next call decides what \<^verbatim>\<open>Retry\<close> returns. When the
  first call and all the retries are neither, the result is a retry failure, after one call more
  than the number of retries.
\<close>

theorem Retry_outcome:
  assumes "0 < m"
  shows "((\<forall>j < k. f (st j) = Ret ((False, None), st (Suc j))) \<and> f (st k) = Ret ((ok, err), st (Suc k)) \<and>
           (ok \<or> err \<noteq> None) \<and> k \<le> m \<longrightarrow> Retry (int m) f (st 0) = Ret (err, st (Suc k))) \<and>
         ((\<forall>j \<le> m. f (st j) = Ret ((False, None), st (Suc j))) \<longrightarrow>
           Retry (int m) f (st 0) = Ret (Some (NewRetryError m), st (Suc m)))"
proof (intro conjI impI)
  assume *: "(\<forall>j < k. f (st j) = Ret ((False, None), st (Suc j))) \<and> f (st k) = Ret ((ok, err), st (Suc k)) \<and>
    (ok \<or> err \<noteq> None) \<and> k \<le> m"
  then have "retryLoop f m 0 (st 0) = retryLoop f m k (st k)" by (intro retryLoop_run) auto
  also have "\<dots> = Ret (err, st (Suc k))" using * by (subst retryLoop.simps) auto
  finally show "Retry (int m) f (st 0) = Ret (err, st (Suc k))" using assms by (simp add: Retry_def)
next
  assume *: "\<forall>j \<le> m. f (st j) = Ret ((False, None), st (Suc j))"
  then have "retryLoop f m 0 (st 0) = retryLoop f m m (st m)" by (intro retryLoop_run) auto
  also have "\<dots> = Ret (Some (NewRetryError m), st (Suc m))" using * by (subst retryLoop.simps) auto
  finally show "Retry (int m) f (st 0) = Ret (Some (NewRetryError m), st (Suc m))"
    using assms by (simp add: Retry_def)
qed

text \<open>A condition that is done on its third call, with one retry and with five.\<close>

theorem Retry_outcome_witness:
  "Retry 5 (\<lambda>n::nat. Ret ((n = 2, None), Suc n)) 0 = Ret (None, 3) \<and>
   Retry 1 (\<lambda>n::nat. Ret ((n = 2, None), Suc n)) 0 = Ret (Some (NewRetryError 1), 2)"
  using Retry_outcome [of 5 2 "\<lambda>n::nat. Ret ((n = 2, None), Suc n)" "\<lambda>n. n" True None]
    Retry_outcome [of 1 0 "\<lambda>n::nat. Ret ((n = 2, None), Suc n)" "\<lambda>n. n"]
  by simp

end
