(* ===== verification/GoPaths.thy ===== *)
theory GoPaths
  imports GoStrings
begin

text \<open>
  Go's package path, as far as the program uses it: \<open>Clean\<close> resolves the dots and doubled slashes of a
  slash-separated path, and \<open>pathJoin\<close> is \<^verbatim>\<open>path.Join\<close> and, on Unix, \<^verbatim>\<open>filepath.Join\<close>. The lemmas
  say when the elements of a joined path stay its segments, and that rooted paths with different segments differ.
\<close>

section \<open>Paths\<close>

definition cleanStep :: "bool \<Rightarrow> string list \<Rightarrow> string \<Rightarrow> string list" where
  "cleanStep rooted out seg =
     (if seg = [] \<or> seg = ''.'' then out
      else if seg = ''..'' then
        (case out of [] \<Rightarrow> if rooted then [] else [''..'']
         | s # rest \<Rightarrow> if s = ''..'' then ''..'' # out else rest)
      else seg # out)"

definition Clean :: "string \<Rightarrow> string" where
  "Clean p =
     (if p = [] then ''.''
      else let rooted = (hd p = CHR ''/'');
               s = Join (rev (foldl (cleanStep rooted) [] (Split (CHR ''/'') p))) ''/''
           in if rooted then ''/'' @ s else if s = [] then ''.'' else s)"

definition pathJoin :: "string list \<Rightarrow> string" where
  "pathJoin segs =
     (case dropWhile (\<lambda>e. e = []) segs of [] \<Rightarrow> [] | es \<Rightarrow> Clean (Join es ''/''))"

section \<open>Cleaned paths\<close>

text \<open>\<open>rooted segs\<close> is the path with these segments; \<open>segment\<close> segments stay themselves in it.\<close>

definition segment :: "string \<Rightarrow> bool" where
  "segment s \<longleftrightarrow> s \<noteq> [] \<and> s \<notin> set [''.'', ''..''] \<and> CHR ''/'' \<notin> set s"

definition rooted :: "string list \<Rightarrow> string" where
  "rooted segs = ''/'' @ Join segs ''/''"

lemma Split_id: "c \<notin> set s \<Longrightarrow> Split c s = [s]"
  by (induction s) auto

lemma Split_append: "Split c (a @ c # b) = Split c a @ Split c b"
proof (induction a)
  case (Cons x a)
  then show ?case by (cases "Split c a") simp_all
qed simp

lemma Split_Join: "xs \<noteq> [] \<Longrightarrow> Split c (Join xs [c]) = concat (map (Split c) xs)"
  by (induction xs "[c]" rule: Join.induct) (simp_all add: Split_append)

lemma Split_Join_plain: "xs \<noteq> [] \<Longrightarrow> \<forall>x \<in> set xs. c \<notin> set x \<Longrightarrow> Split c (Join xs [c]) = xs"
  by (simp add: Split_Join map_idI Split_id concat_map_singleton cong: map_cong)

lemma foldl_cleanStep:
  "\<forall>s \<in> set segs. s = [] \<or> segment s \<Longrightarrow> foldl (cleanStep b) out segs = rev (filter (\<lambda>s. s \<noteq> []) segs) @ out"
  by (induction segs arbitrary: out) (auto simp: cleanStep_def segment_def)

lemma cleanStep_rooted: "list_all segment out \<Longrightarrow> CHR ''/'' \<notin> set seg \<Longrightarrow> list_all segment (cleanStep True out seg)"
  by (auto simp: cleanStep_def segment_def split: list.splits)

lemma foldl_cleanStep_rooted:
  "list_all segment out \<Longrightarrow> \<forall>s \<in> set segs. CHR ''/'' \<notin> set s \<Longrightarrow> list_all segment (foldl (cleanStep True) out segs)"
  by (induction segs arbitrary: out) (simp_all add: cleanStep_rooted)

lemma Clean_rooted: "\<exists>bs. list_all segment bs \<and> Clean (CHR ''/'' # p) = rooted bs"
proof -
  let ?out = "foldl (cleanStep True) [] (Split (CHR ''/'') (CHR ''/'' # p))"
  have "list_all segment ?out" by (rule foldl_cleanStep_rooted) (auto dest: Split_no_sep)
  then show ?thesis by (intro exI [of _ "rev ?out"]) (simp add: Clean_def Let_def rooted_def list_all_rev)
qed

lemma pathJoin_rooted:
  assumes "list_all segment bs" and "\<forall>s \<in> set ss. \<forall>t \<in> set (Split (CHR ''/'') s). t = [] \<or> segment t"
  shows "pathJoin (rooted bs # ss) = rooted (bs @ filter (\<lambda>t. t \<noteq> []) (concat (map (Split (CHR ''/'')) ss)))"
proof -
  let ?p = "Join (rooted bs # ss) ''/''"
  have hd: "?p \<noteq> []" "hd ?p = CHR ''/''" by (cases ss; simp add: rooted_def)+
  have "Split (CHR ''/'') (rooted bs) = [] # (if bs = [] then [[]] else bs)"
    using assms(1) by (auto simp: rooted_def list_all_iff segment_def Split_Join_plain)
  then have "Split (CHR ''/'') ?p = ([] # (if bs = [] then [[]] else bs)) @ concat (map (Split (CHR ''/'')) ss)"
    by (simp add: Split_Join)
  moreover have "filter (\<lambda>t. t \<noteq> []) bs = bs" using assms(1) by (auto simp: filter_id_conv list_all_iff segment_def)
  ultimately have "rev (foldl (cleanStep True) [] (Split (CHR ''/'') ?p)) =
      bs @ filter (\<lambda>t. t \<noteq> []) (concat (map (Split (CHR ''/'')) ss))"
    using assms by (subst foldl_cleanStep) (auto simp: list_all_iff)
  then show ?thesis using hd by (simp add: pathJoin_def Clean_def Let_def) (simp add: rooted_def)
qed

lemma hd_Join: "x \<noteq> [] \<Longrightarrow> hd (Join (x # xs) sep) = hd x \<and> Join (x # xs) sep \<noteq> []"
  by (cases xs) simp_all

lemma filter_dropWhile_nonempty: "filter (\<lambda>s. s \<noteq> []) (dropWhile (\<lambda>e. e = []) ss) = filter (\<lambda>s. s \<noteq> []) ss"
  by (induction ss) simp_all

lemma pathJoin_plain:
  assumes "\<forall>s \<in> set ss. s = [] \<or> segment s"
  shows "pathJoin ss = Join (filter (\<lambda>s. s \<noteq> []) ss) ''/''"
proof (cases "dropWhile (\<lambda>e. e = []) ss")
  case Nil
  then have "filter (\<lambda>s. s \<noteq> []) ss = []" by (simp add: filter_empty_conv dropWhile_eq_Nil_conv)
  with Nil show ?thesis by (simp only: pathJoin_def list.case Join.simps)
next
  case (Cons e es)
  have e: "e \<noteq> []" "filter (\<lambda>s. s \<noteq> []) ss = filter (\<lambda>s. s \<noteq> []) (e # es)"
    using hd_dropWhile [of "\<lambda>e. e = []" ss] filter_dropWhile_nonempty [of ss] by (simp_all add: Cons)
  moreover have "set (e # es) \<subseteq> set ss" using set_dropWhileD [of _ "\<lambda>e. e = []" ss] by (auto simp: Cons)
  ultimately have pl: "segment e" "\<forall>s \<in> set (e # es). s = [] \<or> segment s" using assms by auto
  define p where "p = Join (e # es) ''/''"
  have hdp: "hd p \<noteq> CHR ''/''" "p \<noteq> []"
    using pl(1) hd_Join [OF e(1), of es "''/''"] hd_in_set [OF e(1)] unfolding p_def segment_def by metis+
  have noslash: "\<forall>s \<in> set (e # es). CHR ''/'' \<notin> set s"
  proof
    fix s
    assume "s \<in> set (e # es)"
    with pl(2) have "s = [] \<or> segment s" by (rule bspec)
    then show "CHR ''/'' \<notin> set s" by (auto simp: segment_def)
  qed
  have "Split (CHR ''/'') p = e # es" unfolding p_def by (rule Split_Join_plain [OF _ noslash]) simp
  moreover have "Join (filter (\<lambda>s. s \<noteq> []) (e # es)) ''/'' \<noteq> []"
    using e(1) by (cases "filter (\<lambda>s. s \<noteq> []) es") simp_all
  ultimately have "Clean p = Join (filter (\<lambda>s. s \<noteq> []) (e # es)) ''/''"
    using hdp by (simp only: Clean_def Let_def foldl_cleanStep [OF pl(2)] append_Nil2 rev_rev_ident if_False)
  then show ?thesis by (simp only: pathJoin_def Cons list.case e(2) p_def)
qed

lemma rooted_inject:
  assumes "list_all segment xs" and "list_all segment ys" and "rooted xs = rooted ys"
  shows "xs = ys"
proof -
  have split: "Split (CHR ''/'') (Join zs ''/'') = (if zs = [] then [[]] else zs)" if "list_all segment zs" for zs
    using that by (auto simp: list_all_iff segment_def Split_Join_plain)
  have "Join xs ''/'' = Join ys ''/''" using assms(3) by (simp add: rooted_def)
  with split [OF assms(1)] split [OF assms(2)] have "(if xs = [] then [[]] else xs) = (if ys = [] then [[]] else ys)"
    by simp
  with assms(1,2) show ?thesis by (auto simp: segment_def split: if_splits)
qed

end
