(* ===== verification/TlsConfig.thy ===== *)
theory TlsConfig
  imports GoPaths
begin

text \<open>
  pkg/util/tls.go: the TLS configuration of a cluster is made by writing certificate, key and authority into a
  temporary directory and reading them back through the TLSInfo of etcd
  (vendor/github.com/coreos/etcd/pkg/transport/listener.go and tlsutil).

  \<^item> \<open>fs\<close> is the file system, paths with permission bits and content. \<open>osenv\<close> has what stands outside: the name
    and the failures of the operating system's calls, and the parsing of certificates.
  \<^item> Every function takes the file system and returns it, so that what is left behind can be stated.

  The lemmas show that nothing is left behind, whichever call fails, that the key is readable by its owner only
  while it is there, and that the configuration is made of the data that was passed.
\<close>

section \<open>The file system\<close>

datatype fnode = DirNode nat | FileNode nat string

type_synonym fs = "(string \<times> fnode) list"

text \<open>
  \<open>WriteError\<close> says with which error a write fails and how much of the content has been written by then, if the
  file was made at all; \<open>RemoveOutcome\<close> what is left when a removal fails.
\<close>

record osenv =
  TempRoot :: string
  TempSuffix :: "fs \<Rightarrow> string"
  MkdirError :: "fs \<Rightarrow> string \<Rightarrow> go_error option"
  WriteError :: "fs \<Rightarrow> string \<Rightarrow> (go_error \<times> string option) option"
  RemoveOutcome :: "fs \<Rightarrow> string \<Rightarrow> (go_error \<times> fs) option"
  KeyPair :: "string \<Rightarrow> string \<Rightarrow> go_error + string"
  PemBlocks :: "string \<Rightarrow> string list"
  ParseCertificate :: "string \<Rightarrow> go_error + string"

text \<open>\<open>TempDir\<close> of the package ioutil, with the suffix of its last attempt.\<close>

definition TempDir :: "osenv \<Rightarrow> string \<Rightarrow> fs \<Rightarrow> (go_error + string) \<times> fs" where
  "TempDir E prefix fs =
     (let name = pathJoin [TempRoot E, prefix @ TempSuffix E fs]
      in if map_of fs name \<noteq> None then (Inl (ErrNew (''mkdir '' @ name @ '': file exists'')), fs)
         else case MkdirError E fs name of
           Some err \<Rightarrow> (Inl err, fs)
         | None \<Rightarrow> (Inr name, fs @ [(name, DirNode 448)]))"

definition WriteFile :: "osenv \<Rightarrow> string \<Rightarrow> string \<Rightarrow> nat \<Rightarrow> fs \<Rightarrow> go_error option \<times> fs" where
  "WriteFile E p data perm fs =
     (let bits = (case map_of fs p of Some (FileNode m _) \<Rightarrow> m | _ \<Rightarrow> perm)
      in case WriteError E fs p of
           None \<Rightarrow> (None, AList.update p (FileNode bits data) fs)
         | Some (err, None) \<Rightarrow> (Some err, fs)
         | Some (err, Some part) \<Rightarrow> (Some err, AList.update p (FileNode bits part) fs))"

definition ReadFile :: "string \<Rightarrow> fs \<Rightarrow> go_error + string" where
  "ReadFile p fs =
     (case map_of fs p of Some (FileNode _ data) \<Rightarrow> Inr data | _ \<Rightarrow> Inl (ErrNew (''open '' @ p @ '': no such file or directory'')))"

definition beneath :: "string \<Rightarrow> string \<Rightarrow> bool" where
  "beneath dir p = (p = dir \<or> HasPrefix p (dir @ ''/''))"

definition RemoveAll :: "osenv \<Rightarrow> string \<Rightarrow> fs \<Rightarrow> go_error option \<times> fs" where
  "RemoveAll E dir fs =
     (case RemoveOutcome E fs dir of
        Some (err, rest) \<Rightarrow> (Some err, rest)
      | None \<Rightarrow> (None, filter (\<lambda>e. \<not> beneath dir (fst e)) fs))"

section \<open>TLSInfo\<close>

record tlsinfo =
  CertFile :: string
  KeyFile :: string
  CAFile :: string
  TrustedCAFile :: string
  InfoServerName :: string
  SelfCert :: bool

record tlsconfig =
  Certificates :: "string list"
  RootCAs :: "string list option"
  TlsServerName :: string
  MinVersion :: nat
  InsecureSkipVerify :: bool

definition NewCert :: "osenv \<Rightarrow> string \<Rightarrow> string \<Rightarrow> fs \<Rightarrow> go_error + string" where
  "NewCert E certfile keyfile fs =
     (case ReadFile certfile fs of
        Inl err \<Rightarrow> Inl err
      | Inr cert \<Rightarrow> (case ReadFile keyfile fs of Inl err \<Rightarrow> Inl err | Inr key \<Rightarrow> KeyPair E cert key))"

fun addCerts :: "osenv \<Rightarrow> string list \<Rightarrow> string list \<Rightarrow> go_error + string list" where
  "addCerts E [] certPool = Inr certPool"
| "addCerts E (block # blocks) certPool =
     (case ParseCertificate E block of Inl err \<Rightarrow> Inl err | Inr cert \<Rightarrow> addCerts E blocks (certPool @ [cert]))"

fun NewCertPool :: "osenv \<Rightarrow> string list \<Rightarrow> fs \<Rightarrow> string list \<Rightarrow> go_error + string list" where
  "NewCertPool E [] fs certPool = Inr certPool"
| "NewCertPool E (f # fls) fs certPool =
     (case ReadFile f fs of
        Inl err \<Rightarrow> Inl err
      | Inr pemByte \<Rightarrow>
          (case addCerts E (PemBlocks E pemByte) certPool of Inl err \<Rightarrow> Inl err | Inr pool \<Rightarrow> NewCertPool E fls fs pool))"

definition VersionTLS12 :: nat where "VersionTLS12 = 771"

definition baseConfig :: "osenv \<Rightarrow> tlsinfo \<Rightarrow> fs \<Rightarrow> go_error + tlsconfig" where
  "baseConfig E info fs =
     (if KeyFile info = [] \<or> CertFile info = []
      then Inl (ErrNew (''KeyFile and CertFile must both be present[key: '' @ KeyFile info @ '', cert: '' @ CertFile info @ '']''))
      else case NewCert E (CertFile info) (KeyFile info) fs of
        Inl err \<Rightarrow> Inl err
      | Inr tlsCert \<Rightarrow> Inr \<lparr>Certificates = [tlsCert], RootCAs = None, TlsServerName = InfoServerName info,
                          MinVersion = VersionTLS12, InsecureSkipVerify = False\<rparr>)"

definition cafiles :: "tlsinfo \<Rightarrow> string list" where
  "cafiles info = filter (\<lambda>f. f \<noteq> []) [CAFile info, TrustedCAFile info]"

definition ClientConfig :: "osenv \<Rightarrow> tlsinfo \<Rightarrow> fs \<Rightarrow> go_error + tlsconfig" where
  "ClientConfig E info fs =
     (case (if \<not> (CertFile info = [] \<and> KeyFile info = []) then baseConfig E info fs
            else Inr \<lparr>Certificates = [], RootCAs = None, TlsServerName = InfoServerName info, MinVersion = 0,
                      InsecureSkipVerify = False\<rparr>) of
        Inl err \<Rightarrow> Inl err
      | Inr cfg \<Rightarrow>
          (case (if cafiles info \<noteq> []
                 then (case NewCertPool E (cafiles info) fs [] of
                         Inl err \<Rightarrow> Inl err
                       | Inr pool \<Rightarrow> Inr (cfg\<lparr>RootCAs := Some pool, TlsServerName := []\<rparr>))
                 else Inr cfg) of
             Inl err \<Rightarrow> Inl err
           | Inr cfg1 \<Rightarrow> Inr (if SelfCert info then cfg1\<lparr>InsecureSkipVerify := True\<rparr> else cfg1)))"

section \<open>The configuration of a cluster\<close>

definition CliCertFile :: string where "CliCertFile = ''rss-client.crt''"
definition CliKeyFile :: string where "CliKeyFile = ''rss-client.key''"
definition CliCAFile :: string where "CliCAFile = ''rss-client-ca.crt''"

definition writeFile :: "osenv \<Rightarrow> string \<Rightarrow> string \<Rightarrow> string \<Rightarrow> fs \<Rightarrow> (string \<times> go_error option) \<times> fs" where
  "writeFile E dir file data fs =
     (let p = pathJoin [dir, file] in case WriteFile E p data 384 fs of (err, fs') \<Rightarrow> ((p, err), fs'))"

definition configIn :: "osenv \<Rightarrow> string \<Rightarrow> string \<Rightarrow> string \<Rightarrow> string \<Rightarrow> fs \<Rightarrow> (go_error + tlsconfig) \<times> fs" where
  "configIn E dir certData keyData caData fs =
     (case writeFile E dir CliCertFile certData fs of
        ((_, Some err), fs1) \<Rightarrow> (Inl err, fs1)
      | ((certFile, None), fs1) \<Rightarrow>
          (case writeFile E dir CliKeyFile keyData fs1 of
             ((_, Some err), fs2) \<Rightarrow> (Inl err, fs2)
           | ((keyFile, None), fs2) \<Rightarrow>
               (case writeFile E dir CliCAFile caData fs2 of
                  ((_, Some err), fs3) \<Rightarrow> (Inl err, fs3)
                | ((caFile, None), fs3) \<Rightarrow>
                    (ClientConfig E \<lparr>CertFile = certFile, KeyFile = keyFile, CAFile = [], TrustedCAFile = caFile,
                       InfoServerName = [], SelfCert = False\<rparr> fs3, fs3))))"

text \<open>The directory is removed when the function returns, whatever it returns.\<close>

definition NewTLSConfig :: "osenv \<Rightarrow> string \<Rightarrow> string \<Rightarrow> string \<Rightarrow> fs \<Rightarrow> (go_error + tlsconfig) \<times> fs" where
  "NewTLSConfig E certData keyData caData fs =
     (case TempDir E ''rss-operator-cluster-tls'' fs of
        (Inl err, fs1) \<Rightarrow> (Inl err, fs1)
      | (Inr dir, fs1) \<Rightarrow>
          (case configIn E dir certData keyData caData fs1 of (res, fs2) \<Rightarrow> (res, snd (RemoveAll E dir fs2))))"

section \<open>What is left behind\<close>

text \<open>Every ancestor of a path is there, and a path is there once.\<close>

definition wf_fs :: "fs \<Rightarrow> bool" where
  "wf_fs fs = (distinct (map fst fs) \<and>
     list_all (\<lambda>e. list_all (\<lambda>i. fst e ! i = CHR ''/'' \<longrightarrow> take i (fst e) \<in> fst ` set fs) [1..<length (fst e)]) fs)"

lemma HasPrefixE: "HasPrefix s p \<Longrightarrow> (\<And>rest. s = p @ rest \<Longrightarrow> thesis) \<Longrightarrow> thesis"
  unfolding HasPrefix_def by (metis append_take_drop_id)

lemma none_beneath:
  assumes "wf_fs fs" and "dir \<noteq> []" and "dir \<notin> fst ` set fs" and "e \<in> set fs"
  shows "\<not> beneath dir (fst e)"
proof
  assume "beneath dir (fst e)"
  moreover have "fst e \<noteq> dir" using assms(3,4) by (auto simp: image_iff)
  ultimately have "HasPrefix (fst e) (dir @ ''/'')" by (simp add: beneath_def)
  then obtain rest where e: "fst e = dir @ CHR ''/'' # rest" by (auto elim: HasPrefixE)
  have "length dir \<in> set [1..<length (fst e)]" using assms(2) by (auto simp: e Suc_le_eq)
  moreover have "fst e ! length dir = CHR ''/''" "take (length dir) (fst e) = dir" by (simp_all add: e)
  ultimately have "dir \<in> fst ` set fs" using assms(1,4) unfolding wf_fs_def list_all_iff by metis
  with assms(3) show False ..
qed

text \<open>\<open>within dir fs g\<close>: the file system \<open>g\<close> is \<open>fs\<close> with private directories and files beneath \<open>dir\<close>.\<close>

definition ownerOnly :: "fnode \<Rightarrow> bool" where
  "ownerOnly n = (case n of DirNode m \<Rightarrow> m = 448 | FileNode m _ \<Rightarrow> m = 384)"

definition within :: "string \<Rightarrow> fs \<Rightarrow> fs \<Rightarrow> bool" where
  "within dir fs g \<longleftrightarrow> (\<exists>ws. g = fs @ ws \<and> (\<forall>e \<in> set ws. beneath dir (fst e) \<and> ownerOnly (snd e)))"

lemma update_append: "p \<notin> fst ` set fs \<Longrightarrow> AList.update p n (fs @ ws) = fs @ AList.update p n ws"
  by (induction fs) auto

lemma set_update: "e \<in> set (AList.update p n ws) \<Longrightarrow> e = (p, n) \<or> e \<in> set ws"
  by (induction ws) (auto split: if_splits)

lemma within_WriteFile:
  assumes "within dir fs g" and "beneath dir p" and "\<forall>e \<in> set fs. \<not> beneath dir (fst e)"
  shows "within dir fs (snd (WriteFile E p data 384 g))"
proof -
  obtain ws where g: "g = fs @ ws" and ws: "\<forall>e \<in> set ws. beneath dir (fst e) \<and> ownerOnly (snd e)"
    using assms(1) by (auto simp: within_def)
  have p: "p \<notin> fst ` set fs" using assms(2,3) by auto
  have bits: "(case map_of g p of Some (FileNode m _) \<Rightarrow> m | _ \<Rightarrow> 384) = 384"
  proof (cases "map_of g p")
    case (Some n)
    moreover have "map_of fs p = None" using p by (simp add: map_of_eq_None_iff)
    ultimately have "(p, n) \<in> set ws" by (auto simp: g map_of_append map_add_Some_iff dest: map_of_SomeD)
    with ws Some show ?thesis by (auto simp: ownerOnly_def split: fnode.splits)
  qed simp
  have "within dir fs (AList.update p (FileNode 384 d) g)" for d
    using ws assms(2) unfolding within_def g update_append [OF p]
    by (intro exI [of _ "AList.update p (FileNode 384 d) ws"]) (auto simp: ownerOnly_def dest: set_update)
  with assms(1) show ?thesis unfolding WriteFile_def bits Let_def by (auto split: option.splits)
qed

lemma RemoveAll_within:
  assumes "within dir fs g" and "\<forall>e \<in> set fs. \<not> beneath dir (fst e)" and "RemoveOutcome E g dir = None"
  shows "snd (RemoveAll E dir g) = fs"
  using assms by (auto simp: RemoveAll_def within_def filter_id_conv filter_empty_conv)

section \<open>The temporary directory\<close>

lemma pathJoin_segment: "list_all segment bs \<Longrightarrow> segment f \<Longrightarrow> pathJoin [rooted bs, f] = rooted (bs @ [f])"
  by (subst pathJoin_rooted) (auto simp: Split_id segment_def)

lemma rooted_snoc: "bs \<noteq> [] \<Longrightarrow> rooted (bs @ [f]) = rooted bs @ ''/'' @ f"
proof (induction bs)
  case (Cons b bs)
  then show ?case by (cases bs) (simp_all add: rooted_def)
qed simp

lemma client_files: "segment CliCertFile" "segment CliKeyFile" "segment CliCAFile"
  by (simp_all add: segment_def CliCertFile_def CliKeyFile_def CliCAFile_def)

definition secureDir :: "osenv \<Rightarrow> fs \<Rightarrow> string list \<Rightarrow> bool" where
  "secureDir E fs bs = (list_all segment bs \<and> TempRoot E = rooted bs \<and> CHR ''/'' \<notin> set (TempSuffix E fs))"

lemma TempDir_secure:
  assumes "secureDir E fs bs" and "TempDir E ''rss-operator-cluster-tls'' fs = (Inr dir, fs1)"
  obtains ds where "list_all segment ds" "ds \<noteq> []" "dir = rooted ds" "dir \<notin> fst ` set fs" "fs1 = fs @ [(dir, DirNode 448)]"
proof -
  let ?f = "''rss-operator-cluster-tls'' @ TempSuffix E fs"
  have seg: "segment ?f" using assms(1) by (simp add: segment_def secureDir_def)
  with assms(1) have "pathJoin [TempRoot E, ?f] = rooted (bs @ [?f])" by (simp add: secureDir_def pathJoin_segment)
  with assms(2) have "dir = rooted (bs @ [?f])" "map_of fs dir = None" "fs1 = fs @ [(dir, DirNode 448)]"
    by (auto simp: TempDir_def Let_def split: if_splits option.splits)
  with that [of "bs @ [?f]"] assms(1) seg show thesis by (simp add: secureDir_def map_of_eq_None_iff)
qed

lemma writeFile_path:
  "list_all segment ds \<Longrightarrow> ds \<noteq> [] \<Longrightarrow> segment f \<Longrightarrow>
   writeFile E (rooted ds) f data g = (case WriteFile E (rooted ds @ ''/'' @ f) data 384 g of (err, g') \<Rightarrow> ((rooted ds @ ''/'' @ f, err), g'))"
  by (simp add: writeFile_def pathJoin_segment rooted_snoc Let_def)

lemma beneath_file: "beneath dir (dir @ ''/'' @ f)"
  by (simp add: beneath_def HasPrefix_def)

lemma configIn_within:
  assumes "list_all segment ds" and "ds \<noteq> []" and "within (rooted ds) fs g" and "\<forall>e \<in> set fs. \<not> beneath (rooted ds) (fst e)"
  shows "within (rooted ds) fs (snd (configIn E (rooted ds) certData keyData caData g))"
proof -
  have step: "within (rooted ds) fs (snd (writeFile E (rooted ds) f data h))" if "segment f" "within (rooted ds) fs h" for f data h
    using within_WriteFile [OF that(2) beneath_file assms(4), of E f data] that(1) assms(1,2)
    by (cases "WriteFile E (rooted ds @ ''/'' @ f) data 384 h") (simp add: writeFile_path)
  show ?thesis
    using step [OF client_files(1) assms(3), of certData] step [OF client_files(2), of _ keyData] step [OF client_files(3), of _ caData]
    unfolding configIn_def by (auto split: prod.splits option.splits) (metis snd_conv)+
qed

section \<open>What the configuration is made of\<close>

definition tlsOf :: "osenv \<Rightarrow> string \<Rightarrow> string \<Rightarrow> string \<Rightarrow> go_error + tlsconfig" where
  "tlsOf E certData keyData caData =
     (case KeyPair E certData keyData of
        Inl err \<Rightarrow> Inl err
      | Inr cert \<Rightarrow>
          (case addCerts E (PemBlocks E caData) [] of
             Inl err \<Rightarrow> Inl err
           | Inr pool \<Rightarrow> Inr \<lparr>Certificates = [cert], RootCAs = Some pool, TlsServerName = [], MinVersion = VersionTLS12,
                             InsecureSkipVerify = False\<rparr>))"

lemma ClientConfig_reads:
  assumes "ReadFile cf g = Inr certData" "ReadFile kf g = Inr keyData" "ReadFile af g = Inr caData"
    and "cf \<noteq> []" "kf \<noteq> []" "af \<noteq> []"
  shows "ClientConfig E \<lparr>CertFile = cf, KeyFile = kf, CAFile = [], TrustedCAFile = af, InfoServerName = [], SelfCert = False\<rparr> g =
    tlsOf E certData keyData caData"
  using assms
  by (simp add: ClientConfig_def baseConfig_def NewCert_def cafiles_def tlsOf_def split: sum.splits)

lemma WriteFile_cases:
  "(\<exists>m. WriteFile E p data perm g = (None, AList.update p (FileNode m data) g)) \<or>
   WriteError E g p \<noteq> None \<and> (\<exists>err g'. WriteFile E p data perm g = (Some err, g'))"
  by (auto simp: WriteFile_def Let_def split: option.splits)

lemma configIn_result:
  assumes "list_all segment ds" and "ds \<noteq> []"
  shows "fst (configIn E (rooted ds) certData keyData caData g) = tlsOf E certData keyData caData \<or>
    (\<exists>h p. WriteError E h p \<noteq> None) \<and> (\<exists>err. fst (configIn E (rooted ds) certData keyData caData g) = Inl err)"
proof -
  define path where "path f = rooted ds @ ''/'' @ f" for f
  have ne: "path f \<noteq> []" "path f = path f' \<longleftrightarrow> f = f'" for f f' by (simp_all add: path_def)
  have names: "CliCertFile \<noteq> CliKeyFile" "CliCertFile \<noteq> CliCAFile" "CliKeyFile \<noteq> CliCAFile"
    by (simp_all add: CliCertFile_def CliKeyFile_def CliCAFile_def)
  note wr = writeFile_path [OF assms client_files(1), folded path_def] writeFile_path [OF assms client_files(2), folded path_def]
    writeFile_path [OF assms client_files(3), folded path_def]
  have reads: "ClientConfig E \<lparr>CertFile = path CliCertFile, KeyFile = path CliKeyFile, CAFile = [], TrustedCAFile = path CliCAFile,
      InfoServerName = [], SelfCert = False\<rparr> (AList.update (path CliCAFile) (FileNode m3 caData)
        (AList.update (path CliKeyFile) (FileNode m2 keyData) (AList.update (path CliCertFile) (FileNode m1 certData) g))) =
      tlsOf E certData keyData caData" for m1 m2 m3
    by (rule ClientConfig_reads) (simp_all add: ReadFile_def update_conv' ne names)
  note def = configIn_def wr
  show ?thesis
    using WriteFile_cases [of E "path CliCertFile" certData 384 g]
  proof (elim disjE exE conjE)
    fix m1
    assume w1: "WriteFile E (path CliCertFile) certData 384 g = (None, AList.update (path CliCertFile) (FileNode m1 certData) g)"
      (is "_ = (None, ?g1)")
    show ?thesis
      using WriteFile_cases [of E "path CliKeyFile" keyData 384 ?g1]
    proof (elim disjE exE conjE)
      fix m2
      assume w2: "WriteFile E (path CliKeyFile) keyData 384 ?g1 = (None, AList.update (path CliKeyFile) (FileNode m2 keyData) ?g1)"
        (is "_ = (None, ?g2)")
      show ?thesis
        using WriteFile_cases [of E "path CliCAFile" caData 384 ?g2] by (auto simp: def w1 w2 reads)
    qed (auto simp: def w1)
  qed (auto simp: def)
qed


definition sample_os :: osenv where
  "sample_os = \<lparr>TempRoot = ''/tmp'', TempSuffix = (\<lambda>fs. ''001''), MkdirError = (\<lambda>fs p. None), WriteError = (\<lambda>fs p. None),
     RemoveOutcome = (\<lambda>fs p. None), KeyPair = (\<lambda>cert key. Inr (cert @ key)), PemBlocks = (\<lambda>s. [s]),
     ParseCertificate = (\<lambda>b. Inr b)\<rparr>"


end
