(* ===== verification/KubeEnv.thy ===== *)
theory KubeEnv
  imports ApiSpec Members ExecParse Retry TlsConfig
begin

text \<open>
  What the operator's cluster object works on, and the world around it.

  \<^item> \<open>effect\<close> lists the requests the operator makes: to the Kubernetes API, to the API of its own
    custom resource, and to run a command in a container. The cluster object carries the list of the
    requests made so far (\<open>Trace\<close>), the latest last.
  \<^item> \<open>kube\<close> collects what the operator does not contain: the answers to those requests, each a
    function of everything requested before, the patch and selector computations of the Kubernetes
    libraries, the clock, and the order in which a map is ranged over. Every definition that
    depends on one of them takes the \<open>kube\<close> record as an argument, and no property restricts it
    except by a hypothesis in its statement.
  \<^item> the helpers of pkg/util/k8sutil (pod_util.go, node_util.go, sts_util.go, k8sutil.go,
    exec_util.go, tls.go) and pkg/util/constants.
\<close>

section \<open>Constants\<close>

definition EnvOperatorPodName :: string where "EnvOperatorPodName = ''POD_NAME''"
definition EnvOperatorPodNamespace :: string where "EnvOperatorPodNamespace = ''POD_NAMESPACE''"
definition EnvOperatorServiceName :: string where "EnvOperatorServiceName = ''SERVICE_NAME''"
definition MemberActiveKey :: string where "MemberActiveKey = ''rss-active-member''"
definition ClusterNameLabel :: string where "ClusterNameLabel = ''rss-cluster''"

definition PodRunning :: string where "PodRunning = ''Running''"
definition PodPending :: string where "PodPending = ''Pending''"

definition nilDeref :: string where
  "nilDeref = ''invalid memory address or nil pointer dereference''"

section \<open>Requests and answers\<close>

datatype effect =
    EPodGet string string
  | EPodList string string
  | EPodCreate string pod
  | EPodDelete string string
  | EPodPatch string string string
  | EExec string string string "string list" int64
  | EStsGet string string
  | EStsCreate string statefulset
  | EStsPatch string string string
  | ESvcGet string string
  | ESvcCreate string service
  | ESvcUpdate string service
  | ESecretGet string string
  | ESecretCreate string secret
  | ECRGet string string
  | ECRUpdate string rss

type_synonym history = "effect list"

record kube =
  pod_get :: "history \<Rightarrow> string \<Rightarrow> string \<Rightarrow> go_error + pod"
  pod_list :: "history \<Rightarrow> string \<Rightarrow> string \<Rightarrow> go_error + pod list"
  pod_create :: "history \<Rightarrow> string \<Rightarrow> pod \<Rightarrow> go_error option"
  pod_delete :: "history \<Rightarrow> string \<Rightarrow> string \<Rightarrow> go_error option"
  pod_patch :: "history \<Rightarrow> string \<Rightarrow> string \<Rightarrow> string \<Rightarrow> go_error option"
  exec_stream :: "history \<Rightarrow> string \<Rightarrow> string \<Rightarrow> string \<Rightarrow> string list \<Rightarrow> int64 \<Rightarrow> string \<times> string \<times> go_error option"
  exec_config :: "history \<Rightarrow> go_error option"
  sts_get :: "history \<Rightarrow> string \<Rightarrow> string \<Rightarrow> go_error + statefulset"
  sts_create :: "history \<Rightarrow> string \<Rightarrow> statefulset \<Rightarrow> go_error option"
  sts_patch :: "history \<Rightarrow> string \<Rightarrow> string \<Rightarrow> string \<Rightarrow> go_error option"
  svc_get :: "history \<Rightarrow> string \<Rightarrow> string \<Rightarrow> go_error + service"
  svc_create :: "history \<Rightarrow> string \<Rightarrow> service \<Rightarrow> go_error option"
  svc_update :: "history \<Rightarrow> string \<Rightarrow> service \<Rightarrow> go_error option"
  secret_get :: "history \<Rightarrow> string \<Rightarrow> string \<Rightarrow> go_error + secret"
  secret_create :: "history \<Rightarrow> string \<Rightarrow> secret \<Rightarrow> go_error option"
  cr_get :: "history \<Rightarrow> string \<Rightarrow> string \<Rightarrow> go_error + rss"
  cr_update :: "history \<Rightarrow> string \<Rightarrow> rss \<Rightarrow> go_error + rss"
  json_pod :: "pod \<Rightarrow> go_error + string"
  json_sts :: "statefulset \<Rightarrow> go_error + string"
  two_way_merge_patch :: "string \<Rightarrow> string \<Rightarrow> string \<Rightarrow> go_error + string"
  yaml_marshal :: "(string \<times> string) list \<Rightarrow> go_error + string"
  sha256_hex :: "string \<Rightarrow> string"
  json_config_maps :: "(string \<times> string) list \<Rightarrow> go_error + string"
  tls_os :: osenv
  tls_fs :: "history \<Rightarrow> fs"
  now_text :: "history \<Rightarrow> string"
  map_order :: "history \<Rightarrow> string \<Rightarrow> string list"

section \<open>The cluster object\<close>

text \<open>
  \<^verbatim>\<open>Cluster\<close> of pkg/cluster/cluster.go: the resource, the status that is the source of truth, the
  members (\<open>None\<close> for a nil map), whether the connection of the exec context has been set up, the
  buffered events and the stop channel. \<open>CmapStore\<close> is the store of the informer of configuration maps. The
  logger and the clients have no state the operator reads; the requests made through them are in \<open>Trace\<close>.
\<close>

record clusterevent =
  EventTyp :: string
  EventRss :: rss

record cluster =
  CRss :: rss
  CStatus :: clusterstatus
  Peers :: "memberset option"
  ExecReady :: bool
  TlsReady :: bool
  CmapStore :: "configmap list"
  EventCh :: "clusterevent list"
  StopClosed :: bool
  Trace :: history

definition peerset :: "cluster \<Rightarrow> memberset" where
  "peerset c = (case Peers c of None \<Rightarrow> [] | Some ms \<Rightarrow> ms)"

definition request :: "effect \<Rightarrow> cluster \<Rightarrow> cluster" where
  "request e c = c\<lparr>Trace := Trace c @ [e]\<rparr>"

text \<open>The keys of the members in the order of a range statement, named by its function.\<close>

definition peer_order :: "kube \<Rightarrow> string \<Rightarrow> cluster \<Rightarrow> string list" where
  "peer_order E site c = range_keys (map_order E (Trace c) site) (map fst (peerset c))"

text \<open>An assignment through the pointer to the member stored under the key.\<close>

definition set_member :: "string \<Rightarrow> (member \<Rightarrow> member) \<Rightarrow> cluster \<Rightarrow> cluster go" where
  "set_member k f c =
     go_bind (ms_modify k f (peerset c)) (\<lambda>ms. Ret (c\<lparr>Peers := Some ms\<rparr>))"

abbreviation Namespace :: "cluster \<Rightarrow> string" where "Namespace c \<equiv> RssNamespace (CRss c)"

section \<open>Helpers of k8sutil\<close>

definition GetPodNames :: "pod list \<Rightarrow> string slice" where
  "GetPodNames pods =
     (if length pods = 0 then None else Some (map (\<lambda>p. ObjName (PodMeta p)) pods))"

definition PresentIn :: "string \<Rightarrow> string list \<Rightarrow> bool" where
  "PresentIn a l = list_ex (\<lambda>x. a = x) l"

definition ImageName :: "string \<Rightarrow> string \<Rightarrow> string" where
  "ImageName baseImage version = baseImage @ '':v'' @ version"

definition PodWithNodeSelector :: "pod \<Rightarrow> string gomap \<Rightarrow> pod" where
  "PodWithNodeSelector p ns = p\<lparr>PodSpec := (PodSpec p)\<lparr>PodSpecNodeSelector := ns\<rparr>\<rparr>"

definition AddOwnerRefToObject :: "objmeta \<Rightarrow> ownerref \<Rightarrow> objmeta" where
  "AddOwnerRefToObject o' r = o'\<lparr>OwnerReferences := OwnerReferences o' @ [r]\<rparr>"

definition LabelsForCluster :: "string \<Rightarrow> (string \<times> string) list" where
  "LabelsForCluster clusterName = [(''app'', clusterName), (''rss-operator-managed'', ''true'')]"

definition LabelsForActiveCluster :: "string \<Rightarrow> (string \<times> string) list" where
  "LabelsForActiveCluster clusterName = AList.update MemberActiveKey ''true'' (LabelsForCluster clusterName)"

text \<open>The map of labels is visited in any order; the text does not depend on it (see below).\<close>

definition ClusterListOpt :: "string \<Rightarrow> string" where
  "ClusterListOpt clusterName = selectorString (SelectorFromSet [] (LabelsForCluster clusterName))"

text \<open>\<^verbatim>\<open>CreatePatch\<close>, with the JSON encoder and the strategic merge patch of the type of its arguments.\<close>

definition CreatePatch :: "('a \<Rightarrow> go_error + string) \<Rightarrow> (string \<Rightarrow> string \<Rightarrow> go_error + string) \<Rightarrow> 'a \<Rightarrow> 'a \<Rightarrow> go_error + string" where
  "CreatePatch marshal mergePatch o' n =
     (case marshal o' of
        Inl err \<Rightarrow> Inl err
      | Inr oldData \<Rightarrow> (case marshal n of Inl err \<Rightarrow> Inl err | Inr newData \<Rightarrow> mergePatch oldData newData))"

definition create_patch_pod :: "kube \<Rightarrow> pod \<Rightarrow> pod \<Rightarrow> go_error + string" where
  "create_patch_pod E = CreatePatch (json_pod E) (two_way_merge_patch E ''Pod'')"

definition create_patch_sts :: "kube \<Rightarrow> statefulset \<Rightarrow> statefulset \<Rightarrow> go_error + string" where
  "create_patch_sts E = CreatePatch (json_sts E) (two_way_merge_patch E ''StatefulSet'')"

text \<open>
  \<^verbatim>\<open>PatchDeployment\<close>, which nothing in the operator calls: what reading the deployment gives, how it is encoded
  and what the API answers to a patch are arguments; the patches sent are part of the result.
\<close>

definition PatchDeployment :: "(go_error + 'd) \<Rightarrow> ('d \<Rightarrow> go_error + string) \<Rightarrow> (string \<Rightarrow> string \<Rightarrow> go_error + string) \<Rightarrow>
    (string \<Rightarrow> go_error option) \<Rightarrow> ('d \<Rightarrow> 'd) \<Rightarrow> go_error option \<times> string list" where
  "PatchDeployment got marshal mergePatch answer updateFunc =
     (case got of
        Inl err \<Rightarrow> (Some err, [])
      | Inr od \<Rightarrow>
          (case CreatePatch marshal mergePatch od (updateFunc od) of
             Inl err \<Rightarrow> (Some err, [])
           | Inr patchData \<Rightarrow> (answer patchData, [patchData])))"

record deleteoptions =
  GracePeriodSeconds :: "int64 option"
  PropagationPolicy :: "string option"

definition CascadeDeleteOptions :: "int64 \<Rightarrow> deleteoptions" where
  "CascadeDeleteOptions gracePeriodSeconds = \<lparr>GracePeriodSeconds = Some gracePeriodSeconds, PropagationPolicy = Some ''Foreground''\<rparr>"

text \<open>\<^verbatim>\<open>GetPodsForStatefulSet\<close>, with the namespace and the selector of the stateful set.\<close>

definition GetPodsForStatefulSet :: "kube \<Rightarrow> string \<Rightarrow> labelselector option \<Rightarrow> history \<Rightarrow> (go_error + pod list) \<times> history" where
  "GetPodsForStatefulSet E ns selector h =
     (case LabelSelectorAsSelector (map_order E h ''LabelSelectorAsSelector'') selector of
        Inl err \<Rightarrow> (Inl err, h)
      | Inr sel \<Rightarrow> (pod_list E h ns (selectorString sel), h @ [EPodList ns (selectorString sel)]))"

fun getPodReadyCondition :: "podcondition list \<Rightarrow> podcondition option" where
  "getPodReadyCondition [] = None"
| "getPodReadyCondition (c # cs) = (if PodCondType c = ''Ready'' then Some c else getPodReadyCondition cs)"

definition IsPodReady :: "pod \<Rightarrow> bool" where
  "IsPodReady p =
     (case getPodReadyCondition (PodConditions p) of
        None \<Rightarrow> False | Some c \<Rightarrow> PodCondStatus c = ConditionTrue)"

fun IsNodeReady :: "podcondition list \<Rightarrow> bool" where
  "IsNodeReady [] = False"
| "IsNodeReady (cd # cds) =
     (if PodCondType cd = ''Ready'' then PodCondStatus cd = ConditionTrue else IsNodeReady cds)"

text \<open>
  \<^verbatim>\<open>GetStatefulSet\<close> and the other getters: on an error client-go still returns an object, with
  every field zero.
\<close>

definition GetStatefulSetUID :: "kube \<Rightarrow> string \<Rightarrow> string \<Rightarrow> cluster \<Rightarrow> string \<times> cluster" where
  "GetStatefulSetUID E ns name c =
     (case sts_get E (Trace c) ns name of Inl _ \<Rightarrow> [] | Inr sts \<Rightarrow> UID (StsMeta sts), request (EStsGet ns name) c)"

definition CreateOrUpdateService :: "kube \<Rightarrow> service \<Rightarrow> cluster \<Rightarrow> go_error option \<times> cluster" where
  "CreateOrUpdateService E svc c =
     (let ns = Namespace c; name = ObjName (SvcMeta svc); c1 = request (ESvcGet ns name) c
      in case svc_get E (Trace c) ns name of
           Inl err \<Rightarrow>
             if \<not> IsNotFound (Some err) then (Some (WithMessage err ''retrieving service object failed''), c1)
             else (case svc_create E (Trace c1) ns svc of
                     Some err' \<Rightarrow> (Some (WithMessage err' ''creating service object failed''), request (ESvcCreate ns svc) c1)
                   | None \<Rightarrow> (None, request (ESvcCreate ns svc) c1))
         | Inr old \<Rightarrow>
             (let svc' = svc\<lparr>SvcMeta := (SvcMeta svc)\<lparr>ResourceVersion := ResourceVersion (SvcMeta old)\<rparr>\<rparr>;
                  err = svc_update E (Trace c1) ns svc';
                  c2 = request (ESvcUpdate ns svc') c1
              in if err \<noteq> None \<and> \<not> IsNotFound err
                 then (Some (WithMessage (the err) ''updating service object failed''), c2)
                 else (None, c2)))"


text \<open>A missing entry of the secret's data is the empty text.\<close>

definition data_at :: "string gomap \<Rightarrow> string \<Rightarrow> string" where
  "data_at m k = (case gm_get m k of None \<Rightarrow> [] | Some v \<Rightarrow> v)"

definition GetTLSDataFromSecret ::
  "kube \<Rightarrow> string \<Rightarrow> string \<Rightarrow> cluster \<Rightarrow> (go_error + string \<times> string \<times> string) \<times> cluster" where
  "GetTLSDataFromSecret E ns se c =
     ((case secret_get E (Trace c) ns se of
         Inl err \<Rightarrow> Inl err
       | Inr sec \<Rightarrow> Inr (data_at (SecretData sec) CliCertFile, data_at (SecretData sec) CliKeyFile,
                        data_at (SecretData sec) CliCAFile)),
      request (ESecretGet ns se) c)"

section \<open>Running a command in a container\<close>

text \<open>
  \<^verbatim>\<open>setupContext\<close>: loading the connection settings can fail, and succeeds once and for all.
\<close>

definition setupContext :: "kube \<Rightarrow> cluster \<Rightarrow> go_error option \<times> cluster" where
  "setupContext E c =
     (if ExecReady c then (None, c)
      else case exec_config E (Trace c) of
             Some err \<Rightarrow> (Some (ErrNew (''No config available: '' @ Error err)), c)
           | None \<Rightarrow> (None, c\<lparr>ExecReady := True\<rparr>))"

record execoptions =
  ExecCommand :: "string list"
  ExecNamespace :: string
  ExecPodName :: string
  ExecContainerName :: string
  ExecTimeout :: int64
  PreserveWhitespace :: bool

text \<open>The stream itself, once the container is known.\<close>

definition streamExec :: "kube \<Rightarrow> execoptions \<Rightarrow> cluster \<Rightarrow> (string \<times> string \<times> go_error option) \<times> cluster" where
  "streamExec E opts c =
     (let (out, errout, err) = exec_stream E (Trace c) (ExecNamespace opts) (ExecPodName opts)
            (ExecContainerName opts) (ExecCommand opts) (ExecTimeout opts);
          c' = request (EExec (ExecNamespace opts) (ExecPodName opts) (ExecContainerName opts)
                 (ExecCommand opts) (ExecTimeout opts)) c
      in if PreserveWhitespace opts then ((out, errout, err), c')
         else ((TrimSpace out, TrimSpace errout, err), c'))"

definition ExecWithOptions :: "kube \<Rightarrow> execoptions \<Rightarrow> cluster \<Rightarrow> (string \<times> string \<times> go_error option) \<times> cluster" where
  "ExecWithOptions E opts c =
     (case setupContext E c of
        (Some err, c0) \<Rightarrow> (([], [], Some err), c0)
      | (None, c0) \<Rightarrow>
          if ExecContainerName opts = [] then
            (let ns = ExecNamespace opts; name = ExecPodName opts; c1 = request (EPodGet ns name) c0
             in case pod_get E (Trace c0) ns name of
                  Inl err \<Rightarrow> (([], [], None), c1)
                | Inr p \<Rightarrow>
                    (case PodContainers (PodSpec p) of
                       [] \<Rightarrow> (([], [], None), c1)
                     | ctr # _ \<Rightarrow> streamExec E (opts\<lparr>ExecContainerName := ContainerName ctr\<rparr>) c1))
          else streamExec E opts c0)"

definition ExecCommandInContainer ::
  "kube \<Rightarrow> string \<Rightarrow> string \<Rightarrow> string \<Rightarrow> string list \<Rightarrow> cluster \<Rightarrow> (string \<times> string \<times> go_error option) \<times> cluster" where
  "ExecCommandInContainer E ns podName containerName cmd c =
     ExecWithOptions E \<lparr>ExecCommand = cmd, ExecNamespace = ns, ExecPodName = podName,
       ExecContainerName = containerName, ExecTimeout = 0, PreserveWhitespace = False\<rparr> c"

definition ExecCommandInPod ::
  "kube \<Rightarrow> string \<Rightarrow> string \<Rightarrow> string list \<Rightarrow> cluster \<Rightarrow> (string \<times> string \<times> go_error option) \<times> cluster" where
  "ExecCommandInPod E ns podName cmd c = ExecCommandInContainer E ns podName [] cmd c"

section \<open>The pods of a cluster\<close>

lemma LabelsForCluster_keys [simp]: "distinct (map fst (LabelsForCluster n))"
  by (simp add: LabelsForCluster_def)

lemma LabelsForCluster_sorted: "sort_key fst (LabelsForCluster n) = LabelsForCluster n"
  by (simp add: LabelsForCluster_def)

lemma LabelsForCluster_valid: "list_all validLabel (LabelsForCluster n) \<longleftrightarrow> IsValidLabelValue n = []"
proof -
  have "IsQualifiedName ''app'' = []" "IsQualifiedName ''rss-operator-managed'' = []" "IsValidLabelValue ''true'' = []"
    by code_simp+
  then show ?thesis by (simp add: LabelsForCluster_def validLabel_def)
qed

text \<open>
  C11. The option with which the pods of a cluster are listed selects exactly the objects with both labels of the
  cluster, in whatever order the labels are visited, when the name of the cluster is a valid label value. Names of
  resources may be longer than label values; for a name that is not a valid value the option is empty and selects
  every object.
\<close>

theorem cluster_list_option:
  "if IsValidLabelValue name = []
   then ClusterListOpt name = ''app='' @ name @ '',rss-operator-managed=true'' \<and>
     (\<forall>order ls. selectorMatches (SelectorFromSet order (LabelsForCluster name)) ls \<longleftrightarrow>
        gm_get ls ''app'' = Some name \<and> gm_get ls ''rss-operator-managed'' = Some ''true'')
   else ClusterListOpt name = [] \<and> (\<forall>order ls. selectorMatches (SelectorFromSet order (LabelsForCluster name)) ls)"
proof (cases "IsValidLabelValue name = []")
  case True
  then have "list_all validLabel (LabelsForCluster name)" by (simp add: LabelsForCluster_valid)
  then show ?thesis
    using True SelectorFromSet_matches [of "LabelsForCluster name"]
    by (simp add: ClusterListOpt_def SelectorFromSet_order LabelsForCluster_sorted)
      (simp add: LabelsForCluster_def requirementString_def)
next
  case False
  then have "\<not> list_all validLabel (LabelsForCluster name)" by (simp add: LabelsForCluster_valid)
  from SelectorFromSet_invalid [OF LabelsForCluster_keys this] False show ?thesis by (auto simp: ClusterListOpt_def)
qed

section \<open>A concrete environment\<close>

text \<open>
  Every object exists and every request succeeds; commands print what \<open>outputs\<close> says for the pod
  and fail as \<open>failures\<close> says. The concrete examples of the development run in it.
\<close>

definition sample_podspec :: podspec where
  "sample_podspec = \<lparr>PodVolumes = [], PodContainers = [\<lparr>ContainerName = ''app'', Image = ''img'', Env = [],
     VolumeMounts = [], ContainerRest = []\<rparr>], PodSecurityContext = None, PodServiceAccountName = [],
     PodSpecNodeSelector = None, PodTolerations = [], PodAffinity = None,
     TerminationGracePeriodSeconds = None, PodAutomountToken = None\<rparr>"

definition sample_pod :: "string \<Rightarrow> string \<Rightarrow> pod" where
  "sample_pod ns name = \<lparr>PodMeta = zero_meta\<lparr>ObjName := name, ObjNamespace := ns, Labels := Some []\<rparr>,
     PodSpec = sample_podspec, PodPhase = PodRunning, PodConditions = []\<rparr>"

definition sample_sts :: "string \<Rightarrow> string \<Rightarrow> statefulset" where
  "sample_sts ns name = \<lparr>StsMeta = zero_meta\<lparr>ObjName := name, ObjNamespace := ns, UID := ''sts-uid''\<rparr>,
     StsSpec = \<lparr>StsServiceName = [], StsReplicas = Some 3, PodManagementPolicy = [],
       StsVolumeClaimTemplates = [], UpdateStrategy = [], TemplateMeta = zero_meta,
       TemplateSpec = sample_podspec\<rparr>\<rparr>"

definition sample_kube :: "(string \<Rightarrow> string) \<Rightarrow> (string \<Rightarrow> go_error option) \<Rightarrow> kube" where
  "sample_kube outputs failures = \<lparr>
     pod_get = (\<lambda>h ns name. Inr (sample_pod ns name)),
     pod_list = (\<lambda>h ns sel. Inr []),
     pod_create = (\<lambda>h ns p. None),
     pod_delete = (\<lambda>h ns name. None),
     pod_patch = (\<lambda>h ns name patch. None),
     exec_stream = (\<lambda>h ns name ctr cmd timeout. (outputs name, [], failures name)),
     exec_config = (\<lambda>h. None),
     sts_get = (\<lambda>h ns name. Inr (sample_sts ns name)),
     sts_create = (\<lambda>h ns sts. None),
     sts_patch = (\<lambda>h ns name patch. None),
     svc_get = (\<lambda>h ns name. Inl (StatusError NotFound ''not found'')),
     svc_create = (\<lambda>h ns svc. None),
     svc_update = (\<lambda>h ns svc. None),
     secret_get = (\<lambda>h ns name. Inl (StatusError NotFound ''not found'')),
     secret_create = (\<lambda>h ns s. None),
     cr_get = (\<lambda>h ns name. Inl (StatusError NotFound ''not found'')),
     cr_update = (\<lambda>h ns r. Inr r),
     json_pod = (\<lambda>p. Inr ''{}''),
     json_sts = (\<lambda>s. Inr ''{}''),
     two_way_merge_patch = (\<lambda>kind old new. Inr ''patch''),
     yaml_marshal = (\<lambda>kvs. Inr []),
     sha256_hex = (\<lambda>s. []),
     json_config_maps = (\<lambda>items. Inr []),
     tls_os = sample_os,
     tls_fs = (\<lambda>h. [(''/tmp'', DirNode 1023)]),
     now_text = (\<lambda>h. ''2018-01-01T00:00:00Z''),
     map_order = (\<lambda>h site. [])\<rparr>"

definition sample_cluster :: "rss \<Rightarrow> memberset \<Rightarrow> cluster" where
  "sample_cluster r ms = \<lparr>CRss = r, CStatus = Status r, Peers = Some ms, ExecReady = True, TlsReady = False, CmapStore = [],
     EventCh = [], StopClosed = False, Trace = []\<rparr>"

end
