(* ===== verification/ClusterCore.thy ===== *)
theory ClusterCore
  imports KubeEnv
begin

text \<open>
  What the cluster object does to one member (pkg/cluster/exec.go, replicate.go, reconcile.go) and
  to its own resource (\<^verbatim>\<open>updateCRStatus\<close> of cluster.go). A \<^verbatim>\<open>*Member\<close> argument is the key of the
  member in \<open>Peers\<close>, which holds under the key what the pointer points to. Log messages are not
  modelled, and neither is the flag of \<^verbatim>\<open>execute\<close> that only silences them.
\<close>

section \<open>Commands\<close>

definition commandFor :: "cluster \<Rightarrow> string \<Rightarrow> replicationcommand" where
  "commandFor c action =
     (case gm_get (Commands (Pod (Spec (CRss c)))) action of None \<Rightarrow> zero_command | Some cmd \<Rightarrow> cmd)"

definition appendPrimaries :: "kube \<Rightarrow> cluster \<Rightarrow> string list \<Rightarrow> string list" where
  "appendPrimaries E c cmd =
     fold (\<lambda>k acc.
         (case map_of (peerset c) k of
            Some m \<Rightarrow> if Online m \<and> AppPrimary m
                      then acc @ [MemberName m @ ''.'' @ ServiceName (CRss c)] else acc
          | None \<Rightarrow> acc))
       (peer_order E ''appendPrimaries'' c) cmd"

definition execute ::
  "kube \<Rightarrow> string \<Rightarrow> string \<Rightarrow> cluster \<Rightarrow> (string \<times> string \<times> go_error option \<times> int) \<times> cluster" where
  "execute E action podName c =
     (let cmd = commandFor c action;
          timeout = sanitiseTimeout (parseDuration (Timeout cmd));
          ((out, errout, err), c') = ExecWithOptions E
            \<lparr>ExecCommand = appendPrimaries E c (Command cmd), ExecNamespace = Namespace c,
             ExecPodName = podName, ExecContainerName = [], ExecTimeout = timeout,
             PreserveWhitespace = True\<rparr> c
      in case err of
           Some e \<Rightarrow>
             ((out, errout, Some (ErrNew (''Application '' @ action @ '' on pod '' @ podName @ '' failed: '' @ Error e)),
               parseExitCode err), c')
         | None \<Rightarrow> ((out, errout, None, 0), c'))"

section \<open>The resource\<close>

definition updateCRStatus :: "kube \<Rightarrow> string \<Rightarrow> cluster \<Rightarrow> go_error option \<times> cluster" where
  "updateCRStatus E prefix c =
     (if Status (CRss c) = CStatus c then (None, c)
      else
        (let newCluster = (CRss c)\<lparr>Status := CStatus c\<rparr>;
             c1 = request (ECRUpdate (Namespace c) newCluster) (c\<lparr>CRss := newCluster\<rparr>)
         in case cr_update E (Trace c) (Namespace c) newCluster of
              Inl err \<Rightarrow> (Some (ErrNew (prefix @ '': failed to update CR status: '' @ Error err)), c1)
            | Inr r \<Rightarrow> (None, c1\<lparr>CRss := r\<rparr>)))"

section \<open>One member\<close>

definition deref :: "string \<Rightarrow> cluster \<Rightarrow> member go" where
  "deref k c = (case map_of (peerset c) k of None \<Rightarrow> Panic nilDeref | Some m \<Rightarrow> Ret m)"

text \<open>The label of the pod that says whether the application is active on it.\<close>

definition tagAppMember :: "kube \<Rightarrow> string \<Rightarrow> bool \<Rightarrow> cluster \<Rightarrow> (go_error option \<times> cluster) go" where
  "tagAppMember E name online c =
     (let ns = Namespace c; c1 = request (EPodGet ns name) c
      in case pod_get E (Trace c) ns name of
           Inl err \<Rightarrow> Ret (Some err, c1)
         | Inr p \<Rightarrow>
             go_bind (gm_put MemberActiveKey (if online then ''true'' else ''false'') (Labels (PodMeta p)))
               (\<lambda>labels.
                  case create_patch_pod E p (p\<lparr>PodMeta := (PodMeta p)\<lparr>Labels := labels\<rparr>\<rparr>) of
                    Inl err \<Rightarrow> Ret (Some err, c1)
                  | Inr patchdata \<Rightarrow>
                      Ret (pod_patch E (Trace c1) ns name patchdata, request (EPodPatch ns name patchdata) c1)))"

definition startCommand :: "cluster \<Rightarrow> bool \<Rightarrow> int32 \<Rightarrow> string" where
  "startCommand c asPrimary primaries =
     (let has = (\<lambda>key. gm_get (Commands (Pod (Spec (CRss c)))) key \<noteq> None)
      in if asPrimary \<and> primaries = 0 \<and> has SeedCommandKey then SeedCommandKey
         else if \<not> asPrimary \<and> has SecondaryCommandKey then SecondaryCommandKey
         else PrimaryCommandKey)"

text \<open>What a failed command leaves on the member.\<close>

definition markFailed :: "member \<Rightarrow> member" where
  "markFailed m = m\<lparr>AppFailed := True, Failures := Failures m + 1\<rparr>"

definition startAppMember :: "kube \<Rightarrow> string \<Rightarrow> bool \<Rightarrow> cluster \<Rightarrow> (go_error option \<times> cluster) go" where
  "startAppMember E k asPrimary c =
     go_bind (deref k c) (\<lambda>m.
       let action = startCommand c asPrimary (AppPrimaries (peerset c));
           ((_, _, err, _), c1) = execute E action (MemberName m) c
       in if err \<noteq> None
          then go_bind (set_member k markFailed c1) (\<lambda>c2. Ret (err, c2))
          else go_bind (set_member k (\<lambda>m. m\<lparr>AppPrimary := asPrimary, AppRunning := True, AppFailed := False\<rparr>) c1)
                 (\<lambda>c2. go_bind (tagAppMember E (MemberName m) True c2) (\<lambda>(_, c3). Ret (None, c3))))"

definition stopAppMember :: "kube \<Rightarrow> string \<Rightarrow> cluster \<Rightarrow> (go_error option \<times> cluster) go" where
  "stopAppMember E k c =
     go_bind (deref k c) (\<lambda>m.
       go_bind (tagAppMember E (MemberName m) False c) (\<lambda>(_, c1).
         let ((_, _, err, _), c2) = execute E StopCommandKey (MemberName m) c1
         in if err \<noteq> None
            then go_bind (set_member k markFailed c2) (\<lambda>c3. Ret (err, c3))
            else go_bind (set_member k (\<lambda>m. m\<lparr>AppPrimary := False, AppRunning := False, AppFailed := False\<rparr>) c2)
                   (\<lambda>c3. Ret (None, c3))))"

text \<open>
  \<^verbatim>\<open>deleteMember\<close> formats its error with one verb and two arguments; \<^verbatim>\<open>fmt\<close> appends the extra
  one with its type.
\<close>

fun goType :: "go_error \<Rightarrow> string" where
  "goType (ErrNew _) = ''*errors.errorString''"
| "goType (FatalError _) = ''*cluster.fatalError''"
| "goType (RetryError _) = ''*util.RetryError''"
| "goType (StatusError _ _) = ''*errors.StatusError''"
| "goType (WithMessage _ _) = ''*errors.withStack''"

definition deleteMember :: "kube \<Rightarrow> string \<Rightarrow> cluster \<Rightarrow> (go_error option \<times> cluster) go" where
  "deleteMember E k c =
     go_bind (deref k c) (\<lambda>m.
       let ns = Namespace c; c1 = request (EPodDelete ns (MemberName m)) c
       in case pod_delete E (Trace c) ns (MemberName m) of
            Some err \<Rightarrow>
              Ret (Some (ErrNew (''reconcile: could not delete pod '' @ MemberName m @
                ''%!(EXTRA '' @ goType err @ ''='' @ Error err @ '')'')), c1)
          | None \<Rightarrow> go_bind (set_member k Offline c1) (\<lambda>c2. Ret (None, c2)))"

definition newMember :: "cluster \<Rightarrow> string \<Rightarrow> string \<Rightarrow> member" where
  "newMember c name namespace =
     zero_member\<lparr>MemberName := name,
       MemberNamespace := (if namespace = [] then Namespace c else namespace),
       SecurePeer := IsSecurePeer (TLS (Spec (CRss c))),
       SecureClient := IsSecureClient (TLS (Spec (CRss c)))\<rparr>"

definition podsToMemberSet :: "cluster \<Rightarrow> pod list \<Rightarrow> memberset" where
  "podsToMemberSet c pods =
     fold (\<lambda>p ms. AddMember ms ((newMember c (ObjName (PodMeta p)) (ObjNamespace (PodMeta p)))\<lparr>Online := True\<rparr>))
       pods []"

section \<open>Frame lemmas\<close>

text \<open>Executing a command and updating the resource leave the members alone.\<close>

lemma request_simps [simp]:
  "Peers (request e c) = Peers c" "CRss (request e c) = CRss c" "CStatus (request e c) = CStatus c"
  "Trace (request e c) = Trace c @ [e]" "ExecReady (request e c) = ExecReady c"
  "EventCh (request e c) = EventCh c" "StopClosed (request e c) = StopClosed c"
  by (simp_all add: request_def)

lemma peerset_simps [simp]:
  "peerset (c\<lparr>Peers := Some ms\<rparr>) = ms" "peerset (request e c) = peerset c"
  "peerset (c\<lparr>CRss := r\<rparr>) = peerset c" "peerset (c\<lparr>CStatus := s\<rparr>) = peerset c"
  by (simp_all add: peerset_def)

text \<open>Two clusters with the same members, resource, status and channels.\<close>

definition same_but_trace :: "cluster \<Rightarrow> cluster \<Rightarrow> bool" where
  "same_but_trace c c' =
     (Peers c' = Peers c \<and> CRss c' = CRss c \<and> CStatus c' = CStatus c \<and> EventCh c' = EventCh c \<and>
      StopClosed c' = StopClosed c)"

lemma same_but_trace_refl [simp]: "same_but_trace c c"
  by (simp add: same_but_trace_def)

lemma same_but_trace_request [simp]: "same_but_trace c (request e d) = same_but_trace c d"
  by (simp add: same_but_trace_def)

lemma same_but_trace_peerset: "same_but_trace c c' \<Longrightarrow> peerset c' = peerset c"
  by (simp add: same_but_trace_def peerset_def)

lemma setupContext_frame: "same_but_trace c (snd (setupContext E c))"
  by (auto simp: setupContext_def same_but_trace_def split: option.splits)

lemma streamExec_frame: "same_but_trace c (snd (streamExec E opts c))"
  by (simp add: streamExec_def Let_def split: prod.splits)

lemma same_but_trace_trans: "same_but_trace a b \<Longrightarrow> same_but_trace b c \<Longrightarrow> same_but_trace a c"
  by (simp add: same_but_trace_def)

lemma ExecWithOptions_frame: "same_but_trace c (snd (ExecWithOptions E opts c))"
proof -
  obtain e c0 where s: "setupContext E c = (e, c0)" by fastforce
  have "same_but_trace c c0" using setupContext_frame [of c E] s by simp
  moreover have "same_but_trace c0 (snd (streamExec E opts' d))" if "same_but_trace c0 d" for opts' d
    using same_but_trace_trans [OF that streamExec_frame] .
  ultimately have "same_but_trace c (snd (streamExec E opts' d))" if "same_but_trace c0 d" for opts' d
    using same_but_trace_trans that by blast
  with s \<open>same_but_trace c c0\<close> show ?thesis
    by (auto simp: ExecWithOptions_def Let_def split: option.splits sum.splits list.splits)
qed

lemma execute_frame: "same_but_trace c (snd (execute E action name c))"
  using ExecWithOptions_frame [of c E] by (auto simp: execute_def Let_def split: prod.splits option.splits) (metis snd_conv)+

lemma execute_peers [simp]: "execute E action name c = (r, c') \<Longrightarrow> peerset c' = peerset c"
  using execute_frame [of c E action name] same_but_trace_peerset by simp

section \<open>The contract of an operation on one member\<close>

text \<open>
  What the operator relies on: a pod it reads has labels. The pods of a stateful set carry those of
  its template, which \<^verbatim>\<open>mergeLabels\<close> always fills in.
\<close>

definition pods_labelled :: "kube \<Rightarrow> bool" where
  "pods_labelled E \<longleftrightarrow> (\<forall>h ns name p. pod_get E h ns name = Inr p \<longrightarrow> Labels (PodMeta p) \<noteq> None)"

text \<open>The members change under one key; resource, status and channels stay.\<close>

definition member_step :: "cluster \<Rightarrow> string \<Rightarrow> member \<Rightarrow> cluster \<Rightarrow> bool" where
  "member_step c k m' c' =
     same_but_trace (c\<lparr>Peers := Some (AList.update k m' (peerset c))\<rparr>) c'"

lemma member_step_peerset: "member_step c k m' c' \<Longrightarrow> peerset c' = AList.update k m' (peerset c)"
  by (simp add: member_step_def same_but_trace_def peerset_def)

lemma member_step_rss: "member_step c k m' c' \<Longrightarrow> CRss c' = CRss c \<and> CStatus c' = CStatus c"
  by (simp add: member_step_def same_but_trace_def)

lemma member_step_wf:
  "member_step c k m' c' \<Longrightarrow> ms_wf (peerset c) \<Longrightarrow> MemberName m' = k \<Longrightarrow> ms_wf (peerset c')"
  by (simp add: member_step_peerset ms_wf_update)

lemma member_step_keys:
  "member_step c k m' c' \<Longrightarrow> map_of (peerset c) k = Some m \<Longrightarrow> map fst (peerset c') = map fst (peerset c)"
  by (simp add: member_step_peerset keys_update_old)

lemma update_same: "map_of ms k = Some m \<Longrightarrow> AList.update k m ms = ms"
  by (induction ms) auto

lemma member_step_same: "map_of (peerset c) k = Some m \<Longrightarrow> same_but_trace c c' \<Longrightarrow> member_step c k m c'"
  by (cases "Peers c") (auto simp: member_step_def update_same peerset_def same_but_trace_def)

locale member_operation =
  fixes op :: "kube \<Rightarrow> string \<Rightarrow> cluster \<Rightarrow> (go_error option \<times> cluster) go"
    and on_ok :: "member \<Rightarrow> member" and on_fail :: "member \<Rightarrow> member"
  assumes op_spec: "pods_labelled E \<Longrightarrow> map_of (peerset c) k = Some m \<Longrightarrow>
      go_ok (\<lambda>(e, c'). member_step c k (if e = None then on_ok m else on_fail m) c' \<and> pred_option plain e)
        (op E k c)"
    and op_name: "MemberName (on_ok m) = MemberName m" "MemberName (on_fail m) = MemberName m"
begin

lemma op_wf:
  assumes "pods_labelled E" and "map_of (peerset c) k = Some m" and "ms_wf (peerset c)"
  shows "go_ok (\<lambda>(e, c'). ms_wf (peerset c') \<and> map fst (peerset c') = map fst (peerset c) \<and>
           map_of (peerset c') = (map_of (peerset c))(k \<mapsto> if e = None then on_ok m else on_fail m) \<and>
           CRss c' = CRss c \<and> CStatus c' = CStatus c) (op E k c)"
proof (rule go_ok_mono [OF op_spec [OF assms(1,2)]])
  fix r :: "go_error option \<times> cluster"
  obtain e c' where r: "r = (e, c')" by fastforce
  assume "case r of (e, c') \<Rightarrow> member_step c k (if e = None then on_ok m else on_fail m) c' \<and>
    pred_option plain e"
  then have s: "member_step c k (if e = None then on_ok m else on_fail m) c'" by (simp add: r)
  have "MemberName (if e = None then on_ok m else on_fail m) = k"
    using ms_wf_name [OF assms(3,2)] by (simp add: op_name)
  with s assms show "case r of (e, c') \<Rightarrow> ms_wf (peerset c') \<and> map fst (peerset c') = map fst (peerset c) \<and>
      map_of (peerset c') = (map_of (peerset c))(k \<mapsto> if e = None then on_ok m else on_fail m) \<and>
      CRss c' = CRss c \<and> CStatus c' = CStatus c"
    unfolding r prod.case
    by (intro conjI member_step_wf [OF s] member_step_keys [OF s])
       (simp_all add: member_step_peerset [OF s] member_step_rss [OF s])
qed

end

text \<open>The states the operations leave a member in.\<close>

definition started :: "bool \<Rightarrow> member \<Rightarrow> member" where
  "started asPrimary m = m\<lparr>AppPrimary := asPrimary, AppRunning := True, AppFailed := False\<rparr>"

definition stopped :: "member \<Rightarrow> member" where
  "stopped m = m\<lparr>AppPrimary := False, AppRunning := False, AppFailed := False\<rparr>"

lemma tagAppMember_spec:
  "pods_labelled E \<Longrightarrow> go_ok (\<lambda>(e, c'). same_but_trace c c') (tagAppMember E name online c)"
  by (fastforce simp: tagAppMember_def pods_labelled_def Let_def gm_put_def split: sum.splits option.splits)

lemma deref_Some [simp]: "map_of (peerset c) k = Some m \<Longrightarrow> deref k c = Ret m"
  by (simp add: deref_def)

lemma set_member_Some:
  "map_of (peerset c) k = Some m \<Longrightarrow> set_member k f c = Ret (c\<lparr>Peers := Some (AList.update k (f m) (peerset c))\<rparr>)"
  by (simp add: set_member_def ms_modify_Some)

text \<open>An assignment to the member after a call that left everything but the trace alone.\<close>

lemma set_member_after:
  assumes "map_of (peerset c) k = Some m" and "same_but_trace c c1"
  obtains c2 where "set_member k f c1 = Ret c2" "member_step c k (f m) c2"
  using assms that same_but_trace_peerset [OF assms(2)]
  by (auto simp: set_member_Some member_step_def same_but_trace_def)

lemma member_step_trace: "member_step c k m c1 \<Longrightarrow> same_but_trace c1 c2 \<Longrightarrow> member_step c k m c2"
  unfolding member_step_def by (rule same_but_trace_trans)

lemma execute_plain: "execute E action name c = ((out, errout, Some e, rc), c') \<Longrightarrow> plain e"
  by (auto simp: execute_def Let_def split: prod.splits option.splits)

lemma startAppMember_spec:
  assumes "pods_labelled E" and m: "map_of (peerset c) k = Some m"
  shows "go_ok (\<lambda>(e, c'). member_step c k (if e = None then started asPrimary m else markFailed m) c' \<and>
           pred_option plain e) (startAppMember E k asPrimary c)"
proof -
  obtain out errout err rc c1 where
    x: "execute E (startCommand c asPrimary (AppPrimaries (peerset c))) (MemberName m) c = ((out, errout, err, rc), c1)"
    by (metis prod.exhaust)
  have c1: "same_but_trace c c1" using execute_frame x by (metis snd_conv)
  show ?thesis
  proof (cases err)
    case (Some e)
    obtain c2 where "set_member k markFailed c1 = Ret c2" "member_step c k (markFailed m) c2"
      by (rule set_member_after [OF m c1])
    with Some m x execute_plain [of E _ "MemberName m" c] show ?thesis
      by (simp add: startAppMember_def Let_def)
  next
    case None
    obtain c2 where "set_member k (\<lambda>m. m\<lparr>AppPrimary := asPrimary, AppRunning := True, AppFailed := False\<rparr>) c1 = Ret c2"
      and c2: "member_step c k (started asPrimary m) c2"
      unfolding started_def by (rule set_member_after [OF m c1])
    with None m x tagAppMember_spec [OF assms(1), of c2 "MemberName m" True] show ?thesis
      by (auto simp: startAppMember_def Let_def elim!: go_ok_bind intro: member_step_trace)
  qed
qed

lemma stopAppMember_spec:
  assumes "pods_labelled E" and m: "map_of (peerset c) k = Some m"
  shows "go_ok (\<lambda>(e, c'). member_step c k (if e = None then stopped m else markFailed m) c' \<and>
           pred_option plain e) (stopAppMember E k c)"
proof -
  have "go_ok (\<lambda>(e, c'). member_step c k (if e = None then stopped m else markFailed m) c' \<and>
           pred_option plain e)
         (let ((_, _, err, _), c2) = execute E StopCommandKey (MemberName m) c1
          in if err \<noteq> None
             then go_bind (set_member k markFailed c2) (\<lambda>c3. Ret (err, c3))
             else go_bind (set_member k (\<lambda>m. m\<lparr>AppPrimary := False, AppRunning := False, AppFailed := False\<rparr>) c2)
                    (\<lambda>c3. Ret (None, c3)))"
    if "same_but_trace c c1" for c1
  proof -
    obtain out errout err rc c2 where x: "execute E StopCommandKey (MemberName m) c1 = ((out, errout, err, rc), c2)"
      by (metis prod.exhaust)
    have c2: "same_but_trace c c2"
      using execute_frame x that same_but_trace_trans by (metis snd_conv)
    obtain cf where "set_member k markFailed c2 = Ret cf" "member_step c k (markFailed m) cf"
      by (rule set_member_after [OF m c2])
    moreover obtain cs where
      "set_member k (\<lambda>m. m\<lparr>AppPrimary := False, AppRunning := False, AppFailed := False\<rparr>) c2 = Ret cs"
      "member_step c k (stopped m) cs"
      unfolding stopped_def by (rule set_member_after [OF m c2])
    ultimately show ?thesis
      using x execute_plain [of E StopCommandKey "MemberName m" c1] by (cases err) (simp_all add: Let_def)
  qed
  then show ?thesis
    using m unfolding stopAppMember_def
    by (auto intro!: go_ok_bind [OF tagAppMember_spec [OF assms(1)]])
qed

lemma deleteMember_spec:
  assumes m: "map_of (peerset c) k = Some m"
  shows "go_ok (\<lambda>(e, c'). member_step c k (if e = None then Offline m else m) c' \<and>
           pred_option plain e) (deleteMember E k c)"
proof -
  let ?c = "request (EPodDelete (Namespace c) (MemberName m)) c"
  obtain c2 where "set_member k Offline ?c = Ret c2" "member_step c k (Offline m) c2"
    by (rule set_member_after [OF m, of ?c]) simp
  moreover have "member_step c k m ?c" by (rule member_step_same [OF m]) simp
  ultimately show ?thesis using m by (simp add: deleteMember_def Let_def split: option.splits)
qed

interpretation start_op: member_operation "\<lambda>E k. startAppMember E k asPrimary" "started asPrimary" markFailed for asPrimary
  by unfold_locales (auto simp: started_def markFailed_def intro: startAppMember_spec)

interpretation stop_op: member_operation stopAppMember stopped markFailed
  by unfold_locales (auto simp: stopped_def markFailed_def intro: stopAppMember_spec)

interpretation delete_op: member_operation deleteMember Offline "\<lambda>m. m"
  by unfold_locales (auto simp: Offline_def intro: deleteMember_spec)

lemma pods_labelled_sample [simp]: "pods_labelled (sample_kube out fl)"
  by (simp add: pods_labelled_def sample_kube_def sample_pod_def)

section \<open>Loops over the members\<close>

text \<open>
  A loop over distinct keys whose body changes only the member under the key it is at relates
  every visited member to its old value and leaves the others alone. The relation may depend on
  the state reached, as long as later steps keep it.
\<close>

definition keeps :: "('s \<Rightarrow> member \<Rightarrow> member \<Rightarrow> bool) \<Rightarrow> 's \<Rightarrow> 's \<Rightarrow> bool" where
  "keeps R s s' \<longleftrightarrow> (\<forall>a b. R s a b \<longrightarrow> R s' a b)"

definition related :: "('s \<Rightarrow> memberset) \<Rightarrow> ('s \<Rightarrow> member \<Rightarrow> member \<Rightarrow> bool) \<Rightarrow> string set \<Rightarrow> 's \<Rightarrow> 's \<Rightarrow> bool" where
  "related ps R K s s' \<longleftrightarrow>
     (\<forall>k. if k \<in> K then \<exists>m m'. map_of (ps s) k = Some m \<and> map_of (ps s') k = Some m' \<and> R s' m m'
          else map_of (ps s') k = map_of (ps s) k)"

lemma related_insert:
  assumes "map_of (ps s) k = Some m" and "R s1 m m'" and "map_of (ps s1) = (map_of (ps s))(k \<mapsto> m')"
    and "keeps R s1 s'" and "related ps R K s1 s'" and "k \<notin> K"
  shows "related ps R (insert k K) s s'"
  unfolding related_def
proof
  fix j
  show "if j \<in> insert k K then \<exists>m m'. map_of (ps s) j = Some m \<and> map_of (ps s') j = Some m' \<and> R s' m m'
        else map_of (ps s') j = map_of (ps s) j"
    using assms(5) [unfolded related_def, rule_format, of j] assms(1-4,6)
    by (auto simp: keeps_def split: if_splits)
qed

lemma go_for_pointwise:
  assumes "distinct ks" and "\<And>k. k \<in> set ks \<Longrightarrow> map_of (ps s) k \<noteq> None" and "I s"
    and body: "\<And>k s m. k \<in> set ks \<Longrightarrow> I s \<Longrightarrow> map_of (ps s) k = Some m \<Longrightarrow>
      go_ok (\<lambda>s'. I s' \<and> keeps R s s' \<and> (\<exists>m'. R s' m m' \<and> map_of (ps s') = (map_of (ps s))(k \<mapsto> m'))) (f k s)"
  shows "go_ok (\<lambda>s'. I s' \<and> keeps R s s' \<and> related ps R (set ks) s s') (go_for f ks s)"
  using assms
proof (induction ks arbitrary: s)
  case Nil
  then show ?case by (simp add: keeps_def related_def)
next
  case (Cons k ks)
  from Cons.prems(2) [of k] obtain m where m: "map_of (ps s) k = Some m" by auto
  have "go_ok (\<lambda>s'. I s' \<and> keeps R s s' \<and> (\<exists>m'. R s' m m' \<and> map_of (ps s') = (map_of (ps s))(k \<mapsto> m'))) (f k s)"
    using Cons.prems(3) m by (intro Cons.prems(4)) simp_all
  then show ?case unfolding go_for.simps
  proof (rule go_ok_bind)
    fix s1 assume "I s1 \<and> keeps R s s1 \<and> (\<exists>m'. R s1 m m' \<and> map_of (ps s1) = (map_of (ps s))(k \<mapsto> m'))"
    then obtain m' where s1: "I s1" "keeps R s s1" "R s1 m m'" "map_of (ps s1) = (map_of (ps s))(k \<mapsto> m')" by blast
    have "go_ok (\<lambda>s'. I s' \<and> keeps R s1 s' \<and> related ps R (set ks) s1 s') (go_for f ks s1)"
      using Cons.prems s1 by (intro Cons.IH) auto
    then show "go_ok (\<lambda>s'. I s' \<and> keeps R s s' \<and> related ps R (set (k # ks)) s s') (go_for f ks s1)"
    proof (rule go_ok_mono)
      fix s' assume s': "I s' \<and> keeps R s1 s' \<and> related ps R (set ks) s1 s'"
      moreover have "keeps R s s'" using s' s1(2) by (simp add: keeps_def)
      moreover have "related ps R (set (k # ks)) s s'"
        using related_insert [where ps = ps and R = R, OF m s1(3,4)] s' Cons.prems(1) by simp
      ultimately show "I s' \<and> keeps R s s' \<and> related ps R (set (k # ks)) s s'" by blast
    qed
  qed
qed

lemma related_all:
  "related ps R {k. map_of (ps s) k \<noteq> None} s s' \<Longrightarrow> rel_option (R s') (map_of (ps s) k) (map_of (ps s') k)"
  unfolding related_def by (drule spec [of _ k]) (auto split: if_splits)

text \<open>The range over the members visits each of them once.\<close>

lemma peer_order_props:
  assumes "ms_wf (peerset c)"
  shows "distinct (peer_order E site c)" "set (peer_order E site c) = {k. map_of (peerset c) k \<noteq> None}"
  using ms_wf_distinct [OF assms]
  by (auto simp: peer_order_def map_of_eq_None_iff image_iff)

section \<open>Requests of the operations\<close>

text \<open>The pod \<open>p\<close> is there, labelled, with a first container, and can be patched.\<close>

definition pod_there :: "kube \<Rightarrow> string \<Rightarrow> string \<Rightarrow> container \<Rightarrow> bool" where
  "pod_there E ns name ctr \<longleftrightarrow>
     (\<exists>p ls rest. (\<forall>h. pod_get E h ns name = Inr p) \<and> Labels (PodMeta p) = Some ls \<and>
        PodContainers (PodSpec p) = ctr # rest \<and> (\<forall>q. \<exists>d. create_patch_pod E p q = Inr d))"

definition pod_missing :: "kube \<Rightarrow> string \<Rightarrow> string \<Rightarrow> bool" where
  "pod_missing E ns name \<longleftrightarrow> (\<forall>h. \<exists>err. pod_get E h ns name = Inl err)"

text \<open>The request with which a command is run on a member.\<close>

definition exec_request :: "kube \<Rightarrow> string \<Rightarrow> string \<Rightarrow> container \<Rightarrow> cluster \<Rightarrow> effect" where
  "exec_request E action name ctr c =
     EExec (Namespace c) name (ContainerName ctr) (appendPrimaries E c (Command (commandFor c action)))
       (sanitiseTimeout (parseDuration (Timeout (commandFor c action))))"

lemma execute_present:
  assumes "ExecReady c" and "pod_there E (Namespace c) name ctr"
  shows "\<exists>out errout err rc. execute E action name c = ((out, errout, err, rc),
           request (exec_request E action name ctr c) (request (EPodGet (Namespace c) name) c))"
  using assms
  by (auto simp: execute_def ExecWithOptions_def setupContext_def pod_there_def streamExec_def
      exec_request_def Let_def split: prod.splits option.splits)

lemma execute_missing:
  assumes "ExecReady c" and "pod_missing E (Namespace c) name"
  shows "execute E action name c = (([], [], None, 0), request (EPodGet (Namespace c) name) c)"
  using assms
  by (auto simp: execute_def ExecWithOptions_def setupContext_def pod_missing_def Let_def
      split: sum.splits) (metis sum.distinct(1))

lemma tag_present:
  assumes "pod_there E (Namespace c) name ctr"
  shows "\<exists>e d. tagAppMember E name online c =
           Ret (e, request (EPodPatch (Namespace c) name d) (request (EPodGet (Namespace c) name) c))"
proof -
  from assms obtain p ls where p: "pod_get E (Trace c) (Namespace c) name = Inr p" "Labels (PodMeta p) = Some ls"
    and patch: "\<And>q. \<exists>d. create_patch_pod E p q = Inr d"
    unfolding pod_there_def by blast
  obtain d where "create_patch_pod E p (p\<lparr>PodMeta := (PodMeta p)\<lparr>Labels :=
      Some (AList.update MemberActiveKey (if online then ''true'' else ''false'') ls)\<rparr>\<rparr>) = Inr d"
    using patch by blast
  with p show ?thesis by (simp add: tagAppMember_def gm_put_def Let_def) blast
qed

lemma tag_missing:
  assumes "pod_missing E (Namespace c) name"
  shows "\<exists>e. tagAppMember E name online c = Ret (e, request (EPodGet (Namespace c) name) c)"
proof -
  from assms obtain err where "pod_get E (Trace c) (Namespace c) name = Inl err"
    unfolding pod_missing_def by blast
  then show ?thesis by (simp add: tagAppMember_def Let_def)
qed

lemma set_member_simps:
  "set_member k f c = Ret c' \<Longrightarrow> Trace c' = Trace c \<and> CRss c' = CRss c \<and> CStatus c' = CStatus c \<and> ExecReady c' = ExecReady c"
  by (auto simp: set_member_def go_bind_Ret_iff)

section \<open>Properties\<close>

text \<open>
  C13. Starting, stopping and deleting a member never panic when pods carry labels. They change the
  record of that member and nothing else of the cluster: a start that succeeds marks it running with
  the requested role, a stop clears its state, a failed command marks it failed and counts the
  failure, a deletion takes it offline, and a failed deletion changes nothing.
\<close>

theorem member_operations_effect:
  assumes "pods_labelled E" and "ms_wf (peerset c)" and "map_of (peerset c) k = Some m"
  shows "go_ok (\<lambda>(e, c'). map_of (peerset c') = (map_of (peerset c))(k \<mapsto> if e = None then started prim m else markFailed m) \<and>
             CRss c' = CRss c \<and> CStatus c' = CStatus c) (startAppMember E k prim c) \<and>
         go_ok (\<lambda>(e, c'). map_of (peerset c') = (map_of (peerset c))(k \<mapsto> if e = None then stopped m else markFailed m) \<and>
             CRss c' = CRss c \<and> CStatus c' = CStatus c) (stopAppMember E k c) \<and>
         go_ok (\<lambda>(e, c'). map_of (peerset c') = (map_of (peerset c))(k \<mapsto> if e = None then Offline m else m) \<and>
             CRss c' = CRss c \<and> CStatus c' = CStatus c) (deleteMember E k c)"
  using start_op.op_wf [OF assms(1,3,2), of prim] stop_op.op_wf [OF assms(1,3,2)] delete_op.op_wf [OF assms(1,3,2)]
  by (auto elim!: go_ok_mono)

theorem member_operations_effect_witness:
  "go_ok (\<lambda>(e, c'). map_of (peerset c') =
       (\<lambda>k. if k = ''a'' then Some (if e = None then started True (zero_member\<lparr>MemberName := ''a''\<rparr>)
               else markFailed (zero_member\<lparr>MemberName := ''a''\<rparr>)) else None))
     (startAppMember (sample_kube (\<lambda>n. []) (\<lambda>n. None)) ''a'' True
        (sample_cluster zero_rss [(''a'', zero_member\<lparr>MemberName := ''a''\<rparr>)]))"
  using member_operations_effect [of "sample_kube (\<lambda>n. []) (\<lambda>n. None)"
      "sample_cluster zero_rss [(''a'', zero_member\<lparr>MemberName := ''a''\<rparr>)]" "''a''"
      "zero_member\<lparr>MemberName := ''a''\<rparr>" True]
  by (auto simp: sample_cluster_def peerset_def ms_wf_def fun_upd_def elim!: go_ok_mono)


lemma pod_there_sample: "pod_there (sample_kube out fl) ns name (hd (PodContainers sample_podspec))"
  by (simp add: pod_there_def sample_kube_def create_patch_pod_def CreatePatch_def sample_pod_def sample_podspec_def)


text \<open>
  A member whose pod cannot be read is started and stopped successfully as far as the operator
  can tell: no command is run, yet no error is reported and the member is recorded as running (or
  stopped).
\<close>

lemma missing_pod_counts_as_success:
  assumes "ExecReady c" and "pod_missing E (Namespace c) (MemberName m)" and "map_of (peerset c) k = Some m"
  shows "go_ok (\<lambda>(e, c'). e = None \<and> map_of (peerset c') k = Some (started prim m) \<and>
             Trace c' = Trace c @ replicate 2 (EPodGet (Namespace c) (MemberName m))) (startAppMember E k prim c) \<and>
         go_ok (\<lambda>(e, c'). e = None \<and> map_of (peerset c') k = Some (stopped m) \<and>
             Trace c' = Trace c @ replicate 2 (EPodGet (Namespace c) (MemberName m))) (stopAppMember E k c)"
proof
  let ?n = "MemberName m" and ?ns = "Namespace c"
  let ?c1 = "request (EPodGet ?ns ?n) c"
  have m1: "map_of (peerset ?c1) k = Some m" using assms(3) by simp
  have set: "set_member k f ?c1 = Ret (?c1\<lparr>Peers := Some (AList.update k (f m) (peerset c))\<rparr>)" for f
    using set_member_Some [OF m1] by simp
  let ?c2 = "?c1\<lparr>Peers := Some (AList.update k (started prim m) (peerset c))\<rparr>"
  obtain e where "tagAppMember E ?n True ?c2 = Ret (e, request (EPodGet ?ns ?n) ?c2)"
    using tag_missing [of E ?c2 ?n True] assms(2) by auto
  then show "go_ok (\<lambda>(e, c'). e = None \<and> map_of (peerset c') k = Some (started prim m) \<and>
             Trace c' = Trace c @ replicate 2 (EPodGet ?ns ?n)) (startAppMember E k prim c)"
    using assms by (simp add: startAppMember_def execute_missing set Let_def numeral_2_eq_2 flip: started_def)
  obtain e' where t: "tagAppMember E ?n False c = Ret (e', ?c1)" using tag_missing [OF assms(2)] by blast
  have x: "execute E StopCommandKey ?n ?c1 = (([], [], None, 0), request (EPodGet ?ns ?n) ?c1)"
    using execute_missing [of ?c1 E ?n] assms by simp
  have "set_member k f (request (EPodGet ?ns ?n) ?c1) =
      Ret ((request (EPodGet ?ns ?n) ?c1)\<lparr>Peers := Some (AList.update k (f m) (peerset c))\<rparr>)" for f
    using set_member_Some [of "request (EPodGet ?ns ?n) ?c1" k m f] assms(3) by simp
  with t x assms(3) show "go_ok (\<lambda>(e, c'). e = None \<and> map_of (peerset c') k = Some (stopped m) \<and>
             Trace c' = Trace c @ replicate 2 (EPodGet ?ns ?n)) (stopAppMember E k c)"
    by (simp add: stopAppMember_def Let_def stopped_def numeral_2_eq_2)
qed

end
