(* ===== verification/Recovery.thy ===== *)
theory Recovery
  imports ClusterCore
begin

text \<open>
  \<^verbatim>\<open>recover\<close> and \<^verbatim>\<open>reconcile\<close> of pkg/cluster/reconcile.go: failed members are stopped or their pods
  deleted; known members are matched with the running pods, asked for the state of their application,
  and the outcome is reported in the conditions of the resource. Both range over the members, in an
  order that the environment picks.
\<close>

section \<open>Recovery\<close>

definition recoverOne :: "kube \<Rightarrow> string \<Rightarrow> go_error list \<times> cluster \<Rightarrow> (go_error list \<times> cluster) go" where
  "recoverOne E k = (\<lambda>(errors, c).
     go_bind (deref k c) (\<lambda>m.
       if AppFailed m \<and> 1 < Failures m then
         (let errors = errors @ [ErrNew (MemberName m @ '' deletion after '' @ show_nat (unat (Failures m)) @ '' failures'')]
          in go_bind (deleteMember E k c) (\<lambda>(err, c1).
               go_bind (tagAppMember E (MemberName m) False c1) (\<lambda>(_, c2).
                 Ret (appendNonNil errors err, c2))))
       else if \<not> Online m then Ret (errors, c)
       else if AppFailed m then
         go_bind (stopAppMember E k c) (\<lambda>(err, c1).
           case err of
             None \<Rightarrow> Ret (errors, c1)
           | Some e \<Rightarrow>
               (let errors = errors @ [ErrNew (MemberName m @ '' deletion after stop failure: '' @ Error e)]
                in go_bind (deleteMember E k c1) (\<lambda>(err', c2). Ret (appendNonNil errors err', c2))))
       else Ret (errors, c)))"

definition recover :: "kube \<Rightarrow> cluster \<Rightarrow> (go_error list \<times> cluster) go" where
  "recover E c = go_for (recoverOne E) (peer_order E ''recover'' c) ([], c)"

section \<open>Reconciliation\<close>

text \<open>
  What the exit code of the status command says of the application, with the remapping for
  clusters without secondaries.
\<close>

definition statusCode :: "cluster \<Rightarrow> int \<Rightarrow> go_error option \<Rightarrow> int \<times> go_error option" where
  "statusCode c rc err =
     (if rc = 0 \<and> gm_get (Commands (Pod (Spec (CRss c)))) SecondaryCommandKey = None
      then (8, Some (ErrNew ''remapped from 0'')) else (rc, err))"

definition statusEffect :: "int \<Rightarrow> member \<Rightarrow> member" where
  "statusEffect rc m =
     (if rc = 0 then m\<lparr>AppRunning := True, AppPrimary := False\<rparr>
      else if rc = 7 then m\<lparr>AppRunning := False, AppPrimary := False\<rparr>
      else if rc = 8 then m\<lparr>AppPrimary := True, AppRunning := True\<rparr>
      else m\<lparr>AppRunning := True, AppFailed := True\<rparr>)"

text \<open>Whether the change is one that is reported as an error.\<close>

definition statusErrors :: "int \<Rightarrow> member \<Rightarrow> go_error option \<Rightarrow> go_error list \<Rightarrow> go_error list" where
  "statusErrors rc m err errors =
     (if rc = 0 then errors
      else if rc = 7 then (if AppRunning m then appendNonNil errors err else errors)
      else if rc = 8 then
        (if \<not> AppRunning m then errors else if \<not> AppPrimary m then appendNonNil errors err else errors)
      else appendNonNil errors err)"

definition checkOne :: "kube \<Rightarrow> string \<Rightarrow> go_error list \<times> cluster \<Rightarrow> (go_error list \<times> cluster) go" where
  "checkOne E k = (\<lambda>(errors, c).
     go_bind (deref k c) (\<lambda>m.
       if AppFailed m \<or> \<not> Online m then Ret (errors, c)
       else
         (let ((_, _, err0, rc0), c1) = execute E StatusCommandKey (MemberName m) c;
              (rc, err) = statusCode c rc0 err0;
              m' = statusEffect rc m
          in go_bind (set_member k (statusEffect rc) c1) (\<lambda>c2.
               if AppFailed m'
               then go_bind (tagAppMember E (MemberName m) False c2) (\<lambda>(_, c3). Ret (statusErrors rc m err errors, c3))
               else Ret (statusErrors rc m err errors, c2)))))"

text \<open>The condition that reports the outcome.\<close>

definition reportCondition :: "int32 \<Rightarrow> int32 \<Rightarrow> go_error list \<Rightarrow> string \<Rightarrow> clusterstatus \<Rightarrow> clusterstatus" where
  "reportCondition active replicas errors now st =
     (if active > replicas then SetScalingDownCondition active replicas now st
      else if active < replicas then SetScalingUpCondition active replicas now st
      else if length errors > 0 then SetRecoveringCondition now st
      else SetReadyCondition now st)"

definition reconcile :: "kube \<Rightarrow> pod list \<Rightarrow> cluster \<Rightarrow> (go_error list \<times> cluster) go" where
  "reconcile E pods c =
     (let replicas = GetNumReplicas (Spec (CRss c));
          running = podsToMemberSet c pods
      in go_bind (Reconcile (peerset c) running replicas) (\<lambda>ps.
           let c1 = c\<lparr>Peers := Some ps\<rparr>
           in go_bind (go_for (checkOne E) (peer_order E ''reconcile'' c1) ([], c1)) (\<lambda>(errors, c2).
                go_bind (recover E c2) (\<lambda>(recovered, c3).
                  let errors = appendAllNonNil errors (map Some recovered);
                      st = reportCondition (ActiveMembers (peerset c3)) replicas errors (now_text E (Trace c3)) (CStatus c3);
                      c4 = c3\<lparr>CStatus := st\<lparr>StatusReplicas := int (length (peerset c3))\<rparr>\<rparr>;
                      (_, c5) = updateCRStatus E ''reconcile'' c4
                  in Ret (errors, c5)))))"

section \<open>Invariants\<close>

text \<open>
  The state of a member: a primary is running, and a member without a pod has no application state.
\<close>

definition member_inv :: "member \<Rightarrow> bool" where
  "member_inv m = ((AppPrimary m \<longrightarrow> AppRunning m) \<and>
     (\<not> Online m \<longrightarrow> \<not> AppPrimary m \<and> \<not> AppRunning m \<and> \<not> AppFailed m))"

definition cluster_inv :: "cluster \<Rightarrow> bool" where
  "cluster_inv c \<longleftrightarrow> ms_wf (peerset c) \<and> (\<forall>k m. map_of (peerset c) k = Some m \<longrightarrow> member_inv m)"

lemma member_inv_simps [simp]:
  "member_inv (Offline m)" "member_inv (stopped m)"
  "member_inv m \<Longrightarrow> Online m \<Longrightarrow> member_inv (markFailed m)" "Online m \<Longrightarrow> member_inv (started p m)"
  "member_inv m \<Longrightarrow> Online m \<Longrightarrow> member_inv (statusEffect rc m)" "member_inv zero_member"
  by (auto simp: member_inv_def Offline_def stopped_def markFailed_def started_def statusEffect_def zero_member_def)

lemma effect_simps [simp]:
  "MemberName (markFailed m) = MemberName m" "Online (markFailed m) = Online m" "AppFailed (markFailed m)"
  "MemberName (stopped m) = MemberName m" "Online (stopped m) = Online m" "\<not> AppFailed (stopped m)"
  "MemberName (started p m) = MemberName m" "Online (started p m) = Online m" "\<not> AppFailed (started p m)"
  "MemberName (statusEffect rc m) = MemberName m" "Online (statusEffect rc m) = Online m"
  by (simp_all add: markFailed_def stopped_def started_def statusEffect_def)

lemma member_inv_Copy [simp]: "member_inv (CopyMember m) = member_inv m"
  by (simp add: member_inv_def)

text \<open>What recovery can do to a member.\<close>

definition recovered :: "member \<Rightarrow> member \<Rightarrow> bool" where
  "recovered m m' =
     (if AppFailed m \<and> 1 < Failures m then m' = Offline m \<or> m' = m
      else if \<not> Online m \<or> \<not> AppFailed m then m' = m
      else m' = stopped m \<or> m' = markFailed m \<or> m' = Offline (markFailed m))"

text \<open>Without an error no failed member is left, and no pod has been deleted.\<close>

definition recover_rel :: "go_error list \<times> cluster \<Rightarrow> member \<Rightarrow> member \<Rightarrow> bool" where
  "recover_rel s m m' = (recovered m m' \<and> (fst s = [] \<longrightarrow> Online m' = Online m \<and> (Online m' \<longrightarrow> \<not> AppFailed m')))"

text \<open>What the loops over the members keep: the keys, the resource, the status, and plain errors.\<close>

definition loop_inv :: "cluster \<Rightarrow> go_error list \<times> cluster \<Rightarrow> bool" where
  "loop_inv c0 = (\<lambda>(errors, c). ms_wf (peerset c) \<and> map fst (peerset c) = map fst (peerset c0) \<and>
     CRss c = CRss c0 \<and> CStatus c = CStatus c0 \<and> list_all plain errors)"

lemma loop_inv_step:
  assumes "loop_inv c0 (errors, c)" and "map_of (peerset c) k = Some m" and "member_step c k m' c'"
    and "MemberName m' = MemberName m" and "list_all plain errors'"
  shows "loop_inv c0 (errors', c')"
proof -
  have wf: "ms_wf (peerset c)" using assms(1) by (simp add: loop_inv_def)
  have "MemberName m' = k" using assms(4) ms_wf_name [OF wf assms(2)] by simp
  then show ?thesis
    using assms(1,5) member_step_wf [OF assms(3) wf] member_step_keys [OF assms(3,2)] member_step_rss [OF assms(3)]
    by (simp add: loop_inv_def)
qed

lemma loop_inv_trace: "loop_inv c0 (errors, c) \<Longrightarrow> same_but_trace c c' \<Longrightarrow> loop_inv c0 (errors, c')"
  by (simp add: loop_inv_def same_but_trace_def peerset_def)

section \<open>Recovery, member by member\<close>

text \<open>The condition \<open>go_for_pointwise\<close> puts on the body of a loop over the members.\<close>

definition body_post ::
  "cluster \<Rightarrow> (go_error list \<times> cluster \<Rightarrow> member \<Rightarrow> member \<Rightarrow> bool) \<Rightarrow> string \<Rightarrow> member \<Rightarrow>
     go_error list \<times> cluster \<Rightarrow> go_error list \<times> cluster \<Rightarrow> bool" where
  "body_post c0 R k m s s' \<longleftrightarrow> loop_inv c0 s' \<and> keeps R s s' \<and>
     (\<exists>m'. R s' m m' \<and> map_of (peerset (snd s')) = (map_of (peerset (snd s)))(k \<mapsto> m'))"

lemma keeps_recover_rel: "(fst s' = [] \<Longrightarrow> fst s = []) \<Longrightarrow> keeps recover_rel s s'"
  by (auto simp: keeps_def recover_rel_def)

lemma appendNonNil_nonempty [simp]: "appendNonNil (es @ [e]) x \<noteq> []"
  by (simp add: appendNonNil_def split: option.splits)

lemma list_all_plain_append:
  "list_all plain es \<Longrightarrow> pred_option plain e \<Longrightarrow> s \<noteq> [] \<Longrightarrow> list_all plain (appendNonNil (es @ [ErrNew s]) e)"
  by (rule list_all_appendNonNil) auto

lemma recover_stepI:
  assumes "loop_inv c0 (errors, c)" and "map_of (peerset c) k = Some m" and "member_step c k m' c'"
    and "MemberName m' = MemberName m" and "list_all plain errors'" and "errors' = [] \<Longrightarrow> errors = []"
    and "recover_rel (errors', c') m m'"
  shows "body_post c0 recover_rel k m (errors, c) (errors', c')"
  unfolding body_post_def
  using loop_inv_step [OF assms(1-5)] assms(6,7) keeps_recover_rel [of "(errors', c')" "(errors, c)"]
    member_step_peerset [OF assms(3)]
  by auto

lemma member_step_twice:
  "member_step c k m1 c1 \<Longrightarrow> member_step c1 k m2 c2 \<Longrightarrow> member_step c k m2 c2"
  by (simp add: member_step_def same_but_trace_def peerset_def)

lemma plain_errors: "loop_inv c0 (errors, c) \<Longrightarrow> list_all plain errors"
  by (simp add: loop_inv_def)

lemma recoverOne_delete:
  assumes lab: "pods_labelled E" and inv: "loop_inv c0 (errors, c)" and m: "map_of (peerset c) k = Some m"
    and failed: "AppFailed m" "1 < Failures m"
  shows "go_ok (body_post c0 recover_rel k m (errors, c)) (recoverOne E k (errors, c))"
proof -
  have post: "body_post c0 recover_rel k m (errors, c) (appendNonNil (errors @ [ErrNew s]) e, c2)"
    if "member_step c k (if e = None then Offline m else m) c1" "pred_option plain e" "same_but_trace c1 c2" and s: "s \<noteq> []" for e c1 c2 s
  proof (rule recover_stepI [OF inv m member_step_trace [OF that(1,3)]])
    show "list_all plain (appendNonNil (errors @ [ErrNew s]) e)"
      by (rule list_all_plain_append [OF plain_errors [OF inv] that(2) s])
  qed (use failed in \<open>auto simp: recover_rel_def recovered_def\<close>)
  have "go_ok (body_post c0 recover_rel k m (errors, c))
      (go_bind (tagAppMember E (MemberName m) False c1) (\<lambda>(_, c2). Ret (appendNonNil (errors @ [ErrNew s]) e, c2)))"
    if "member_step c k (if e = None then Offline m else m) c1" "pred_option plain e" "s \<noteq> []" for e c1 s
    by (rule go_ok_bind [OF tagAppMember_spec [OF lab]]) (use post [OF that(1,2) _ that(3)] in auto)
  then show ?thesis
    using failed m by (auto simp: recoverOne_def Let_def intro!: go_ok_bind [OF deleteMember_spec [OF m]])
qed

lemma recoverOne_stop:
  assumes lab: "pods_labelled E" and inv: "loop_inv c0 (errors, c)" and m: "map_of (peerset c) k = Some m"
    and failed: "AppFailed m" "\<not> 1 < Failures m" "Online m"
  shows "go_ok (body_post c0 recover_rel k m (errors, c)) (recoverOne E k (errors, c))"
proof -
  have delete: "go_ok (body_post c0 recover_rel k m (errors, c))
      (go_bind (deleteMember E k c1) (\<lambda>(e', c2). Ret (appendNonNil (errors @ [ErrNew s]) e', c2)))"
    if c1: "member_step c k (markFailed m) c1" and s: "s \<noteq> []" for c1 s
  proof -
    have m1: "map_of (peerset c1) k = Some (markFailed m)" using member_step_peerset [OF c1] by simp
    have post: "body_post c0 recover_rel k m (errors, c) (appendNonNil (errors @ [ErrNew s]) e, c2)"
      if "member_step c1 k (if e = None then Offline (markFailed m) else markFailed m) c2" "pred_option plain e" for e c2
    proof (rule recover_stepI [OF inv m member_step_twice [OF c1 that(1)]])
      show "list_all plain (appendNonNil (errors @ [ErrNew s]) e)"
        by (rule list_all_plain_append [OF plain_errors [OF inv] that(2) s])
    qed (use failed in \<open>auto simp: recover_rel_def recovered_def\<close>)
    show ?thesis by (rule go_ok_bind [OF deleteMember_spec [OF m1]]) (use post in auto)
  qed
  have "body_post c0 recover_rel k m (errors, c) (errors, c1)" if "member_step c k (stopped m) c1" for c1
    by (rule recover_stepI [OF inv m that])
      (use failed in \<open>auto simp: recover_rel_def recovered_def plain_errors [OF inv]\<close>)
  then show ?thesis
    using failed m delete
    by (auto simp: recoverOne_def Let_def split: option.splits intro!: go_ok_bind [OF stopAppMember_spec [OF lab m]])
qed

lemma recoverOne_body:
  assumes "pods_labelled E" and "loop_inv c0 s" and m: "map_of (peerset (snd s)) k = Some m"
  shows "go_ok (body_post c0 recover_rel k m s) (recoverOne E k s)"
proof -
  obtain errors c where s: "s = (errors, c)" by (cases s)
  with assms have inv: "loop_inv c0 (errors, c)" and m': "map_of (peerset c) k = Some m" by simp_all
  have same: "body_post c0 recover_rel k m (errors, c) (errors, c)" if "\<not> Online m \<or> \<not> AppFailed m" "\<not> (AppFailed m \<and> 1 < Failures m)"
    using that inv by (intro recover_stepI [OF inv m' member_step_same [OF m']])
      (auto simp: recover_rel_def recovered_def loop_inv_def)
  show ?thesis
    using recoverOne_delete [OF assms(1) inv m'] recoverOne_stop [OF assms(1) inv m'] same m'
    by (cases "AppFailed m \<and> 1 < Failures m"; cases "Online m \<and> AppFailed m") (auto simp: s recoverOne_def)
qed

lemma loop_members:
  assumes wf: "ms_wf (peerset c)"
    and "\<And>k s m. loop_inv c s \<Longrightarrow> map_of (peerset (snd s)) k = Some m \<Longrightarrow> go_ok (body_post c R k m s) (f k s)"
  shows "go_ok (\<lambda>s'. loop_inv c s' \<and> (\<forall>k. rel_option (R s') (map_of (peerset c) k) (map_of (peerset (snd s')) k)))
           (go_for f (peer_order E site c) ([], c))"
proof -
  have "go_ok (\<lambda>s'. loop_inv c s' \<and> keeps R ([], c) s' \<and>
      related (\<lambda>s. peerset (snd s)) R (set (peer_order E site c)) ([], c) s')
      (go_for f (peer_order E site c) ([], c))"
  proof (rule go_for_pointwise)
    show "distinct (peer_order E site c)" by (rule peer_order_props(1) [OF wf])
    show "map_of (peerset (snd ([], c))) k \<noteq> None" if "k \<in> set (peer_order E site c)" for k
      using that peer_order_props(2) [OF wf] by simp
    show "loop_inv c ([], c)" using wf by (simp add: loop_inv_def)
    show "go_ok (\<lambda>s'. loop_inv c s' \<and> keeps R s s' \<and>
        (\<exists>m'. R s' m m' \<and> map_of (peerset (snd s')) = (map_of (peerset (snd s)))(k \<mapsto> m'))) (f k s)"
      if "loop_inv c s" "map_of (peerset (snd s)) k = Some m" for k s m
      by (rule go_ok_mono [OF assms(2) [OF that]]) (simp add: body_post_def)
  qed
  then show ?thesis
  proof (rule go_ok_mono)
    fix s' assume s': "loop_inv c s' \<and> keeps R ([], c) s' \<and>
      related (\<lambda>s. peerset (snd s)) R (set (peer_order E site c)) ([], c) s'"
    then have "related (\<lambda>s. peerset (snd s)) R {k. map_of (peerset (snd ([], c))) k \<noteq> None} ([], c) s'"
      using peer_order_props(2) [OF wf] by simp
    from related_all [OF this] s'
    show "loop_inv c s' \<and> (\<forall>k. rel_option (R s') (map_of (peerset c) k) (map_of (peerset (snd s')) k))" by simp
  qed
qed

lemma recover_spec:
  assumes "pods_labelled E" and "ms_wf (peerset c)"
  shows "go_ok (\<lambda>s'. loop_inv c s' \<and> (\<forall>k. rel_option (recover_rel s') (map_of (peerset c) k) (map_of (peerset (snd s')) k)))
           (recover E c)"
  unfolding recover_def using assms by (intro loop_members recoverOne_body)

section \<open>Checking, member by member\<close>

text \<open>
  Only online members that have not failed are asked. Without an error no member has newly failed
  and none that was running is found stopped.
\<close>

definition check_rel :: "go_error list \<times> cluster \<Rightarrow> member \<Rightarrow> member \<Rightarrow> bool" where
  "check_rel s m m' =
     ((if AppFailed m \<or> \<not> Online m then m' = m else \<exists>rc. m' = statusEffect rc m) \<and>
      (fst s = [] \<longrightarrow> (AppFailed m' \<longrightarrow> AppFailed m) \<and> (AppRunning m \<longrightarrow> AppRunning m')))"

lemma execute_error:
  assumes "execute E action name c = ((out, errout, err, rc), c')"
  shows "err = None \<Longrightarrow> rc = 0" and "err = Some e \<Longrightarrow> plain e \<and> Error e \<noteq> []"
  using assms by (auto simp: execute_def Let_def split: prod.splits option.splits)

lemma statusCode_error:
  assumes "execute E action name c1 = ((out, errout, err0, rc0), c')" and "statusCode c rc0 err0 = (rc, err)"
  shows "pred_option plain err" and "rc \<noteq> 0 \<longrightarrow> (\<exists>e. err = Some e \<and> Error e \<noteq> [])"
  using assms(2) execute_error [OF assms(1)]
  by (cases err0; auto simp: statusCode_def split: if_splits)+

lemma statusErrors_props:
  assumes "list_all plain errors" and "pred_option plain err" and "rc \<noteq> 0 \<longrightarrow> (\<exists>e. err = Some e \<and> Error e \<noteq> [])"
  shows "list_all plain (statusErrors rc m err errors)"
    and "statusErrors rc m err errors = [] \<Longrightarrow> errors = []"
    and "statusErrors rc m err errors = [] \<Longrightarrow> \<not> AppFailed m \<Longrightarrow> \<not> AppFailed (statusEffect rc m)"
    and "statusErrors rc m err errors = [] \<Longrightarrow> AppRunning m \<Longrightarrow> AppRunning (statusEffect rc m)"
  using assms
  by (auto simp: statusErrors_def statusEffect_def split: if_splits intro!: list_all_appendNonNil)

lemma keeps_check_rel: "(fst s' = [] \<Longrightarrow> fst s = []) \<Longrightarrow> keeps check_rel s s'"
  unfolding keeps_def check_rel_def by metis

lemma check_stepI:
  assumes "loop_inv c0 (errors, c)" and "map_of (peerset c) k = Some m" and "member_step c k m' c'"
    and "MemberName m' = MemberName m" and "list_all plain errors'" and "errors' = [] \<Longrightarrow> errors = []"
    and "check_rel (errors', c') m m'"
  shows "body_post c0 check_rel k m (errors, c) (errors', c')"
  unfolding body_post_def
  using loop_inv_step [OF assms(1-5)] assms(6,7) keeps_check_rel [of "(errors', c')" "(errors, c)"]
    member_step_peerset [OF assms(3)]
  by auto

lemma checkOne_body:
  assumes lab: "pods_labelled E" and "loop_inv c0 s" and "map_of (peerset (snd s)) k = Some m"
  shows "go_ok (body_post c0 check_rel k m s) (checkOne E k s)"
proof -
  obtain errors c where s: "s = (errors, c)" by (cases s)
  with assms have inv: "loop_inv c0 (errors, c)" and m: "map_of (peerset c) k = Some m" by simp_all
  show ?thesis
  proof (cases "AppFailed m \<or> \<not> Online m")
    case True
    then have "body_post c0 check_rel k m (errors, c) (errors, c)"
      by (intro check_stepI [OF inv m member_step_same [OF m]])
        (auto simp: check_rel_def plain_errors [OF inv])
    with True m show ?thesis by (simp add: s checkOne_def)
  next
    case False
    obtain out errout err0 rc0 c1 where
      x: "execute E StatusCommandKey (MemberName m) c = ((out, errout, err0, rc0), c1)" by (metis prod.exhaust)
    obtain rc err where sc: "statusCode c rc0 err0 = (rc, err)" by fastforce
    have c1: "same_but_trace c c1" using execute_frame x by (metis snd_conv)
    obtain c2 where c2: "set_member k (statusEffect rc) c1 = Ret c2" "member_step c k (statusEffect rc m) c2"
      by (rule set_member_after [OF m c1])
    note props = statusErrors_props [OF plain_errors [OF inv] statusCode_error [OF x sc], where m = m]
    have post: "body_post c0 check_rel k m (errors, c) (statusErrors rc m err errors, c3)" if "same_but_trace c2 c3" for c3
    proof (rule check_stepI [OF inv m member_step_trace [OF c2(2) that]])
      show "check_rel (statusErrors rc m err errors, c3) m (statusEffect rc m)"
        unfolding check_rel_def fst_conv using False props(3,4) by metis
    qed (simp, rule props(1), erule props(2))
    have "go_ok (body_post c0 check_rel k m (errors, c))
      (go_bind (tagAppMember E (MemberName m) False c2) (\<lambda>(_, c3). Ret (statusErrors rc m err errors, c3)))"
      by (rule go_ok_bind [OF tagAppMember_spec [OF lab]]) (use post in auto)
    with False m x sc c2(1) post [of c2] show ?thesis by (simp add: s checkOne_def)
  qed
qed

section \<open>Reconciliation as a whole\<close>

lemma updateCRStatus_frame:
  "peerset (snd (updateCRStatus E p c)) = peerset c" "Peers (snd (updateCRStatus E p c)) = Peers c"
  "CStatus (snd (updateCRStatus E p c)) = CStatus c"
  by (auto simp: updateCRStatus_def Let_def split: sum.splits)

definition all_running :: "memberset \<Rightarrow> bool" where
  "all_running ms \<longleftrightarrow> ms_wf ms \<and> (\<forall>k m. map_of ms k = Some m \<longrightarrow> Online m \<and> member_inv m)"

lemma AddMember_running:
  "all_running ms \<Longrightarrow> all_running (AddMember ms ((newMember c name ns)\<lparr>Online := True\<rparr>))"
  by (auto simp: all_running_def AddMember_def newMember_def member_inv_def zero_member_def intro!: ms_wf_update)

lemma podsToMemberSet_fold:
  "all_running ms \<Longrightarrow>
   all_running (fold (\<lambda>p ms. AddMember ms ((newMember c (ObjName (PodMeta p)) (ObjNamespace (PodMeta p)))\<lparr>Online := True\<rparr>)) pods ms) \<and>
   dom (map_of (fold (\<lambda>p ms. AddMember ms ((newMember c (ObjName (PodMeta p)) (ObjNamespace (PodMeta p)))\<lparr>Online := True\<rparr>)) pods ms)) =
     dom (map_of ms) \<union> set (map (\<lambda>p. ObjName (PodMeta p)) pods)"
proof (induction pods arbitrary: ms)
  case (Cons p pods)
  let ?ms = "AddMember ms ((newMember c (ObjName (PodMeta p)) (ObjNamespace (PodMeta p)))\<lparr>Online := True\<rparr>)"
  have "dom (map_of ?ms) = insert (ObjName (PodMeta p)) (dom (map_of ms))"
    by (simp add: AddMember_def newMember_def)
  then show ?case using Cons.IH [OF AddMember_running [OF Cons.prems]] by simp
qed simp

lemma podsToMemberSet_props:
  "ms_wf (podsToMemberSet c pods)"
  "map_of (podsToMemberSet c pods) k = Some m \<Longrightarrow> Online m \<and> member_inv m"
  "dom (map_of (podsToMemberSet c pods)) = set (map (\<lambda>p. ObjName (PodMeta p)) pods)"
  using podsToMemberSet_fold [of "[]" c pods] by (simp_all add: podsToMemberSet_def all_running_def)

lemma reconcile_entry_inv:
  "(\<And>x. m = Some x \<Longrightarrow> member_inv x) \<Longrightarrow> (\<And>x. a = Some x \<Longrightarrow> Online x \<and> member_inv x) \<Longrightarrow>
   reconcile_entry m a = Some y \<Longrightarrow> member_inv y \<and> (Online y \<longleftrightarrow> a \<noteq> None)"
  by (cases m; cases a) (auto simp: member_inv_def)

lemma check_rel_inv: "check_rel s m m' \<Longrightarrow> member_inv m \<Longrightarrow> member_inv m' \<and> Online m' = Online m"
  by (auto simp: check_rel_def split: if_splits)

lemma recovered_inv: "recovered m m' \<Longrightarrow> member_inv m \<Longrightarrow> member_inv m' \<and> (Online m' \<longrightarrow> Online m)"
  by (auto simp: recovered_def split: if_splits)

definition pod_names :: "pod list \<Rightarrow> string set" where
  "pod_names pods = set (map (\<lambda>p. ObjName (PodMeta p)) pods)"

text \<open>The members after one of the three stages, in terms of those before it.\<close>

definition matched :: "cluster \<Rightarrow> pod list \<Rightarrow> cluster \<Rightarrow> bool" where
  "matched c pods c1 \<longleftrightarrow> cluster_inv c1 \<and>
     dom (map_of (peerset c1)) = dom (map_of (peerset c)) \<union> pod_names pods \<and>
     (\<forall>k m. map_of (peerset c1) k = Some m \<longrightarrow> Online m = (k \<in> pod_names pods))"

lemma Reconcile_stage:
  assumes "cluster_inv c"
  shows "go_ok (\<lambda>ps. matched c pods (c\<lparr>Peers := Some ps\<rparr>)) (Reconcile (peerset c) (podsToMemberSet c pods) n)"
proof -
  have wf: "ms_wf (peerset c)" using assms by (simp add: cluster_inv_def)
  note pods = podsToMemberSet_props [of c pods]
  show ?thesis
  proof (rule go_ok_mono [OF Reconcile_spec [OF wf pods(1)]])
    fix ps
    assume ps: "ms_wf ps \<and> (\<forall>k. map_of ps k = reconcile_entry (map_of (peerset c) k) (map_of (podsToMemberSet c pods) k))"
    have entry: "member_inv m \<and> Online m = (map_of (podsToMemberSet c pods) k \<noteq> None)" if "map_of ps k = Some m" for k m
      using that ps assms pods(2) by (intro reconcile_entry_inv) (auto simp: cluster_inv_def)
    have "map_of ps k = None \<longleftrightarrow> map_of (peerset c) k = None \<and> map_of (podsToMemberSet c pods) k = None" for k
      using ps by (cases "map_of (peerset c) k"; cases "map_of (podsToMemberSet c pods) k") simp_all
    then have "dom (map_of ps) = dom (map_of (peerset c)) \<union> dom (map_of (podsToMemberSet c pods))"
      by (simp add: dom_def Un_def)
    moreover have "map_of (podsToMemberSet c pods) k \<noteq> None \<longleftrightarrow> k \<in> pod_names pods" for k
      using pods(3) by (auto simp: pod_names_def)
    ultimately show "matched c pods (c\<lparr>Peers := Some ps\<rparr>)"
      using entry ps pods(3) by (auto simp: matched_def cluster_inv_def pod_names_def)
  qed
qed

lemma rel_option_dom: "(\<And>k. rel_option R (f k) (g k)) \<Longrightarrow> dom f = dom g"
proof (rule set_eqI)
  fix k
  assume "\<And>k. rel_option R (f k) (g k)"
  from this [of k] show "k \<in> dom f \<longleftrightarrow> k \<in> dom g" by (cases "f k"; cases "g k") auto
qed

lemma rel_option_SomeD: "rel_option R x (Some b) \<Longrightarrow> \<exists>a. x = Some a \<and> R a b"
  by (cases x) auto

lemma check_stage:
  assumes "pods_labelled E" and "matched c pods c1"
  shows "go_ok (\<lambda>s. matched c pods (snd s) \<and> loop_inv c1 s \<and>
             (\<forall>k. rel_option (check_rel s) (map_of (peerset c1) k) (map_of (peerset (snd s)) k)))
           (go_for (checkOne E) (peer_order E ''reconcile'' c1) ([], c1))"
proof -
  have wf: "ms_wf (peerset c1)" using assms(2) by (simp add: matched_def cluster_inv_def)
  show ?thesis
  proof (rule go_ok_mono [OF loop_members [OF wf checkOne_body [OF assms(1)]]])
    fix s assume s: "loop_inv c1 s \<and>
      (\<forall>k. rel_option (check_rel s) (map_of (peerset c1) k) (map_of (peerset (snd s)) k))"
    have "member_inv m' \<and> Online m' = (k \<in> pod_names pods)" if k: "map_of (peerset (snd s)) k = Some m'" for k m'
    proof -
      obtain m where m: "map_of (peerset c1) k = Some m" and r: "check_rel s m m'"
        using s k rel_option_SomeD [of "check_rel s" _ m'] by metis
      have "member_inv m" "Online m = (k \<in> pod_names pods)" using m assms(2) by (auto simp: matched_def cluster_inv_def)
      with check_rel_inv [OF r] show ?thesis by simp
    qed
    moreover have "dom (map_of (peerset c1)) = dom (map_of (peerset (snd s)))"
      by (rule rel_option_dom [of "check_rel s"]) (simp add: s)
    moreover have "ms_wf (peerset (snd s))" using s by (simp add: loop_inv_def split: prod.splits)
    ultimately have "matched c pods (snd s)" using assms(2) by (simp add: matched_def cluster_inv_def)
    with s show "matched c pods (snd s) \<and> loop_inv c1 s \<and>
      (\<forall>k. rel_option (check_rel s) (map_of (peerset c1) k) (map_of (peerset (snd s)) k))" by blast
  qed
qed

lemma recover_stage:
  assumes "pods_labelled E" and "matched c pods c2"
  shows "go_ok (\<lambda>s. cluster_inv (snd s) \<and> loop_inv c2 s \<and>
             dom (map_of (peerset (snd s))) = dom (map_of (peerset c)) \<union> pod_names pods \<and>
             (\<forall>k m. map_of (peerset (snd s)) k = Some m \<and> Online m \<longrightarrow> k \<in> pod_names pods) \<and>
             (fst s = [] \<longrightarrow> (\<forall>k m. map_of (peerset (snd s)) k = Some m \<longrightarrow> \<not> AppFailed m \<and> Online m = (k \<in> pod_names pods))))
           (recover E c2)"
proof -
  have wf: "ms_wf (peerset c2)" using assms(2) by (simp add: matched_def cluster_inv_def)
  show ?thesis
  proof (rule go_ok_mono [OF recover_spec [OF assms(1) wf]])
    fix s assume s: "loop_inv c2 s \<and>
      (\<forall>k. rel_option (recover_rel s) (map_of (peerset c2) k) (map_of (peerset (snd s)) k))"
    have entry: "member_inv m' \<and> (Online m' \<longrightarrow> k \<in> pod_names pods) \<and>
        (fst s = [] \<longrightarrow> \<not> AppFailed m' \<and> Online m' = (k \<in> pod_names pods))" if k: "map_of (peerset (snd s)) k = Some m'" for k m'
    proof -
      obtain m where m: "map_of (peerset c2) k = Some m" and r: "recover_rel s m m'"
        using s k rel_option_SomeD [of "recover_rel s" _ m'] by metis
      have "member_inv m" "Online m = (k \<in> pod_names pods)" using m assms(2) by (auto simp: matched_def cluster_inv_def)
      with r recovered_inv [of m m'] show ?thesis by (auto simp: recover_rel_def member_inv_def)
    qed
    have "dom (map_of (peerset c2)) = dom (map_of (peerset (snd s)))"
      by (rule rel_option_dom [of "recover_rel s"]) (simp add: s)
    then have "dom (map_of (peerset (snd s))) = dom (map_of (peerset c)) \<union> pod_names pods"
      using assms(2) by (simp add: matched_def)
    moreover have "ms_wf (peerset (snd s))" using s by (simp add: loop_inv_def split: prod.splits)
    ultimately show "cluster_inv (snd s) \<and> loop_inv c2 s \<and>
             dom (map_of (peerset (snd s))) = dom (map_of (peerset c)) \<union> pod_names pods \<and>
             (\<forall>k m. map_of (peerset (snd s)) k = Some m \<and> Online m \<longrightarrow> k \<in> pod_names pods) \<and>
             (fst s = [] \<longrightarrow> (\<forall>k m. map_of (peerset (snd s)) k = Some m \<longrightarrow> \<not> AppFailed m \<and> Online m = (k \<in> pod_names pods)))"
      using s entry unfolding cluster_inv_def by blast
  qed
qed

text \<open>What holds after \<open>reconcile\<close>.\<close>

definition reconcile_post :: "cluster \<Rightarrow> pod list \<Rightarrow> go_error list \<Rightarrow> cluster \<Rightarrow> bool" where
  "reconcile_post c pods es c' \<longleftrightarrow>
     cluster_inv c' \<and> list_all plain es \<and>
     dom (map_of (peerset c')) = dom (map_of (peerset c)) \<union> pod_names pods \<and>
     (\<forall>k m. map_of (peerset c') k = Some m \<and> Online m \<longrightarrow> k \<in> pod_names pods) \<and>
     (es = [] \<longrightarrow> (\<forall>k m. map_of (peerset c') k = Some m \<longrightarrow> \<not> AppFailed m \<and> Online m = (k \<in> pod_names pods))) \<and>
     (\<exists>now. CStatus c' = (reportCondition (ActiveMembers (peerset c')) (GetNumReplicas (Spec (CRss c))) es now (CStatus c))
              \<lparr>StatusReplicas := int (length (peerset c'))\<rparr>)"

lemma cluster_inv_peers: "peerset c' = peerset c \<Longrightarrow> cluster_inv c' = cluster_inv c"
  by (simp add: cluster_inv_def)

lemma reconcile_spec:
  assumes lab: "pods_labelled E" and inv: "cluster_inv c"
  shows "go_ok (\<lambda>(es, c'). reconcile_post c pods es c') (reconcile E pods c)"
  unfolding reconcile_def Let_def
proof (rule go_ok_bind [OF Reconcile_stage [OF inv]], rule go_ok_bind [OF check_stage [OF lab]], assumption, clarify)
  fix ps es1 c2
  let ?c1 = "c\<lparr>Peers := Some ps\<rparr>"
  assume "matched c pods (snd (es1, c2))" and l1: "loop_inv ?c1 (es1, c2)"
  then have m2: "matched c pods c2" by simp
  show "go_ok (\<lambda>(es, c'). reconcile_post c pods es c')
    (go_bind (recover E c2) (\<lambda>(recovered, c3).
       case updateCRStatus E ''reconcile''
         (c3\<lparr>CStatus := (reportCondition (ActiveMembers (peerset c3)) (GetNumReplicas (Spec (CRss c)))
               (appendAllNonNil es1 (map Some recovered)) (now_text E (Trace c3)) (CStatus c3))
             \<lparr>StatusReplicas := int (length (peerset c3))\<rparr>\<rparr>)
       of (_, c5) \<Rightarrow> Ret (appendAllNonNil es1 (map Some recovered), c5)))"
  proof (rule go_ok_bind [OF recover_stage [OF lab m2]], clarify)
    fix res c3
    assume r: "cluster_inv (snd (res, c3))" "loop_inv c2 (res, c3)"
      "dom (map_of (peerset (snd (res, c3)))) = dom (map_of (peerset c)) \<union> pod_names pods"
      "\<forall>k m. map_of (peerset (snd (res, c3))) k = Some m \<and> Online m \<longrightarrow> k \<in> pod_names pods"
      "fst (res, c3) = [] \<longrightarrow> (\<forall>k m. map_of (peerset (snd (res, c3))) k = Some m \<longrightarrow> \<not> AppFailed m \<and> Online m = (k \<in> pod_names pods))"
    let ?st = "\<lambda>es. (reportCondition (ActiveMembers (peerset c3)) (GetNumReplicas (Spec (CRss c))) es
      (now_text E (Trace c3)) (CStatus c3))\<lparr>StatusReplicas := int (length (peerset c3))\<rparr>"
    have p: "list_all plain es1" "list_all plain res" "CStatus c3 = CStatus c"
      using l1 r(2) by (simp_all add: loop_inv_def)
    obtain e c5 where u: "updateCRStatus E ''reconcile'' (c3\<lparr>CStatus := ?st (es1 @ res)\<rparr>) = (e, c5)" by fastforce
    have "peerset c5 = peerset c3" "CStatus c5 = ?st (es1 @ res)"
      using updateCRStatus_frame [of E "''reconcile''" "c3\<lparr>CStatus := ?st (es1 @ res)\<rparr>"] by (simp_all add: u)
    then have "reconcile_post c pods (es1 @ res) c5"
      using r p cluster_inv_peers [of c5 c3] by (auto simp: reconcile_post_def)
    with u show "go_ok (\<lambda>(es, c'). reconcile_post c pods es c')
      (case updateCRStatus E ''reconcile'' (c3\<lparr>CStatus := ?st (appendAllNonNil es1 (map Some res))\<rparr>)
       of (_, c5) \<Rightarrow> Ret (appendAllNonNil es1 (map Some res), c5))"
      by (simp add: appendAllNonNil_plain [OF p(2)])
  qed
qed

lemma reportCondition_listed:
  assumes "conds_wf st"
  shows "\<exists>cond. condition_of (reportCondition active n es now st)
             (if active \<noteq> n then ClusterConditionScaling
              else if es \<noteq> [] then ClusterConditionRecovering else ClusterConditionAvailable) = Some cond \<and>
           CondStatus cond = ConditionTrue \<and>
           CondReason cond = (if active > n then ''Scaling down'' else if active < n then ''Scaling up''
             else if es \<noteq> [] then ''Disaster recovery'' else ''Cluster available'')"
  using scaling_down.listed [OF assms, of active n now] scaling_up.listed [OF assms, of active n now]
    recovering.listed [OF assms, of now] ready.listed [OF assms, of now]
  by (auto simp: reportCondition_def)

lemma condition_of_replicas [simp]: "condition_of (st\<lparr>StatusReplicas := n\<rparr>) t = condition_of st t"
  by (simp add: condition_of_def getClusterCondition_def)

lemma cluster_inv_sample: "cluster_inv (sample_cluster r [])"
  by (simp add: cluster_inv_def sample_cluster_def peerset_def)

section \<open>Properties\<close>

lemma reconcile_keeps:
  assumes "pods_labelled E" and "cluster_inv c"
  shows "go_ok (\<lambda>(es, c'). cluster_inv c' \<and>
             dom (map_of (peerset c')) = dom (map_of (peerset c)) \<union> pod_names pods \<and>
             (\<forall>e \<in> set es. \<not> isFatalError (Some e)) \<and>
             (\<forall>k m. map_of (peerset c') k = Some m \<longrightarrow>
                (Online m \<longrightarrow> k \<in> pod_names pods) \<and>
                (es = [] \<longrightarrow> \<not> AppFailed m \<and> Online m = (k \<in> pod_names pods)))) (reconcile E pods c)"
  by (rule go_ok_mono [OF reconcile_spec [OF assms]])
    (auto simp: reconcile_post_def list_all_iff plain_not_fatal)

text \<open>
  What is reported: too many or too few online members as scaling, otherwise errors as recovery, otherwise the
  cluster as available.
\<close>

lemma reconcile_reports:
  assumes "pods_labelled E" and "cluster_inv c" and "conds_wf (CStatus c)"
  shows "go_ok (\<lambda>(es, c').
             let active = ActiveMembers (peerset c'); n = GetNumReplicas (Spec (CRss c))
             in StatusReplicas (CStatus c') = int (length (peerset c')) \<and>
                (\<exists>cond. condition_of (CStatus c')
                     (if active \<noteq> n then ClusterConditionScaling
                      else if es \<noteq> [] then ClusterConditionRecovering else ClusterConditionAvailable) = Some cond \<and>
                   CondStatus cond = ConditionTrue \<and>
                   CondReason cond = (if active > n then ''Scaling down'' else if active < n then ''Scaling up''
                     else if es \<noteq> [] then ''Disaster recovery'' else ''Cluster available''))) (reconcile E pods c)"
proof (rule go_ok_mono [OF reconcile_spec [OF assms(1,2)]], clarify)
  fix es c' assume "reconcile_post c pods es c'"
  then obtain now where "CStatus c' = (reportCondition (ActiveMembers (peerset c')) (GetNumReplicas (Spec (CRss c))) es now (CStatus c))
      \<lparr>StatusReplicas := int (length (peerset c'))\<rparr>"
    unfolding reconcile_post_def by blast
  then show "let active = ActiveMembers (peerset c'); n = GetNumReplicas (Spec (CRss c))
      in StatusReplicas (CStatus c') = int (length (peerset c')) \<and>
         (\<exists>cond. condition_of (CStatus c')
              (if active \<noteq> n then ClusterConditionScaling
               else if es \<noteq> [] then ClusterConditionRecovering else ClusterConditionAvailable) = Some cond \<and>
            CondStatus cond = ConditionTrue \<and>
            CondReason cond = (if active > n then ''Scaling down'' else if active < n then ''Scaling up''
              else if es \<noteq> [] then ''Disaster recovery'' else ''Cluster available''))"
    using reportCondition_listed [OF assms(3), of "ActiveMembers (peerset c')" "GetNumReplicas (Spec (CRss c))" es now]
    by (simp add: Let_def)
qed





end
