(* ===== verification/Replicate.thy ===== *)
theory Replicate
  imports Recovery
begin

text \<open>
  pkg/cluster/replicate.go: choosing members to start and stop, and the replication step that
  seeds a cluster, starts primaries, demotes the excess, and starts secondaries. The Go loops run
  until their condition fails or they break; here they are given a number of iterations
  (\<open>fuel\<close>), and \<open>Stuck\<close> says that it was not enough. The theorems say how much is enough,
  and for the last loop that sometimes none is.
\<close>

section \<open>Sequence numbers\<close>

definition detectOne :: "kube \<Rightarrow> string \<Rightarrow> cluster \<Rightarrow> cluster go" where
  "detectOne E k c =
     go_bind (deref k c) (\<lambda>m.
       if \<not> Online m then Ret c
       else
         (let ((raw, _, err, _), c1) = execute E SequenceCommandKey (MemberName m) c
          in if err \<noteq> None then Ret c1
             else go_bind (deref (MemberName m) c1) (\<lambda>_.
               let out = TrimSpace raw
               in if out = [] then Ret c1
                  else set_member (MemberName m) (\<lambda>m. m\<lparr>SEQ := of_nat (fst (ParseUint out 64))\<rparr>) c1)))"

definition detectMembers :: "kube \<Rightarrow> cluster \<Rightarrow> cluster go" where
  "detectMembers E c = go_for (detectOne E) (peer_order E ''detectMembers'' c) c"

section \<open>Choosing members\<close>

type_synonym choice = "(string \<times> member) option"

definition seedStep :: "memberset \<Rightarrow> string \<Rightarrow> (string \<times> member) list \<Rightarrow> (string \<times> member) list" where
  "seedStep ms k bestPeer =
     (case map_of ms k of
        None \<Rightarrow> bestPeer
      | Some m \<Rightarrow>
          if \<not> Online m \<or> AppFailed m then bestPeer
          else if AppPrimary m then bestPeer
          else if bestPeer = [] then [(k, m)]
          else if SEQ m > SEQ (snd (hd bestPeer)) then [(k, m)]
          else bestPeer @ [(k, m)])"

definition chooseSeeds :: "kube \<Rightarrow> cluster \<Rightarrow> go_error + (string \<times> member) list" where
  "chooseSeeds E c =
     (case Peers c of
        None \<Rightarrow> Inl (ErrNew ''No known peers'')
      | Some ms \<Rightarrow>
          (let bestPeer = fold (seedStep ms) (peer_order E ''chooseSeeds'' c) []
           in if bestPeer = [] then Inl (ErrNew ''No seed peers available'') else Inr bestPeer))"

definition memberStep :: "memberset \<Rightarrow> string \<Rightarrow> choice \<Rightarrow> choice" where
  "memberStep ms k bestPeer =
     (case map_of ms k of
        None \<Rightarrow> bestPeer
      | Some m \<Rightarrow>
          if \<not> Online m \<or> AppFailed m then bestPeer
          else if AppPrimary m then bestPeer
          else (case bestPeer of
                  None \<Rightarrow> Some (k, m)
                | Some (_, b) \<Rightarrow>
                    if SEQ m > SEQ b then Some (k, m)
                    else if MemberName m < MemberName b then Some (k, m)
                    else bestPeer))"

definition chooseMember :: "kube \<Rightarrow> cluster \<Rightarrow> go_error + string" where
  "chooseMember E c =
     (case Peers c of
        None \<Rightarrow> Inl (ErrNew ''No known peers'')
      | Some ms \<Rightarrow>
          (case fold (memberStep ms) (peer_order E ''chooseMember'' c) None of
             None \<Rightarrow> Inl (ErrNew ''No further peers available'')
           | Some (k, _) \<Rightarrow> Inr k))"

text \<open>The loop of \<^verbatim>\<open>chooseCurrentPrimary\<close>, which returns early at an offline primary.\<close>

fun currentPrimaryLoop :: "memberset \<Rightarrow> string list \<Rightarrow> choice \<Rightarrow> choice" where
  "currentPrimaryLoop ms [] bestPeer = bestPeer"
| "currentPrimaryLoop ms (k # ks) bestPeer =
     (case map_of ms k of
        None \<Rightarrow> currentPrimaryLoop ms ks bestPeer
      | Some m \<Rightarrow>
          if \<not> AppPrimary m \<or> AppFailed m then currentPrimaryLoop ms ks bestPeer
          else if \<not> Online m then Some (k, m)
          else (case bestPeer of
                  None \<Rightarrow> currentPrimaryLoop ms ks (Some (k, m))
                | Some (_, b) \<Rightarrow>
                    currentPrimaryLoop ms ks (if MemberName m > MemberName b then Some (k, m) else bestPeer)))"

definition chooseCurrentPrimary :: "kube \<Rightarrow> cluster \<Rightarrow> go_error + string" where
  "chooseCurrentPrimary E c =
     (case Peers c of
        None \<Rightarrow> Inl (ErrNew ''No known peers'')
      | Some ms \<Rightarrow>
          (case currentPrimaryLoop ms (peer_order E ''chooseCurrentPrimary'' c) None of
             None \<Rightarrow> Inl (ErrNew ''No primaries remaining'')
           | Some (k, _) \<Rightarrow> Inr k))"

section \<open>Loops with a break\<close>

text \<open>
  \<^verbatim>\<open>for cond { body }\<close>: the body says whether to go on (\<open>True\<close>) or to break.
\<close>

fun go_while :: "nat \<Rightarrow> ('s \<Rightarrow> bool) \<Rightarrow> ('s \<Rightarrow> (bool \<times> 's) go) \<Rightarrow> 's \<Rightarrow> 's go" where
  "go_while fuel cond body s =
     (if \<not> cond s then Ret s
      else case fuel of
             0 \<Rightarrow> Stuck
           | Suc n \<Rightarrow> go_bind (body s) (\<lambda>(more, s'). if more then go_while n cond body s' else Ret s'))"

declare go_while.simps [simp del]

section \<open>Replication\<close>

type_synonym repl = "go_error list \<times> cluster"

fun seedLoop :: "kube \<Rightarrow> string list \<Rightarrow> repl \<Rightarrow> repl go" where
  "seedLoop E [] s = Ret s"
| "seedLoop E (k # ks) s =
     go_bind (startAppMember E k True (snd s)) (\<lambda>(err, c1).
       let errors = appendNonNil (fst s) err
       in if AppPrimaries (peerset c1) \<noteq> 0 then Ret (errors, c1) else seedLoop E ks (errors, c1))"

definition startPrimary :: "kube \<Rightarrow> repl \<Rightarrow> (bool \<times> repl) go" where
  "startPrimary E = (\<lambda>(errors, c).
     case chooseMember E c of
       Inl err \<Rightarrow> Ret (False, (appendNonNil errors (Some err), c))
     | Inr k \<Rightarrow>
         go_bind (startAppMember E k True c) (\<lambda>(err, c1).
           Ret (AppPrimaries (peerset c1) \<noteq> 0, (appendNonNil errors err, c1))))"

definition demotePrimary :: "kube \<Rightarrow> repl \<Rightarrow> (bool \<times> repl) go" where
  "demotePrimary E = (\<lambda>(errors, c).
     case chooseCurrentPrimary E c of
       Inl err \<Rightarrow> Ret (False, (appendNonNil errors (Some err), c))
     | Inr k \<Rightarrow> go_bind (stopAppMember E k c) (\<lambda>(err, c1). Ret (True, (appendNonNil errors err, c1))))"

definition startSecondary :: "kube \<Rightarrow> repl \<Rightarrow> (bool \<times> repl) go" where
  "startSecondary E = (\<lambda>(errors, c).
     case chooseMember E c of
       Inl err \<Rightarrow> Ret (False, (appendNonNil errors (Some err), c))
     | Inr k \<Rightarrow> go_bind (startAppMember E k False c) (\<lambda>(err, c1). Ret (True, (appendNonNil errors err, c1))))"

definition startPrimaries :: "kube \<Rightarrow> nat \<Rightarrow> int32 \<Rightarrow> repl \<Rightarrow> repl go" where
  "startPrimaries E fuel primaries = go_while fuel (\<lambda>(_, c). AppPrimaries (peerset c) < primaries) (startPrimary E)"

definition demotePrimaries :: "kube \<Rightarrow> nat \<Rightarrow> int32 \<Rightarrow> repl \<Rightarrow> repl go" where
  "demotePrimaries E fuel primaries = go_while fuel (\<lambda>(_, c). AppPrimaries (peerset c) > primaries) (demotePrimary E)"

definition startSecondaries :: "kube \<Rightarrow> nat \<Rightarrow> int32 \<Rightarrow> repl \<Rightarrow> repl go" where
  "startSecondaries E fuel replicas = go_while fuel (\<lambda>(_, c). AppMembers (peerset c) < replicas) (startSecondary E)"

text \<open>From seeding to the first primary; \<open>Inl\<close> is an early return.\<close>

definition bootstrap :: "kube \<Rightarrow> cluster \<Rightarrow> (go_error list \<times> cluster + cluster) go" where
  "bootstrap E c =
     (if AppPrimaries (peerset c) \<noteq> 0 then Ret (Inr c)
      else case chooseSeeds E c of
             Inl err \<Rightarrow> Ret (Inl ([ErrNew (''Bootstrapping failed: '' @ Error err)], c))
           | Inr seeds \<Rightarrow>
               go_bind (seedLoop E (map fst seeds) ([], c)) (\<lambda>(errors, c1).
                 if AppPrimaries (peerset c1) \<noteq> 0 then Ret (Inr c1)
                 else go_bind (deref (fst (hd seeds)) c1) (\<lambda>m.
                   Ret (Inl ([ErrNew (''Bootstrapping from '' @ show_nat (length seeds) @ '' possible seeds with version '' @
                     show_nat (unat (SEQ m)) @ '' failed: '' @ showErr (combineErrors errors))], c1)))))"

definition onlyIfClean :: "(repl \<Rightarrow> repl go) \<Rightarrow> repl \<Rightarrow> repl go" where
  "onlyIfClean f s = (if length (fst s) = 0 then f s else Ret s)"

text \<open>
  \<^verbatim>\<open>replicate\<close> up to the demotion of excess primaries (\<open>Inl\<close> is an early return), what it does at
  the end, and the whole of it without and with its deferred call.
\<close>

definition replicateFront :: "kube \<Rightarrow> nat \<Rightarrow> cluster \<Rightarrow> (repl + repl) go" where
  "replicateFront E fuel c =
     (let replicas = GetNumReplicas (Spec (CRss c)); primaries = GetNumPrimaries (Spec (CRss c)); ps = peerset c
      in if AppMembers ps > replicas then
           Ret (Inl ([ErrNew (''Waiting for '' @ show_int (wrap32 (AppMembers ps - primaries)) @ '' peers to be stopped'')], c))
         else if AppPrimaries ps = 0 \<and> ActiveMembers ps \<noteq> replicas then
           Ret (Inl ([ErrNew (''Waiting for '' @ show_int (wrap32 (replicas - ActiveMembers ps)) @
                  '' additional peer containers to be available before seeding'')], c))
         else
           go_bind (if AppPrimaries ps \<noteq> primaries \<or> AppMembers ps \<noteq> replicas then detectMembers E c else Ret c) (\<lambda>c1.
             go_bind (bootstrap E c1) (\<lambda>r.
               case r of
                 Inl early \<Rightarrow> Ret (Inl early)
               | Inr c2 \<Rightarrow>
                   go_bind (startPrimaries E fuel primaries ([], c2)) (\<lambda>s3.
                     go_bind (onlyIfClean (demotePrimaries E fuel primaries) s3) (\<lambda>s4. Ret (Inr s4))))))"

definition replicateFinish :: "kube \<Rightarrow> int32 \<Rightarrow> repl \<Rightarrow> repl go" where
  "replicateFinish E replicas = (\<lambda>(errors, c).
     if length errors = 0 \<and> replicas > 0 then Ret (errors, c)
     else go_bind (recover E c) (\<lambda>(es, c'). Ret (appendAllNonNil errors (map Some es), c')))"

definition replicateBody :: "kube \<Rightarrow> nat \<Rightarrow> cluster \<Rightarrow> repl go" where
  "replicateBody E fuel c =
     (let replicas = GetNumReplicas (Spec (CRss c))
      in go_bind (replicateFront E fuel c) (\<lambda>r.
           case r of
             Inl early \<Rightarrow> Ret early
           | Inr s \<Rightarrow> go_bind (onlyIfClean (startSecondaries E fuel replicas) s) (replicateFinish E replicas)))"

definition replicate_step :: "kube \<Rightarrow> nat \<Rightarrow> cluster \<Rightarrow> repl go" where
  "replicate_step E fuel c =
     go_bind (replicateBody E fuel c) (\<lambda>(errors, c'). Ret (errors, snd (updateCRStatus E ''replicate'' c')))"

section \<open>What the choosers choose\<close>

definition eligible :: "member \<Rightarrow> bool" where
  "eligible m = (Online m \<and> \<not> AppFailed m \<and> \<not> AppPrimary m)"

definition demotable :: "member \<Rightarrow> bool" where
  "demotable m = (AppPrimary m \<and> \<not> AppFailed m)"

text \<open>A choice points into the members and satisfies the predicate.\<close>

definition points_to :: "memberset \<Rightarrow> (member \<Rightarrow> bool) \<Rightarrow> string \<times> member \<Rightarrow> bool" where
  "points_to ms P = (\<lambda>(k, m). map_of ms k = Some m \<and> P m)"

lemma memberStep_cases:
  "memberStep ms k best =
     (case map_of ms k of
        Some m \<Rightarrow> if eligible m then
            (case best of None \<Rightarrow> Some (k, m)
             | Some (_, b) \<Rightarrow> if SEQ m > SEQ b \<or> MemberName m < MemberName b then Some (k, m) else best)
          else best
      | None \<Rightarrow> best)"
  by (auto simp: memberStep_def eligible_def split: option.splits)

lemma fold_memberStep:
  "pred_option (points_to ms eligible) best \<Longrightarrow>
   pred_option (points_to ms eligible) (fold (memberStep ms) ks best) \<and>
   (fold (memberStep ms) ks best = None \<longleftrightarrow> best = None \<and> (\<forall>k \<in> set ks. \<forall>m. map_of ms k = Some m \<longrightarrow> \<not> eligible m))"
proof (induction ks arbitrary: best)
  case Nil
  then show ?case by simp
next
  case (Cons k ks)
  have step: "pred_option (points_to ms eligible) (memberStep ms k best)"
    using Cons.prems by (auto simp: memberStep_cases points_to_def split: option.splits prod.splits)
  have "memberStep ms k best = None \<longleftrightarrow> best = None \<and> (\<forall>m. map_of ms k = Some m \<longrightarrow> \<not> eligible m)"
    by (auto simp: memberStep_cases split: option.splits if_splits)
  with Cons.IH [OF step] show ?case by auto
qed

lemma peerset_Some: "Peers c = Some ms \<Longrightarrow> peerset c = ms"
  by (simp add: peerset_def)

lemma chooseMember_Inr:
  "chooseMember E c = Inr k \<Longrightarrow> \<exists>m. map_of (peerset c) k = Some m \<and> eligible m"
  using fold_memberStep [of "peerset c" None "peer_order E ''chooseMember'' c"]
  by (auto simp: chooseMember_def peerset_Some points_to_def split: option.splits)

lemma chooseMember_Inl:
  assumes "ms_wf (peerset c)" and "chooseMember E c = Inl e"
  shows "plain e" and "map_of (peerset c) k = Some m \<Longrightarrow> \<not> eligible m"
proof -
  show "plain e" using assms(2) by (auto simp: chooseMember_def split: option.splits)
  show "\<not> eligible m" if m: "map_of (peerset c) k = Some m"
  proof -
    from m obtain ms where ms: "Peers c = Some ms" by (cases "Peers c") (auto simp: peerset_def)
    with assms(2) have "fold (memberStep ms) (peer_order E ''chooseMember'' c) None = None"
      by (auto simp: chooseMember_def split: option.splits)
    then have "\<forall>k \<in> set (peer_order E ''chooseMember'' c). \<forall>m. map_of ms k = Some m \<longrightarrow> \<not> eligible m"
      using fold_memberStep [of ms None "peer_order E ''chooseMember'' c"] by simp
    moreover have "k \<in> set (peer_order E ''chooseMember'' c)" using m peer_order_props(2) [OF assms(1)] by simp
    ultimately show ?thesis using m peerset_Some [OF ms] by auto
  qed
qed

text \<open>A member that is best in both respects is chosen in every order of iteration.\<close>

definition dominates :: "memberset \<Rightarrow> member \<Rightarrow> bool" where
  "dominates ms m0 \<longleftrightarrow>
     (\<forall>k m. map_of ms k = Some m \<and> eligible m \<longrightarrow> SEQ m \<le> SEQ m0 \<and> MemberName m0 \<le> MemberName m)"

lemma fold_memberStep_keep:
  assumes "dominates ms m0"
  shows "fold (memberStep ms) ks (Some (k0, m0)) = Some (k0, m0)"
proof (induction ks)
  case (Cons k ks)
  have "memberStep ms k (Some (k0, m0)) = Some (k0, m0)"
    using assms by (auto simp: memberStep_cases dominates_def not_less [symmetric] split: option.splits)
  with Cons show ?case by simp
qed simp

lemma fold_memberStep_dominant:
  assumes dom: "dominates ms m0" and m0: "map_of ms k0 = Some m0" "eligible m0" and wf: "ms_wf ms"
  shows "k0 \<in> set ks \<Longrightarrow> pred_option (points_to ms eligible) best \<Longrightarrow> fold (memberStep ms) ks best = Some (k0, m0)"
proof (induction ks arbitrary: best)
  case (Cons k ks)
  show ?case
  proof (cases "k = k0")
    case True
    have "memberStep ms k0 best = Some (k0, m0)"
    proof (cases best)
      case (Some kb)
      obtain kb' b where kb: "kb = (kb', b)" by (cases kb)
      with Cons.prems Some have b: "map_of ms kb' = Some b" "eligible b" by (auto simp: points_to_def)
      show ?thesis
      proof (cases "kb' = k0")
        case True
        with b m0 Some kb show ?thesis by (simp add: memberStep_cases)
      next
        case False
        then have "MemberName m0 \<noteq> MemberName b" using ms_wf_name [OF wf] b m0 by metis
        moreover have "MemberName m0 \<le> MemberName b" using dom b by (auto simp: dominates_def)
        ultimately show ?thesis using m0 Some kb by (simp add: memberStep_cases)
      qed
    qed (simp add: memberStep_cases m0)
    with True fold_memberStep_keep [OF dom] show ?thesis by simp
  next
    case False
    have "pred_option (points_to ms eligible) (memberStep ms k best)"
      using fold_memberStep [OF Cons.prems(2), of "[k]"] by simp
    with Cons False show ?thesis by simp
  qed
qed simp

lemma chooseMember_dominant:
  assumes "ms_wf (peerset c)" and "map_of (peerset c) k0 = Some m0" and "eligible m0" and "dominates (peerset c) m0"
  shows "chooseMember E c = Inr k0"
proof -
  from assms(2) obtain ms where ms: "Peers c = Some ms" by (cases "Peers c") (auto simp: peerset_def)
  have "k0 \<in> set (peer_order E ''chooseMember'' c)" using assms(2) peer_order_props(2) [OF assms(1)] by simp
  then have "fold (memberStep ms) (peer_order E ''chooseMember'' c) None = Some (k0, m0)"
    using fold_memberStep_dominant [OF assms(4,2,3,1)] by (simp add: peerset_Some [OF ms])
  with ms show ?thesis by (simp add: chooseMember_def)
qed

text \<open>The primary to demote.\<close>

lemma currentPrimaryLoop_props:
  assumes "\<forall>k m. map_of ms k = Some m \<and> AppPrimary m \<longrightarrow> Online m"
  shows "pred_option (points_to ms demotable) best \<Longrightarrow>
    pred_option (points_to ms demotable) (currentPrimaryLoop ms ks best) \<and>
    (currentPrimaryLoop ms ks best = None \<longleftrightarrow> best = None \<and> (\<forall>k \<in> set ks. \<forall>m. map_of ms k = Some m \<longrightarrow> \<not> demotable m)) \<and>
    (\<forall>kb b. currentPrimaryLoop ms ks best = Some (kb, b) \<longrightarrow>
       (\<forall>k \<in> set ks. \<forall>m. map_of ms k = Some m \<and> demotable m \<longrightarrow> MemberName m \<le> MemberName b) \<and>
       (\<forall>k m. best = Some (k, m) \<longrightarrow> MemberName m \<le> MemberName b))"
proof (induction ks arbitrary: best)
  case Nil
  then show ?case by simp
next
  case (Cons k ks)
  show ?case
  proof (cases "map_of ms k")
    case None
    with Cons.IH [OF Cons.prems] show ?thesis by auto
  next
    case (Some m)
    show ?thesis
    proof (cases "demotable m")
      case False
      with Some Cons.IH [OF Cons.prems] show ?thesis by (auto simp: demotable_def)
    next
      case True
      define nxt where "nxt = (case best of None \<Rightarrow> Some (k, m)
        | Some (_, b) \<Rightarrow> if MemberName m > MemberName b then Some (k, m) else best)"
      have loop: "currentPrimaryLoop ms (k # ks) best = currentPrimaryLoop ms ks nxt"
        using Some True assms by (auto simp: nxt_def demotable_def split: option.splits)
      have nxt: "pred_option (points_to ms demotable) nxt" "nxt \<noteq> None"
        "\<And>kb b. nxt = Some (kb, b) \<Longrightarrow> MemberName m \<le> MemberName b \<and> (\<forall>k' m'. best = Some (k', m') \<longrightarrow> MemberName m' \<le> MemberName b)"
        using Cons.prems Some True by (auto simp: nxt_def points_to_def split: option.splits if_splits)
      obtain kn n where n: "nxt = Some (kn, n)" using nxt(2) by auto
      note ih = Cons.IH [OF nxt(1)]
      show ?thesis unfolding loop
        using ih nxt(3) [OF n] Some True n by (auto intro: order_trans)
    qed
  qed
qed

lemma chooseCurrentPrimary_props:
  assumes "cluster_inv c"
  shows "chooseCurrentPrimary E c = Inr k \<Longrightarrow>
      \<exists>m. map_of (peerset c) k = Some m \<and> demotable m \<and>
        (\<forall>k' m'. map_of (peerset c) k' = Some m' \<and> demotable m' \<longrightarrow> MemberName m' \<le> MemberName m)"
    and "chooseCurrentPrimary E c = Inl e \<Longrightarrow> plain e \<and> (\<forall>k m. map_of (peerset c) k = Some m \<longrightarrow> \<not> demotable m)"
proof -
  have wf: "ms_wf (peerset c)" using assms by (simp add: cluster_inv_def)
  have on: "\<forall>k m. map_of (peerset c) k = Some m \<and> AppPrimary m \<longrightarrow> Online m"
    using assms by (auto simp: cluster_inv_def member_inv_def)
  note props = currentPrimaryLoop_props [where best = None and ms = "peerset c" and
      ks = "peer_order E ''chooseCurrentPrimary'' c", OF on, simplified]
  note keys = peer_order_props(2) [OF wf, of E "''chooseCurrentPrimary''"]
  show "\<exists>m. map_of (peerset c) k = Some m \<and> demotable m \<and>
        (\<forall>k' m'. map_of (peerset c) k' = Some m' \<and> demotable m' \<longrightarrow> MemberName m' \<le> MemberName m)"
    if chosen: "chooseCurrentPrimary E c = Inr k"
  proof -
    obtain m where "currentPrimaryLoop (peerset c) (peer_order E ''chooseCurrentPrimary'' c) None = Some (k, m)"
      using chosen by (auto simp: chooseCurrentPrimary_def peerset_Some split: option.splits)
    with props keys show ?thesis by (auto simp: points_to_def)
  qed
  show "plain e \<and> (\<forall>k m. map_of (peerset c) k = Some m \<longrightarrow> \<not> demotable m)" if "chooseCurrentPrimary E c = Inl e"
  proof (cases "Peers c")
    case None
    with that show ?thesis by (auto simp: chooseCurrentPrimary_def peerset_def)
  next
    case (Some ms)
    with that have "plain e" "currentPrimaryLoop (peerset c) (peer_order E ''chooseCurrentPrimary'' c) None = None"
      by (auto simp: chooseCurrentPrimary_def peerset_Some split: option.splits)
    with props keys show ?thesis by auto
  qed
qed

section \<open>Loops that use up a stock\<close>

text \<open>
  The contract of a loop that ends: while it goes on, its invariant holds and its stock gets
  smaller; when it breaks, the break condition holds. Then one iteration more than the stock is
  enough.
\<close>

locale draining_loop =
  fixes cond :: "'s \<Rightarrow> bool" and body :: "'s \<Rightarrow> (bool \<times> 's) go"
    and linv :: "'s \<Rightarrow> bool" and broken :: "'s \<Rightarrow> bool" and stock :: "'s \<Rightarrow> nat"
  assumes body_step: "linv s \<Longrightarrow> cond s \<Longrightarrow>
    go_ok (\<lambda>(more, s'). if more then linv s' \<and> stock s' < stock s else broken s') (body s)"
begin

lemma returns: "linv s \<Longrightarrow> stock s < fuel \<Longrightarrow> go_ok (\<lambda>s'. linv s' \<and> \<not> cond s' \<or> broken s') (go_while fuel cond body s)"
proof (induction fuel arbitrary: s)
  case (Suc n)
  show ?case
  proof (cases "cond s")
    case True
    have "go_ok (\<lambda>s'. linv s' \<and> \<not> cond s' \<or> broken s')
        (go_bind (body s) (\<lambda>(more, s'). if more then go_while n cond body s' else Ret s'))"
      by (rule go_ok_bind [OF body_step [OF Suc.prems(1) True]]) (use Suc in auto)
    with True show ?thesis by (simp add: go_while.simps)
  qed (use Suc.prems in \<open>simp add: go_while.simps\<close>)
qed simp

end

text \<open>Without a bound on the iterations, a loop that does not panic keeps its invariant when it returns.\<close>

lemma go_while_safe:
  assumes "I s" and step: "\<And>s. I s \<Longrightarrow> cond s \<Longrightarrow> go_safe (\<lambda>(more, s'). if more then I s' else B s') (body s)"
  shows "go_safe (\<lambda>s'. I s' \<and> \<not> cond s' \<or> B s') (go_while fuel cond body s)"
  using assms(1)
proof (induction fuel arbitrary: s)
  case 0
  then show ?case by (simp add: go_while.simps)
next
  case (Suc n)
  show ?case
  proof (cases "cond s")
    case True
    have "go_safe (\<lambda>s'. I s' \<and> \<not> cond s' \<or> B s')
        (go_bind (body s) (\<lambda>(more, s'). if more then go_while n cond body s' else Ret s'))"
      by (rule go_safe_bind [OF step [OF Suc.prems True]]) (use Suc.IH in auto)
    with True show ?thesis by (simp add: go_while.simps)
  qed (use Suc.prems in \<open>simp add: go_while.simps\<close>)
qed

section \<open>The loops of replication\<close>

definition count :: "(member \<Rightarrow> bool) \<Rightarrow> cluster \<Rightarrow> nat" where
  "count P c = length (filter P (members (peerset c)))"

text \<open>What the loops keep: well-formed members that the counters can count, and the resource.\<close>

definition repl_inv :: "kube \<Rightarrow> rss \<Rightarrow> clusterstatus \<Rightarrow> nat \<Rightarrow> repl \<Rightarrow> bool" where
  "repl_inv E r st n = (\<lambda>(errors, c). pods_labelled E \<and> cluster_inv c \<and> ms_small (peerset c) \<and>
     length (peerset c) = n \<and> CRss c = r \<and> CStatus c = st \<and> list_all plain errors)"

text \<open>A loop that breaks has an error to report.\<close>

definition repl_broken :: "kube \<Rightarrow> rss \<Rightarrow> clusterstatus \<Rightarrow> nat \<Rightarrow> repl \<Rightarrow> bool" where
  "repl_broken E r st n s \<longleftrightarrow> repl_inv E r st n s \<and> fst s \<noteq> []"

lemma AppPrimaries_count:
  "cluster_inv c \<Longrightarrow> ms_small (peerset c) \<Longrightarrow> AppPrimaries (peerset c) = int (count AppPrimary c)"
proof -
  assume inv: "cluster_inv c" and small: "ms_small (peerset c)"
  have "(Online m \<and> AppPrimary m \<and> AppRunning m) = AppPrimary m" if "m \<in> set (members (peerset c))" for m
  proof -
    have "distinct (map fst (peerset c))" using inv by (simp add: cluster_inv_def ms_wf_distinct)
    with that obtain k where "map_of (peerset c) k = Some m" by (auto simp: set_members ran_def)
    with inv have "member_inv m" by (auto simp: cluster_inv_def)
    then show ?thesis by (auto simp: member_inv_def)
  qed
  then have "filter (\<lambda>m. Online m \<and> AppPrimary m \<and> AppRunning m) (members (peerset c)) = filter AppPrimary (members (peerset c))"
    by (intro filter_cong) auto
  then show ?thesis by (simp add: AppPrimaries_eq [OF small] count_def)
qed

lemma count_step:
  assumes "cluster_inv c" and "map_of (peerset c) k = Some m" and "member_step c k m' c'"
  shows "int (count P c') = int (count P c) - (if P m then 1 else 0) + (if P m' then 1 else 0)"
  using filter_members_update [OF assms(2), of P m'] assms
  by (simp add: count_def member_step_peerset [OF assms(3)] cluster_inv_def ms_wf_distinct)

lemma repl_inv_step:
  assumes inv: "repl_inv E r st n (errors, c)" and m: "map_of (peerset c) k = Some m" and step: "member_step c k m' c'"
    and m': "MemberName m' = MemberName m" "member_inv m'" and "list_all plain errors'"
  shows "repl_inv E r st n (errors', c')"
proof -
  have wf: "ms_wf (peerset c)" and cinv: "cluster_inv c" using inv by (simp_all add: repl_inv_def cluster_inv_def)
  have "MemberName m' = k" using m'(1) ms_wf_name [OF wf m] by simp
  then have "ms_wf (peerset c')" by (rule member_step_wf [OF step wf])
  moreover have "length (peerset c') = length (peerset c)"
    using length_update_old [OF m] by (simp add: member_step_peerset [OF step])
  moreover have "\<forall>j x. map_of (peerset c') j = Some x \<longrightarrow> member_inv x"
    using cinv m'(2) by (auto simp: member_step_peerset [OF step] cluster_inv_def)
  ultimately show ?thesis
    using inv assms(6) member_step_rss [OF step] by (simp add: repl_inv_def cluster_inv_def ms_small_def)
qed

lemma repl_inv_unfold:
  "repl_inv E r st n (errors, c) \<Longrightarrow> pods_labelled E \<and> cluster_inv c \<and> ms_small (peerset c) \<and> ms_wf (peerset c) \<and> list_all plain errors"
  by (simp add: repl_inv_def cluster_inv_def)

lemma appendNonNil_plain:
  "pred_option plain e \<Longrightarrow> appendNonNil es e = es @ (case e of None \<Rightarrow> [] | Some x \<Rightarrow> [x])"
  by (cases e) (simp_all add: plain_text)

text \<open>Starting an eligible member.\<close>

lemma start_eligible:
  assumes inv: "repl_inv E r st n (errors, c)" and m: "map_of (peerset c) k = Some m" and el: "eligible m"
  shows "go_ok (\<lambda>(e, c1). repl_inv E r st n (appendNonNil errors e, c1) \<and>
             (e = None \<longrightarrow> appendNonNil errors e = errors) \<and> (e \<noteq> None \<longrightarrow> appendNonNil errors e \<noteq> []) \<and>
             (e = None \<longrightarrow> member_step c k (started p m) c1) \<and> (e \<noteq> None \<longrightarrow> member_step c k (markFailed m) c1))
           (startAppMember E k p c)"
proof (rule go_ok_mono [OF startAppMember_spec [of E c k m p]], use repl_inv_unfold [OF inv] in simp, rule m, clarify)
  fix e c1
  assume step: "member_step c k (if e = None then started p m else markFailed m) c1" and e: "pred_option plain e"
  have "member_inv m" using inv m by (auto simp: repl_inv_def cluster_inv_def)
  moreover have "list_all plain (appendNonNil errors e)"
    using e repl_inv_unfold [OF inv] by (cases e) (simp_all add: appendNonNil_plain)
  ultimately have "repl_inv E r st n (appendNonNil errors e, c1)"
    using el by (intro repl_inv_step [OF inv m step]) (auto simp: eligible_def)
  with step e show "repl_inv E r st n (appendNonNil errors e, c1) \<and>
      (e = None \<longrightarrow> appendNonNil errors e = errors) \<and> (e \<noteq> None \<longrightarrow> appendNonNil errors e \<noteq> []) \<and>
      (e = None \<longrightarrow> member_step c k (started p m) c1) \<and> (e \<noteq> None \<longrightarrow> member_step c k (markFailed m) c1)"
    by (cases e) (auto simp: appendNonNil_plain)
qed

lemma count_pos: "map_of (peerset c) k = Some m \<Longrightarrow> P m \<Longrightarrow> 0 < count P c"
  by (auto simp: count_def members_def filter_empty_conv dest!: map_of_SomeD) force

lemma count_less:
  "cluster_inv c \<Longrightarrow> map_of (peerset c) k = Some m \<Longrightarrow> member_step c k m' c' \<Longrightarrow> P m \<Longrightarrow> \<not> P m' \<Longrightarrow>
   count P c' < count P c"
  using count_step [of c k m m' c' P] by simp

lemma startPrimary_step:
  assumes inv: "repl_inv E r st n s"
  shows "go_ok (\<lambda>(more, s'). if more then repl_inv E r st n s' \<and> count eligible (snd s') < count eligible (snd s)
           else repl_broken E r st n s') (startPrimary E s)"
proof -
  obtain errors c where s: "s = (errors, c)" by (cases s)
  note i = inv [unfolded s] and u = repl_inv_unfold [OF inv [unfolded s]]
  show ?thesis
  proof (cases "chooseMember E c")
    case (Inl e)
    then have "plain e" using chooseMember_Inl(1) u by blast
    with Inl i show ?thesis by (simp add: s startPrimary_def repl_broken_def repl_inv_def plain_text)
  next
    case (Inr k)
    then obtain m where m: "map_of (peerset c) k = Some m" "eligible m" using chooseMember_Inr by blast
    have "go_ok (\<lambda>(more, s'). if more then repl_inv E r st n s' \<and> count eligible (snd s') < count eligible c
           else repl_broken E r st n s')
         (go_bind (startAppMember E k True c) (\<lambda>(err, c1). Ret (AppPrimaries (peerset c1) \<noteq> 0, (appendNonNil errors err, c1))))"
    proof (rule go_ok_bind [OF start_eligible [OF i m]], clarify, unfold go_ok_simps, clarify)
      fix e c1
      assume i1: "repl_inv E r st n (appendNonNil errors e, c1)" and ne: "e \<noteq> None \<longrightarrow> appendNonNil errors e \<noteq> []"
        and ok: "e = None \<longrightarrow> member_step c k (started True m) c1" and bad: "e \<noteq> None \<longrightarrow> member_step c k (markFailed m) c1"
      note u1 = repl_inv_unfold [OF i1]
      have less: "count eligible c1 < count eligible c"
        using ok bad u m count_less [of c k m "started True m" c1 eligible] count_less [of c k m "markFailed m" c1 eligible]
        by (cases e) (simp_all add: eligible_def started_def)
      have prim: "AppPrimaries (peerset c1) \<noteq> 0" if "e = None"
      proof -
        have "map_of (peerset c1) k = Some (started True m)" using ok that by (simp add: member_step_peerset)
        then show ?thesis using count_pos [of c1 k _ AppPrimary] u1 AppPrimaries_count [of c1] by (auto simp: started_def)
      qed
      show "if AppPrimaries (peerset c1) \<noteq> 0
        then repl_inv E r st n (appendNonNil errors e, c1) \<and> count eligible (snd (appendNonNil errors e, c1)) < count eligible c
        else repl_broken E r st n (appendNonNil errors e, c1)"
        using i1 ne less prim by (auto simp: repl_broken_def)
    qed
    with Inr show ?thesis unfolding s snd_conv by (simp add: startPrimary_def split del: if_split)
  qed
qed

interpretation start_loop: draining_loop "\<lambda>(_, c). AppPrimaries (peerset c) < primaries" "startPrimary E"
  "repl_inv E r st n" "repl_broken E r st n" "\<lambda>s. count eligible (snd s)" for E r st n primaries
  by unfold_locales (rule startPrimary_step)

text \<open>A demotion never takes away more than one primary.\<close>

definition demote_inv :: "kube \<Rightarrow> rss \<Rightarrow> clusterstatus \<Rightarrow> nat \<Rightarrow> int32 \<Rightarrow> repl \<Rightarrow> bool" where
  "demote_inv E r st n p s \<longleftrightarrow> repl_inv E r st n s \<and> p \<le> AppPrimaries (peerset (snd s))"

lemma demotePrimary_step:
  assumes inv: "repl_inv E r st n s" and cond: "p < AppPrimaries (peerset (snd s))"
  shows "go_ok (\<lambda>(more, s'). if more then demote_inv E r st n p s' \<and> count demotable (snd s') < count demotable (snd s)
           else repl_broken E r st n s') (demotePrimary E s)"
proof -
  obtain errors c where s: "s = (errors, c)" by (cases s)
  note i = inv [unfolded s] and u = repl_inv_unfold [OF inv [unfolded s]]
  show ?thesis
  proof (cases "chooseCurrentPrimary E c")
    case (Inl e)
    then have "plain e" using chooseCurrentPrimary_props(2) u by blast
    with Inl i show ?thesis by (simp add: s demotePrimary_def repl_broken_def repl_inv_def plain_text)
  next
    case (Inr k)
    then obtain m where m: "map_of (peerset c) k = Some m" "demotable m" using chooseCurrentPrimary_props(1) u by blast
    have mi: "member_inv m" "Online m" using m u by (auto simp: cluster_inv_def member_inv_def demotable_def)
    have "go_ok (\<lambda>(more, s'). if more then demote_inv E r st n p s' \<and> count demotable (snd s') < count demotable c
           else repl_broken E r st n s')
         (go_bind (stopAppMember E k c) (\<lambda>(err, c1). Ret (True, (appendNonNil errors err, c1))))"
    proof (rule go_ok_bind [OF stopAppMember_spec [OF _ m(1)]], use u in simp, clarify)
      fix e c1
      assume step: "member_step c k (if e = None then stopped m else markFailed m) c1" and e: "pred_option plain e"
      have "list_all plain (appendNonNil errors e)" using e u by (cases e) (simp_all add: appendNonNil_plain)
      then have i1: "repl_inv E r st n (appendNonNil errors e, c1)"
        using mi by (intro repl_inv_step [OF i m(1) step]) auto
      moreover have "count demotable c1 < count demotable c"
        using u m(2) by (intro count_less [OF _ m(1) step]) (auto simp: demotable_def stopped_def)
      moreover have "p \<le> AppPrimaries (peerset c1)"
        using count_step [OF _ m(1) step, of AppPrimary] cond u repl_inv_unfold [OF i1]
        by (simp add: s AppPrimaries_count split: if_splits)
      ultimately show "go_ok (\<lambda>(more, s'). if more then demote_inv E r st n p s' \<and> count demotable (snd s') < count demotable c
           else repl_broken E r st n s') (Ret (True, (appendNonNil errors e, c1)))" by (simp add: demote_inv_def)
    qed
    with Inr show ?thesis unfolding s snd_conv by (simp add: demotePrimary_def split del: if_split)
  qed
qed

interpretation demote_loop: draining_loop "\<lambda>(_, c). AppPrimaries (peerset c) > primaries" "demotePrimary E"
  "demote_inv E r st n primaries" "repl_broken E r st n" "\<lambda>s. count demotable (snd s)" for E r st n primaries
  by unfold_locales (rule demotePrimary_step, auto simp: demote_inv_def split: prod.splits)

lemma count_le: "count P c \<le> length (peerset c)"
  using length_filter_le [of P "members (peerset c)"] by (simp add: count_def members_def)

section \<open>Seeding\<close>

text \<open>What the loop of \<open>chooseSeeds\<close> has found after visiting the keys \<open>V\<close>.\<close>

definition seeds_of :: "memberset \<Rightarrow> string set \<Rightarrow> (string \<times> member) list \<Rightarrow> bool" where
  "seeds_of ms V best \<longleftrightarrow>
     list_all (points_to ms eligible) best \<and> distinct (map fst best) \<and> set (map fst best) \<subseteq> V \<and>
     (\<forall>k \<in> V. \<forall>m. map_of ms k = Some m \<and> eligible m \<longrightarrow>
        best \<noteq> [] \<and> SEQ m \<le> SEQ (snd (hd best)) \<and> (SEQ m = SEQ (snd (hd best)) \<longrightarrow> (k, m) \<in> set best))"

lemma seedStep_cases:
  "seedStep ms k best =
     (case map_of ms k of
        Some m \<Rightarrow> if eligible m then
            (if best = [] \<or> SEQ m > SEQ (snd (hd best)) then [(k, m)] else best @ [(k, m)])
          else best
      | None \<Rightarrow> best)"
  by (auto simp: seedStep_def eligible_def split: option.splits)

lemma seeds_of_step:
  assumes "seeds_of ms V best" and "k \<notin> V"
  shows "seeds_of ms (insert k V) (seedStep ms k best)"
proof (cases "\<exists>m. map_of ms k = Some m \<and> eligible m")
  case False
  then have "seedStep ms k best = best" by (auto simp: seedStep_cases split: option.splits)
  with assms False show ?thesis by (auto simp: seeds_of_def)
next
  case True
  then obtain m where m: "map_of ms k = Some m" "eligible m" by blast
  show ?thesis
  proof (cases "best = [] \<or> SEQ m > SEQ (snd (hd best))")
    case True
    then have s: "seedStep ms k best = [(k, m)]" using m by (simp add: seedStep_cases)
    have lt: "SEQ x < SEQ m" if "j \<in> V" "map_of ms j = Some x" "eligible x" for j x
    proof -
      have "best \<noteq> []" "SEQ x \<le> SEQ (snd (hd best))" using assms(1) that by (auto simp: seeds_of_def)
      with True show ?thesis by auto
    qed
    with m assms(2) show ?thesis unfolding s by (auto simp: seeds_of_def points_to_def intro: less_imp_le dest: lt)
  next
    case False
    then have s: "seedStep ms k best = best @ [(k, m)]" and h: "hd (best @ [(k, m)]) = hd best"
      using m by (simp_all add: seedStep_cases)
    show ?thesis unfolding s seeds_of_def h
      using assms m False by (auto simp: seeds_of_def points_to_def not_less)
  qed
qed

lemma seeds_of_fold:
  "seeds_of ms V best \<Longrightarrow> distinct ks \<Longrightarrow> set ks \<inter> V = {} \<Longrightarrow> seeds_of ms (V \<union> set ks) (fold (seedStep ms) ks best)"
proof (induction ks arbitrary: V best)
  case (Cons k ks)
  then have "seeds_of ms (insert k V \<union> set ks) (fold (seedStep ms) ks (seedStep ms k best))"
    by (intro Cons.IH seeds_of_step) auto
  then show ?case by simp
qed simp

lemma chooseSeeds_Inr:
  assumes "ms_wf (peerset c)" and "chooseSeeds E c = Inr seeds"
  shows "seeds \<noteq> []" "seeds_of (peerset c) {k. map_of (peerset c) k \<noteq> None} seeds"
proof -
  from assms(2) obtain ms where ms: "Peers c = Some ms" "seeds = fold (seedStep ms) (peer_order E ''chooseSeeds'' c) []"
    and ne: "seeds \<noteq> []"
    by (auto simp: chooseSeeds_def Let_def split: option.splits if_splits)
  have "seeds_of ms {} []" by (simp add: seeds_of_def)
  from seeds_of_fold [OF this, of "peer_order E ''chooseSeeds'' c"] peer_order_props [OF assms(1), of E "''chooseSeeds''"]
  show "seeds_of (peerset c) {k. map_of (peerset c) k \<noteq> None} seeds" by (simp add: ms peerset_Some [OF ms(1)])
  show "seeds \<noteq> []" by (rule ne)
qed

lemma chooseSeeds_Inl:
  assumes "ms_wf (peerset c)" and "chooseSeeds E c = Inl e"
  shows "map_of (peerset c) k = Some m \<Longrightarrow> \<not> eligible m"
proof -
  assume m: "map_of (peerset c) k = Some m"
  then obtain ms where ms: "Peers c = Some ms" by (cases "Peers c") (auto simp: peerset_def)
  have "seeds_of ms {} []" by (simp add: seeds_of_def)
  from seeds_of_fold [OF this, of "peer_order E ''chooseSeeds'' c"] peer_order_props [OF assms(1), of E "''chooseSeeds''"]
  have "seeds_of ms {k. map_of ms k \<noteq> None} (fold (seedStep ms) (peer_order E ''chooseSeeds'' c) [])"
    by (simp add: peerset_Some [OF ms])
  moreover have "fold (seedStep ms) (peer_order E ''chooseSeeds'' c) [] = []"
    using assms(2) ms by (auto simp: chooseSeeds_def Let_def split: if_splits)
  ultimately show "\<not> eligible m" using m by (auto simp: seeds_of_def peerset_Some [OF ms])
qed

lemma seedLoop_spec:
  assumes "repl_inv E r st n s" and "distinct ks" and "\<forall>k \<in> set ks. \<exists>m. map_of (peerset (snd s)) k = Some m \<and> eligible m"
  shows "go_ok (\<lambda>s'. repl_inv E r st n s' \<and> map fst (peerset (snd s')) = map fst (peerset (snd s))) (seedLoop E ks s)"
  using assms
proof (induction ks arbitrary: s)
  case (Cons k ks)
  obtain errors c where s: "s = (errors, c)" by (cases s)
  from Cons.prems(3) obtain m where m: "map_of (peerset c) k = Some m" "eligible m" by (auto simp: s)
  have rest: "go_ok (\<lambda>s'. repl_inv E r st n s' \<and> map fst (peerset (snd s')) = map fst (peerset c))
      (if AppPrimaries (peerset c1) \<noteq> 0 then Ret (es, c1) else seedLoop E ks (es, c1))"
    if i1: "repl_inv E r st n (es, c1)" and step: "member_step c k m' c1" for es c1 m'
  proof -
    have "\<forall>j \<in> set ks. \<exists>x. map_of (peerset (snd (es, c1))) j = Some x \<and> eligible x"
      using Cons.prems(2,3) by (auto simp: s member_step_peerset [OF step])
    moreover have "map fst (peerset c1) = map fst (peerset c)" by (rule member_step_keys [OF step m(1)])
    ultimately show ?thesis using Cons.IH [OF i1] Cons.prems(2) i1 by simp
  qed
  show ?case
    unfolding s seedLoop.simps snd_conv fst_conv Let_def
  proof (rule go_ok_bind [OF start_eligible [OF Cons.prems(1) [unfolded s] m]], clarify)
    fix e c1
    assume "repl_inv E r st n (appendNonNil errors e, c1)"
      and "e = None \<longrightarrow> member_step c k (started True m) c1" "e \<noteq> None \<longrightarrow> member_step c k (markFailed m) c1"
    then show "go_ok (\<lambda>s'. repl_inv E r st n s' \<and> map fst (peerset (snd s')) = map fst (peerset c))
      (if AppPrimaries (peerset c1) \<noteq> 0 then Ret (appendNonNil errors e, c1)
       else seedLoop E ks (appendNonNil errors e, c1))"
      using rest by (cases e) blast+
  qed
qed simp

text \<open>A key of the members can be dereferenced.\<close>

lemma deref_key: "k \<in> set (map fst (peerset c)) \<Longrightarrow> \<exists>m. deref k c = Ret m"
  by (cases "map_of (peerset c) k") (auto simp: deref_def map_of_eq_None_iff)

lemma bootstrap_spec:
  assumes inv: "repl_inv E r st n ([], c)"
  shows "go_ok (\<lambda>x. case x of Inl s \<Rightarrow> repl_broken E r st n s | Inr c' \<Rightarrow> repl_inv E r st n ([], c')) (bootstrap E c)"
proof (cases "AppPrimaries (peerset c) \<noteq> 0")
  case True
  with inv show ?thesis by (simp add: bootstrap_def)
next
  case zero: False
  have wf: "ms_wf (peerset c)" using repl_inv_unfold [OF inv] by simp
  show ?thesis
  proof (cases "chooseSeeds E c")
    case (Inl e)
    with inv zero show ?thesis by (simp add: bootstrap_def repl_broken_def repl_inv_def)
  next
    case (Inr seeds)
    note seeds = chooseSeeds_Inr [OF wf Inr]
    have el: "\<forall>k \<in> set (map fst seeds). \<exists>m. map_of (peerset (snd ([], c))) k = Some m \<and> eligible m"
      and d: "distinct (map fst seeds)"
      using seeds(2) by (auto simp: seeds_of_def list_all_iff points_to_def)
    have "fst (hd seeds) \<in> set (map fst seeds)" using seeds(1) by (cases seeds) auto
    then have hd: "fst (hd seeds) \<in> set (map fst (peerset c))"
      using el by (metis map_of_eq_None_iff not_None_eq set_map snd_conv)
    have front: "bootstrap E c = go_bind (seedLoop E (map fst seeds) ([], c)) (\<lambda>(errors, c1).
        if AppPrimaries (peerset c1) \<noteq> 0 then Ret (Inr c1)
        else go_bind (deref (fst (hd seeds)) c1) (\<lambda>m.
          Ret (Inl ([ErrNew (''Bootstrapping from '' @ show_nat (length seeds) @ '' possible seeds with version '' @
            show_nat (unat (SEQ m)) @ '' failed: '' @ showErr (combineErrors errors))], c1))))"
      using zero Inr by (simp add: bootstrap_def)
    show ?thesis unfolding front
    proof (rule go_ok_bind [OF seedLoop_spec [OF inv d el]], clarify)
      fix es c1
      assume i1: "repl_inv E r st n (es, c1)" and keys: "map fst (peerset (snd (es, c1))) = map fst (peerset (snd ([], c)))"
      obtain m where "deref (fst (hd seeds)) c1 = Ret m" using deref_key [of "fst (hd seeds)" c1] hd keys by (metis snd_conv)
      with i1 show "go_ok (\<lambda>x. case x of Inl s \<Rightarrow> repl_broken E r st n s | Inr c' \<Rightarrow> repl_inv E r st n ([], c'))
        (if AppPrimaries (peerset c1) \<noteq> 0 then Ret (Inr c1)
         else go_bind (deref (fst (hd seeds)) c1) (\<lambda>m.
           Ret (Inl ([ErrNew (''Bootstrapping from '' @ show_nat (length seeds) @ '' possible seeds with version '' @
             show_nat (unat (SEQ m)) @ '' failed: '' @ showErr (combineErrors es))], c1))))"
        by (simp add: repl_broken_def repl_inv_def)
    qed
  qed
qed

section \<open>Replication as a whole\<close>

lemma member_inv_SEQ [simp]: "member_inv (m\<lparr>SEQ := x\<rparr>) = member_inv m"
  by (simp add: member_inv_def)

lemma detectOne_spec:
  assumes inv: "repl_inv E r st n (es, c)" and m: "map_of (peerset c) k = Some m"
  shows "go_ok (\<lambda>c'. repl_inv E r st n (es, c') \<and> map fst (peerset c') = map fst (peerset c)) (detectOne E k c)"
proof (cases "Online m")
  case False
  with inv m show ?thesis by (simp add: detectOne_def)
next
  case True
  have wf: "ms_wf (peerset c)" and p: "list_all plain es" using repl_inv_unfold [OF inv] by simp_all
  have name: "MemberName m = k" using ms_wf_name [OF wf m] .
  obtain raw errout err rc c1 where x: "execute E SequenceCommandKey (MemberName m) c = ((raw, errout, err, rc), c1)"
    by (metis prod.exhaust)
  have c1: "same_but_trace c c1" using execute_frame x by (metis snd_conv)
  have "repl_inv E r st n (es, c1)" "map fst (peerset c1) = map fst (peerset c)"
    using inv c1 by (simp_all add: repl_inv_def same_but_trace_def cluster_inv_def peerset_def)
  moreover have "map_of (peerset c1) k = Some m" using m same_but_trace_peerset [OF c1] by simp
  moreover obtain c2 where c2: "set_member k (\<lambda>m. m\<lparr>SEQ := of_nat (fst (ParseUint (TrimSpace raw) 64))\<rparr>) c1 = Ret c2"
    "member_step c k (m\<lparr>SEQ := of_nat (fst (ParseUint (TrimSpace raw) 64))\<rparr>) c2"
    by (rule set_member_after [OF m c1])
  moreover have "member_inv m" using repl_inv_unfold [OF inv] m by (auto simp: cluster_inv_def)
  then have "repl_inv E r st n (es, c2)" by (intro repl_inv_step [OF inv m c2(2) _ _ p]) simp_all
  moreover have "map fst (peerset c2) = map fst (peerset c)" by (rule member_step_keys [OF c2(2) m])
  ultimately show ?thesis using True m x by (simp add: detectOne_def name Let_def)
qed

lemma detectMembers_spec:
  assumes inv: "repl_inv E r st n (es, c)"
  shows "go_ok (\<lambda>c'. repl_inv E r st n (es, c')) (detectMembers E c)"
proof -
  have keys: "set (peer_order E ''detectMembers'' c) = set (map fst (peerset c))"
    by (simp add: peer_order_def)
  have "go_ok (\<lambda>c'. repl_inv E r st n (es, c') \<and> map fst (peerset c') = map fst (peerset c))
      (go_for (detectOne E) (peer_order E ''detectMembers'' c) c)"
  proof (rule go_ok_for)
    fix k c1
    assume "k \<in> set (peer_order E ''detectMembers'' c)"
      and c1: "repl_inv E r st n (es, c1) \<and> map fst (peerset c1) = map fst (peerset c)"
    then have "map_of (peerset c1) k \<noteq> None" unfolding keys by (metis map_of_eq_None_iff set_map)
    then obtain m where "map_of (peerset c1) k = Some m" by blast
    from detectOne_spec [OF conjunct1 [OF c1] this] c1
    show "go_ok (\<lambda>c'. repl_inv E r st n (es, c') \<and> map fst (peerset c') = map fst (peerset c)) (detectOne E k c1)"
      by (auto elim!: go_ok_mono)
  qed (simp add: inv)
  then show ?thesis unfolding detectMembers_def by (auto elim!: go_ok_mono)
qed

lemma repl_count_bound: "repl_inv E r st n s \<Longrightarrow> n < fuel \<Longrightarrow> count P (snd s) < fuel"
  using count_le [of P "snd s"] by (cases s) (auto simp: repl_inv_def)

lemma startPrimaries_spec:
  assumes "repl_inv E r st n s" and "n < fuel"
  shows "go_ok (\<lambda>s'. repl_inv E r st n s' \<and> (fst s' = [] \<longrightarrow> primaries \<le> AppPrimaries (peerset (snd s'))))
           (startPrimaries E fuel primaries s)"
  unfolding startPrimaries_def
  by (rule go_ok_mono [OF start_loop.returns [OF assms(1) repl_count_bound [OF assms], of primaries]])
    (auto simp: repl_broken_def)

lemma demotePrimaries_spec:
  assumes "repl_inv E r st n s" and "primaries \<le> AppPrimaries (peerset (snd s))" and "n < fuel"
  shows "go_ok (\<lambda>s'. repl_inv E r st n s' \<and> (fst s' = [] \<longrightarrow> AppPrimaries (peerset (snd s')) = primaries))
           (demotePrimaries E fuel primaries s)"
proof -
  have "demote_inv E r st n primaries s" using assms by (simp add: demote_inv_def)
  from demote_loop.returns [OF this repl_count_bound [OF assms(1,3)]] show ?thesis
    unfolding demotePrimaries_def by (rule go_ok_mono) (auto simp: repl_broken_def demote_inv_def)
qed

text \<open>What holds before the secondaries are started.\<close>

definition front_post :: "kube \<Rightarrow> rss \<Rightarrow> clusterstatus \<Rightarrow> nat \<Rightarrow> repl + repl \<Rightarrow> bool" where
  "front_post E r st n x =
     (case x of Inl s \<Rightarrow> repl_broken E r st n s
      | Inr s \<Rightarrow> repl_inv E r st n s \<and> (fst s = [] \<longrightarrow> AppPrimaries (peerset (snd s)) = GetNumPrimaries (Spec r)))"

lemma primaries_stage:
  assumes "repl_inv E r st n ([], c)" and "n < fuel"
  shows "go_ok (front_post E r st n)
     (go_bind (startPrimaries E fuel (GetNumPrimaries (Spec r)) ([], c)) (\<lambda>s3.
        go_bind (onlyIfClean (demotePrimaries E fuel (GetNumPrimaries (Spec r))) s3) (\<lambda>s4. Ret (Inr s4))))"
proof (rule go_ok_bind [OF startPrimaries_spec [OF assms]])
  fix s3
  assume s3: "repl_inv E r st n s3 \<and> (fst s3 = [] \<longrightarrow> GetNumPrimaries (Spec r) \<le> AppPrimaries (peerset (snd s3)))"
  show "go_ok (front_post E r st n) (go_bind (onlyIfClean (demotePrimaries E fuel (GetNumPrimaries (Spec r))) s3) (\<lambda>s4. Ret (Inr s4)))"
  proof (cases "fst s3 = []")
    case True
    with s3 have "go_ok (\<lambda>s'. repl_inv E r st n s' \<and> (fst s' = [] \<longrightarrow> AppPrimaries (peerset (snd s')) = GetNumPrimaries (Spec r)))
        (demotePrimaries E fuel (GetNumPrimaries (Spec r)) s3)"
      using assms(2) by (intro demotePrimaries_spec) auto
    then show ?thesis using True by (auto simp: onlyIfClean_def front_post_def elim!: go_ok_bind)
  qed (use s3 in \<open>simp add: onlyIfClean_def front_post_def\<close>)
qed

lemma replicateFront_spec:
  assumes inv: "repl_inv E r st n ([], c)" and "n < fuel"
  shows "go_ok (front_post E r st n) (replicateFront E fuel c)"
proof -
  have r: "CRss c = r" using inv by (simp add: repl_inv_def)
  have broken: "front_post E r st n (Inl ([ErrNew (CHR ''W'' # msg)], c))" for msg
    using inv by (simp add: front_post_def repl_broken_def repl_inv_def)
  have "go_ok (\<lambda>c1. repl_inv E r st n ([], c1)) (if b then detectMembers E c else Ret c)" for b
    using detectMembers_spec [OF inv] inv by simp
  then have rest: "go_ok (front_post E r st n)
      (go_bind (if b then detectMembers E c else Ret c) (\<lambda>c1.
         go_bind (bootstrap E c1) (\<lambda>x. case x of
             Inl early \<Rightarrow> Ret (Inl early)
           | Inr c2 \<Rightarrow>
               go_bind (startPrimaries E fuel (GetNumPrimaries (Spec r)) ([], c2)) (\<lambda>s3.
                 go_bind (onlyIfClean (demotePrimaries E fuel (GetNumPrimaries (Spec r))) s3) (\<lambda>s4. Ret (Inr s4))))))" for b
    by (rule go_ok_bind)
      (auto split: sum.splits simp: front_post_def [of _ _ _ _ "Inl _"]
        intro!: go_ok_bind [OF bootstrap_spec] primaries_stage assms(2))
  show ?thesis
    unfolding replicateFront_def Let_def r
    by (intro go_ok_if rest) (simp_all add: broken)
qed

lemma AppMembers_count:
  "ms_small (peerset c) \<Longrightarrow> AppMembers (peerset c) = int (count (\<lambda>m. Online m \<and> AppRunning m) c)"
  by (simp add: AppMembers_eq count_def)

lemma primaries_le_members:
  assumes "cluster_inv c" and "ms_small (peerset c)"
  shows "AppPrimaries (peerset c) \<le> AppMembers (peerset c)"
proof -
  have "length (filter (\<lambda>m. Online m \<and> AppPrimary m \<and> AppRunning m) xs) \<le> length (filter (\<lambda>m. Online m \<and> AppRunning m) xs)" for xs
    by (induction xs) auto
  then show ?thesis using assms by (simp add: AppPrimaries_eq AppMembers_eq)
qed

lemma startSecondary_step:
  assumes inv: "repl_inv E r st n s" and prim: "AppPrimaries (peerset (snd s)) = p"
  shows "go_ok (\<lambda>(more, s'). if more then repl_inv E r st n s' \<and> AppPrimaries (peerset (snd s')) = p
           else repl_broken E r st n s') (startSecondary E s)"
proof -
  obtain errors c where s: "s = (errors, c)" by (cases s)
  note i = inv [unfolded s] and u = repl_inv_unfold [OF inv [unfolded s]]
  show ?thesis
  proof (cases "chooseMember E c")
    case (Inl e)
    then have "plain e" using chooseMember_Inl(1) u by blast
    with Inl i show ?thesis by (simp add: s startSecondary_def repl_broken_def repl_inv_def plain_text)
  next
    case (Inr k)
    then obtain m where m: "map_of (peerset c) k = Some m" "eligible m" using chooseMember_Inr by blast
    have "go_ok (\<lambda>(more, s'). if more then repl_inv E r st n s' \<and> AppPrimaries (peerset (snd s')) = p
           else repl_broken E r st n s')
         (go_bind (startAppMember E k False c) (\<lambda>(err, c1). Ret (True, (appendNonNil errors err, c1))))"
    proof (rule go_ok_bind [OF start_eligible [OF i m]], clarify)
      fix e c1
      assume i1: "repl_inv E r st n (appendNonNil errors e, c1)"
        and ok: "e = None \<longrightarrow> member_step c k (started False m) c1" and bad: "e \<noteq> None \<longrightarrow> member_step c k (markFailed m) c1"
      obtain m' where step: "member_step c k m' c1" and m': "\<not> AppPrimary m'"
        using ok bad m(2) by (cases e) (auto simp: started_def markFailed_def eligible_def)
      have "count AppPrimary c1 = count AppPrimary c"
        using count_step [OF _ m(1) step, of AppPrimary] u m(2) m' by (simp add: eligible_def)
      then have "AppPrimaries (peerset c1) = p"
        using prim u repl_inv_unfold [OF i1] by (simp add: s AppPrimaries_count)
      with i1 show "go_ok (\<lambda>(more, s'). if more then repl_inv E r st n s' \<and> AppPrimaries (peerset (snd s')) = p
           else repl_broken E r st n s') (Ret (True, (appendNonNil errors e, c1)))" by simp
    qed
    with Inr show ?thesis unfolding s by (simp add: startSecondary_def split del: if_split)
  qed
qed

definition done_post :: "kube \<Rightarrow> rss \<Rightarrow> clusterstatus \<Rightarrow> nat \<Rightarrow> repl \<Rightarrow> bool" where
  "done_post E r st n s \<longleftrightarrow> repl_inv E r st n s \<and>
     (fst s = [] \<longrightarrow> AppPrimaries (peerset (snd s)) = GetNumPrimaries (Spec r) \<and>
        GetNumReplicas (Spec r) \<le> AppMembers (peerset (snd s)))"

lemma startSecondaries_safe:
  assumes "repl_inv E r st n s" and "fst s = [] \<longrightarrow> AppPrimaries (peerset (snd s)) = GetNumPrimaries (Spec r)"
  shows "go_safe (done_post E r st n) (onlyIfClean (startSecondaries E fuel (GetNumReplicas (Spec r))) s)"
proof (cases "fst s = []")
  case True
  have "go_safe (\<lambda>s'. (repl_inv E r st n s' \<and> AppPrimaries (peerset (snd s')) = GetNumPrimaries (Spec r)) \<and>
      \<not> (case s' of (_, c) \<Rightarrow> AppMembers (peerset c) < GetNumReplicas (Spec r)) \<or> repl_broken E r st n s')
      (startSecondaries E fuel (GetNumReplicas (Spec r)) s)"
    unfolding startSecondaries_def
  proof (rule go_while_safe)
    show "repl_inv E r st n s \<and> AppPrimaries (peerset (snd s)) = GetNumPrimaries (Spec r)" using True assms by simp
    show "go_safe (\<lambda>(more, s'). if more then repl_inv E r st n s' \<and> AppPrimaries (peerset (snd s')) = GetNumPrimaries (Spec r)
        else repl_broken E r st n s') (startSecondary E s)"
      if "repl_inv E r st n s \<and> AppPrimaries (peerset (snd s)) = GetNumPrimaries (Spec r)" for s
      using that by (intro go_ok_imp_safe startSecondary_step) simp_all
  qed
  then show ?thesis using True
    by (auto simp: onlyIfClean_def done_post_def repl_broken_def elim!: go_safe_mono)
qed (use assms in \<open>simp add: onlyIfClean_def done_post_def\<close>)

text \<open>When every member is to be a primary there is nothing left to start.\<close>

lemma startSecondaries_none:
  assumes inv: "repl_inv E r st n s" and "fst s = [] \<longrightarrow> AppPrimaries (peerset (snd s)) = GetNumPrimaries (Spec r)"
    and "GetNumPrimaries (Spec r) = GetNumReplicas (Spec r)"
  shows "onlyIfClean (startSecondaries E fuel (GetNumReplicas (Spec r))) s = Ret s"
proof -
  obtain errors c where s: "s = (errors, c)" by (cases s)
  show ?thesis
    using primaries_le_members [of c] repl_inv_unfold [OF inv [unfolded s]] assms(2,3)
    by (auto simp: s onlyIfClean_def startSecondaries_def go_while.simps)
qed

lemma recovered_member_inv: "rel_option (recover_rel s) x (Some m') \<Longrightarrow> (\<And>m. x = Some m \<Longrightarrow> member_inv m) \<Longrightarrow> member_inv m'"
  by (cases x) (auto simp: recover_rel_def dest: recovered_inv)

lemma replicateFinish_spec:
  assumes "done_post E r st n s"
  shows "go_ok (\<lambda>(es, c'). cluster_inv c' \<and> list_all plain es \<and> (es = [] \<and> 0 < GetNumReplicas (Spec r) \<longrightarrow>
             AppPrimaries (peerset c') = GetNumPrimaries (Spec r) \<and> GetNumReplicas (Spec r) \<le> AppMembers (peerset c')))
           (replicateFinish E (GetNumReplicas (Spec r)) s)"
proof -
  obtain errors c where s: "s = (errors, c)" by (cases s)
  have u: "pods_labelled E" "cluster_inv c" "ms_wf (peerset c)" "list_all plain errors"
    using assms repl_inv_unfold by (auto simp: s done_post_def)
  show ?thesis
  proof (cases "length errors = 0 \<and> GetNumReplicas (Spec r) > 0")
    case True
    with assms u show ?thesis by (simp add: s replicateFinish_def done_post_def)
  next
    case False
    have "cluster_inv c' \<and> list_all plain (appendAllNonNil errors (map Some es))"
      if "loop_inv c (es, c')" "\<forall>k. rel_option (recover_rel (es, c')) (map_of (peerset c) k) (map_of (peerset c') k)" for es c'
    proof -
      have "member_inv m'" if "map_of (peerset c') k = Some m'" for k m'
        using that \<open>\<forall>k. _ k\<close> [rule_format, of k] u(2) by (auto simp: cluster_inv_def intro: recovered_member_inv)
      with that(1) u(4) show ?thesis by (simp add: loop_inv_def cluster_inv_def list_all_appendAllNonNil)
    qed
    moreover have "appendAllNonNil errors (map Some es) \<noteq> [] \<or> \<not> 0 < GetNumReplicas (Spec r)" for es
      using False by (auto simp: appendAllNonNil_filter)
    ultimately show ?thesis
      using False unfolding s replicateFinish_def
      by (auto intro!: go_ok_bind [OF recover_spec [OF u(1,3)]])
  qed
qed

definition replicate_post :: "rss \<Rightarrow> repl \<Rightarrow> bool" where
  "replicate_post r = (\<lambda>(es, c'). cluster_inv c' \<and> list_all plain es \<and>
     (es = [] \<and> 0 < GetNumReplicas (Spec r) \<longrightarrow>
        AppPrimaries (peerset c') = GetNumPrimaries (Spec r) \<and> GetNumReplicas (Spec r) \<le> AppMembers (peerset c')))"

lemma broken_post: "repl_broken E r st n s \<Longrightarrow> replicate_post r s"
  by (cases s) (auto simp: repl_broken_def repl_inv_def replicate_post_def)

lemma repl_inv_start:
  "pods_labelled E \<Longrightarrow> cluster_inv c \<Longrightarrow> ms_small (peerset c) \<Longrightarrow>
   repl_inv E (CRss c) (CStatus c) (length (peerset c)) ([], c)"
  by (simp add: repl_inv_def)

lemma replicateBody_safe:
  assumes "repl_inv E r st n ([], c)" and "n < fuel"
  shows "go_safe (replicate_post r) (replicateBody E fuel c)"
proof -
  have r: "CRss c = r" using assms(1) by (simp add: repl_inv_def)
  show ?thesis
    unfolding replicateBody_def Let_def r
  proof (rule go_safe_bind [OF go_ok_imp_safe [OF replicateFront_spec [OF assms]]])
    fix x assume x: "front_post E r st n x"
    show "go_safe (replicate_post r) (case x of Inl early \<Rightarrow> Ret early
      | Inr s \<Rightarrow> go_bind (onlyIfClean (startSecondaries E fuel (GetNumReplicas (Spec r))) s) (replicateFinish E (GetNumReplicas (Spec r))))"
    proof (cases x)
      case (Inl s)
      with x broken_post show ?thesis by (auto simp: front_post_def)
    next
      case (Inr s)
      with x have s: "repl_inv E r st n s" "fst s = [] \<longrightarrow> AppPrimaries (peerset (snd s)) = GetNumPrimaries (Spec r)"
        by (simp_all add: front_post_def)
      show ?thesis unfolding Inr sum.case replicate_post_def
        by (rule go_safe_bind [OF startSecondaries_safe [OF s]], rule go_ok_imp_safe, erule replicateFinish_spec)
    qed
  qed
qed

lemma replicateBody_total:
  assumes "repl_inv E r st n ([], c)" and "n < fuel" and eq: "GetNumPrimaries (Spec r) = GetNumReplicas (Spec r)"
  shows "go_ok (replicate_post r) (replicateBody E fuel c)"
proof -
  have r: "CRss c = r" using assms(1) by (simp add: repl_inv_def)
  show ?thesis
    unfolding replicateBody_def Let_def r
  proof (rule go_ok_bind [OF replicateFront_spec [OF assms(1,2)]])
    fix x assume x: "front_post E r st n x"
    show "go_ok (replicate_post r) (case x of Inl early \<Rightarrow> Ret early
      | Inr s \<Rightarrow> go_bind (onlyIfClean (startSecondaries E fuel (GetNumReplicas (Spec r))) s) (replicateFinish E (GetNumReplicas (Spec r))))"
    proof (cases x)
      case (Inl s)
      with x broken_post show ?thesis by (auto simp: front_post_def)
    next
      case (Inr s)
      with x have none: "onlyIfClean (startSecondaries E fuel (GetNumReplicas (Spec r))) s = Ret s"
        by (intro startSecondaries_none [OF _ _ eq]) (auto simp: front_post_def)
      with startSecondaries_safe [of E r st n s fuel] x Inr have "done_post E r st n s" by (simp add: front_post_def)
      with none Inr show ?thesis using replicateFinish_spec [of E r st n s] by (simp add: replicate_post_def [abs_def])
    qed
  qed
qed

lemma replicate_post_update: "replicate_post r (es, c) \<Longrightarrow> replicate_post r (es, snd (updateCRStatus E p c))"
  using updateCRStatus_frame(1) [of E p c] cluster_inv_peers [OF updateCRStatus_frame(1), of E p c]
  by (simp add: replicate_post_def)

section \<open>Properties\<close>

text \<open>
  C17. The seeds: when one is returned, all of them are online members that have neither failed nor
  are primaries already, the first has the highest sequence number of all such members, and every such
  member with that number is among them; an error means there is no such member. None of this
  depends on the order of iteration.
\<close>

theorem chooseSeeds_best:
  assumes "ms_wf (peerset c)"
  shows "(\<forall>seeds. chooseSeeds E c = Inr seeds \<longrightarrow> seeds \<noteq> [] \<and>
            (\<forall>(k, m) \<in> set seeds. map_of (peerset c) k = Some m \<and> eligible m) \<and>
            (\<forall>k m. map_of (peerset c) k = Some m \<and> eligible m \<longrightarrow> SEQ m \<le> SEQ (snd (hd seeds)) \<and>
               (SEQ m = SEQ (snd (hd seeds)) \<longrightarrow> (k, m) \<in> set seeds))) \<and>
         (\<forall>e. chooseSeeds E c = Inl e \<longrightarrow> (\<forall>k m. map_of (peerset c) k = Some m \<longrightarrow> \<not> eligible m))"
proof -
  have "seeds \<noteq> [] \<and> (\<forall>(k, m) \<in> set seeds. map_of (peerset c) k = Some m \<and> eligible m) \<and>
      (\<forall>k m. map_of (peerset c) k = Some m \<and> eligible m \<longrightarrow> SEQ m \<le> SEQ (snd (hd seeds)) \<and>
         (SEQ m = SEQ (snd (hd seeds)) \<longrightarrow> (k, m) \<in> set seeds))" if "chooseSeeds E c = Inr seeds" for seeds
  proof (intro conjI)
    note s = chooseSeeds_Inr [OF assms that]
    show "seeds \<noteq> []" by (rule s(1))
    show "\<forall>(k, m) \<in> set seeds. map_of (peerset c) k = Some m \<and> eligible m"
      using s(2) by (auto simp: seeds_of_def list_all_iff points_to_def)
    show "\<forall>k m. map_of (peerset c) k = Some m \<and> eligible m \<longrightarrow> SEQ m \<le> SEQ (snd (hd seeds)) \<and>
         (SEQ m = SEQ (snd (hd seeds)) \<longrightarrow> (k, m) \<in> set seeds)"
      using s(2) unfolding seeds_of_def by (metis (mono_tags, lifting) mem_Collect_eq option.distinct(1))
  qed
  with chooseSeeds_Inl [OF assms] show ?thesis by blast
qed

text \<open>Three members as the stateful set names them, for the concrete examples.\<close>

definition ex_member :: "string \<Rightarrow> uint64 \<Rightarrow> member" where
  "ex_member name seq = zero_member\<lparr>MemberName := name, Online := True, SEQ := seq\<rparr>"

definition ex_members :: memberset where
  "ex_members = [(''db-0'', (ex_member ''db-0'' 4)\<lparr>AppPrimary := True, AppRunning := True\<rparr>),
     (''db-1'', ex_member ''db-1'' 4), (''db-2'', ex_member ''db-2'' 4)]"

definition ex_rss :: rss where
  "ex_rss = zero_rss\<lparr>Spec := zero_spec\<lparr>Replicas := Some 3, Primaries := Some 1\<rparr>\<rparr>"

definition ex_kube :: kube where
  "ex_kube = sample_kube (\<lambda>n. []) (\<lambda>n. None)"

lemma ex_wf: "ms_wf ex_members" "ms_small ex_members" "cluster_inv (sample_cluster r ex_members)"
  by (auto simp: ms_wf_def ms_small_def ex_members_def ex_member_def cluster_inv_def sample_cluster_def peerset_def
      member_inv_def zero_member_def split: if_splits)

lemma ex_peerset [simp]: "peerset (sample_cluster r ms) = ms"
  by (simp add: sample_cluster_def peerset_def)

lemma ex_sel [simp]: "CRss (sample_cluster r ms) = r"
  by (simp add: sample_cluster_def)

theorem chooseSeeds_best_witness:
  "\<exists>seeds. chooseSeeds ex_kube (sample_cluster ex_rss ex_members) = Inr seeds \<and> SEQ (snd (hd seeds)) \<ge> 4 \<and>
     (''db-1'', ex_member ''db-1'' 4) \<in> set seeds"
proof -
  let ?c = "sample_cluster ex_rss ex_members"
  have el: "map_of (peerset ?c) ''db-1'' = Some (ex_member ''db-1'' 4)" "eligible (ex_member ''db-1'' 4)"
    by (simp_all add: ex_members_def ex_member_def eligible_def zero_member_def)
  note best = chooseSeeds_best [of ?c ex_kube, simplified, OF ex_wf(1)]
  obtain seeds where s: "chooseSeeds ex_kube ?c = Inr seeds" "seeds \<noteq> []"
    using best el by (cases "chooseSeeds ex_kube ?c") auto
  obtain k m where hd: "hd seeds = (k, m)" by fastforce
  then have "map_of ex_members k = Some m" "eligible m" using best s by (metis (mono_tags, lifting) case_prod_conv hd_in_set)+
  then have "SEQ m = 4"
    by (auto simp: ex_members_def ex_member_def eligible_def split: if_splits)
  with best s el hd show ?thesis by (auto simp: ex_member_def)
qed

text \<open>
  The member to start next is one that is online, has not failed and is not a primary, and there
  is an error only when there is none. A member that has the highest sequence number and the least
  name among them is chosen in every order of iteration.
\<close>

lemma chooseMember_spec:
  assumes "ms_wf (peerset c)"
  shows "(\<forall>k. chooseMember E c = Inr k \<longrightarrow> (\<exists>m. map_of (peerset c) k = Some m \<and> eligible m)) \<and>
         (\<forall>e. chooseMember E c = Inl e \<longrightarrow> (\<forall>k m. map_of (peerset c) k = Some m \<longrightarrow> \<not> eligible m)) \<and>
         (\<forall>k m. map_of (peerset c) k = Some m \<and> eligible m \<and> dominates (peerset c) m \<longrightarrow> chooseMember E c = Inr k)"
  using chooseMember_Inr chooseMember_Inl(2) [OF assms] chooseMember_dominant [OF assms] by blast

text \<open>
  Otherwise the choice depends on the order in which the map is visited, and can be a member
  with an outdated sequence number: of two idle members, the one with the higher number is chosen when
  it is visited last, and the one with the lower number when that one is visited last and has the
  smaller name.
\<close>

lemma chooseMember_may_choose_outdated:
  "let ms = [(''db-0'', ex_member ''db-0'' 1), (''db-1'', ex_member ''db-1'' 9)];
       E = (\<lambda>order. ex_kube\<lparr>map_order := \<lambda>h site. order\<rparr>)
   in chooseMember (E [''db-0'', ''db-1'']) (sample_cluster ex_rss ms) = Inr ''db-1'' \<and>
      chooseMember (E [''db-1'', ''db-0'']) (sample_cluster ex_rss ms) = Inr ''db-0''"
  by (simp add: Let_def chooseMember_def sample_cluster_def peer_order_def range_keys_def peerset_def
      memberStep_def ex_member_def zero_member_def) auto

lemma ex_dominates: "dominates ex_members (ex_member ''db-1'' 4)"
  by (auto simp: dominates_def ex_members_def ex_member_def eligible_def split: if_splits)





text \<open>
  C20. When every member is to be a primary, which is the default, replication returns: one iteration
  more than there are members is enough for each of its loops.
\<close>

theorem replicate_terminates:
  assumes "pods_labelled E" and "cluster_inv c" and "ms_small (peerset c)" and "length (peerset c) < fuel"
    and "GetNumPrimaries (Spec (CRss c)) = GetNumReplicas (Spec (CRss c))"
  shows "go_ok (\<lambda>(es, c'). cluster_inv c' \<and> (es = [] \<and> 0 < GetNumReplicas (Spec (CRss c)) \<longrightarrow>
             AppPrimaries (peerset c') = GetNumReplicas (Spec (CRss c)))) (replicate_step E fuel c)"
proof -
  have "go_ok (replicate_post (CRss c)) (replicate_step E fuel c)"
    unfolding replicate_step_def
    by (rule go_ok_bind [OF replicateBody_total [OF repl_inv_start [OF assms(1-3)] assms(4,5)]])
      (auto intro: replicate_post_update)
  then show ?thesis by (rule go_ok_mono) (use assms(5) in \<open>auto simp: replicate_post_def\<close>)
qed

theorem replicate_terminates_witness:
  "go_ok (\<lambda>(es, c'). es = [] \<longrightarrow> AppPrimaries (peerset c') = 3)
     (replicate_step ex_kube 4 (sample_cluster zero_rss ex_members))"
proof -
  have s: "GetNumReplicas (Spec zero_rss) = 3" "GetNumPrimaries (Spec zero_rss) = GetNumReplicas (Spec zero_rss)"
    "length ex_members < 4"
    by (simp_all add: zero_rss_def zero_spec_def GetNumReplicas_def GetNumPrimaries_def minClusterSize_def ex_members_def)
  have "pods_labelled ex_kube" by (simp add: ex_kube_def)
  from replicate_terminates [OF this ex_wf(3), of zero_rss 4, simplified, OF ex_wf(2) s(3) s(2)] show ?thesis
    by (rule go_ok_mono) (auto simp: s(1))
qed

text \<open>Commands always succeed.\<close>

definition commands_succeed :: "kube \<Rightarrow> bool" where
  "commands_succeed E \<longleftrightarrow> (\<forall>h. exec_config E h = None) \<and>
     (\<forall>h ns name ctr cmd t. snd (snd (exec_stream E h ns name ctr cmd t)) = None)"

lemma streamExec_succeed: "commands_succeed E \<Longrightarrow> snd (snd (fst (streamExec E opts c))) = None"
  by (auto simp: commands_succeed_def streamExec_def Let_def split: prod.splits) (metis snd_conv)+

lemma execute_succeed:
  assumes "commands_succeed E"
  shows "\<exists>out errout c'. execute E action name c = ((out, errout, None, 0), c')"
proof -
  have "snd (snd (fst (ExecWithOptions E opts c))) = None" for opts
    using assms streamExec_succeed [OF assms]
    by (auto simp: ExecWithOptions_def setupContext_def commands_succeed_def Let_def
        split: option.splits sum.splits list.splits prod.splits)
  then show ?thesis
    unfolding execute_def Let_def
    by (auto split: prod.splits option.splits) (metis fst_conv snd_conv option.distinct(1))+
qed

text \<open>Starting a secondary that runs already changes nothing.\<close>

lemma start_running_secondary:
  assumes "pods_labelled E" and "commands_succeed E" and m: "map_of (peerset c) k = Some m" "eligible m" "AppRunning m"
  shows "go_ok (\<lambda>(e, c'). e = None \<and> peerset c' = peerset c) (startAppMember E k False c)"
proof -
  have same: "started False m = m" using m by (simp add: started_def eligible_def)
  have "go_inv (\<lambda>(e, c'). e = None) (startAppMember E k False c)"
  proof -
    obtain out errout c1 where
      "execute E (startCommand c False (AppPrimaries (peerset c))) (MemberName m) c = ((out, errout, None, 0), c1)"
      using execute_succeed [OF assms(2)] by blast
    then show ?thesis
      using m(1) by (auto simp: startAppMember_def go_inv_iff go_bind_Ret_iff)
  qed
  from go_ok_conj [OF startAppMember_spec [OF assms(1) m(1), of False] this] show ?thesis
    by (rule go_ok_mono) (auto simp: same member_step_peerset update_same [OF m(1)])
qed

lemma running_secondary_livelock:
  assumes "pods_labelled E" and "commands_succeed E" and "ms_wf (peerset c)"
    and m: "map_of (peerset c) k = Some m" "eligible m" "AppRunning m" "dominates (peerset c) m"
    and "AppMembers (peerset c) < replicas"
  shows "startSecondaries E fuel replicas (errors, c) = Stuck"
  using assms(3-)
proof (induction fuel arbitrary: c errors)
  case 0
  then show ?case by (simp add: startSecondaries_def go_while.simps)
next
  case (Suc fuel)
  have choice: "chooseMember E c = Inr k" using Suc.prems by (intro chooseMember_dominant)
  obtain c' where start: "startAppMember E k False c = Ret (None, c')" and ps: "peerset c' = peerset c"
    using start_running_secondary [OF assms(1,2) Suc.prems(2-4)] by (auto simp: go_ok_iff)
  have "startSecondaries E fuel replicas (errors, c') = Stuck"
    using Suc.prems by (intro Suc.IH) (simp_all add: ps)
  with choice start Suc.prems(6) show ?case
    by (simp add: startSecondaries_def startSecondary_def go_while.simps [of "Suc fuel"])
qed

text \<open>
  C21. Starting secondaries can go on for ever. Suppose commands succeed, and the idle member that
  is best in sequence number and name would not complete the replicas by itself. It is started, and
  since a running secondary is still eligible and still the best, it is started again and again:
  no number of iterations is enough, and the members behind it are never started.
\<close>

theorem secondaries_livelock:
  assumes "pods_labelled E" and "commands_succeed E" and "cluster_inv c" and "ms_small (peerset c)"
    and m: "map_of (peerset c) k = Some m" "eligible m" "dominates (peerset c) m"
    and short: "AppMembers (peerset c) + (if AppRunning m then 0 else 1) < replicas"
  shows "startSecondaries E fuel replicas (errors, c) = Stuck"
proof (cases fuel)
  case 0
  with short show ?thesis by (simp add: startSecondaries_def go_while.simps split: if_splits)
next
  case (Suc n)
  have wf: "ms_wf (peerset c)" using assms(3) by (simp add: cluster_inv_def)
  have inv: "repl_inv E (CRss c) (CStatus c) (length (peerset c)) ([], c)" using assms(1,3,4) by (rule repl_inv_start)
  have choice: "chooseMember E c = Inr k" using wf m by (intro chooseMember_dominant)
  obtain out errout c1 where "execute E (startCommand c False (AppPrimaries (peerset c))) (MemberName m) c = ((out, errout, None, 0), c1)"
    using execute_succeed [OF assms(2)] by blast
  then have ok: "go_inv (\<lambda>(e, c'). e = None) (startAppMember E k False c)"
    using m(1) by (auto simp: startAppMember_def go_inv_iff go_bind_Ret_iff)
  obtain c' where start: "startAppMember E k False c = Ret (None, c')"
    and inv': "repl_inv E (CRss c) (CStatus c) (length (peerset c)) ([], c')"
    and step: "member_step c k (started False m) c'"
    using go_ok_conj [OF start_eligible [OF inv m(1,2), of False] ok] by (auto simp: go_ok_iff)
  have "\<forall>j x. map_of (peerset c') j = Some x \<and> eligible x \<longrightarrow> SEQ x \<le> SEQ m \<and> MemberName m \<le> MemberName x"
    using m(3) by (auto simp: member_step_peerset [OF step] dominates_def started_def split: if_splits)
  then have dom: "dominates (peerset c') (started False m)" by (simp add: dominates_def started_def)
  have "AppMembers (peerset c') = AppMembers (peerset c) + (if AppRunning m then 0 else 1)"
    using count_step [OF assms(3) m(1) step, of "\<lambda>m. Online m \<and> AppRunning m"] m(2) assms(4) repl_inv_unfold [OF inv']
    by (simp add: AppMembers_count started_def eligible_def)
  with short have "startSecondaries E n replicas (errors, c') = Stuck"
    using repl_inv_unfold [OF inv'] m(2) dom
    by (intro running_secondary_livelock [OF assms(1,2), of c' k "started False m"])
      (simp_all add: member_step_peerset [OF step] started_def eligible_def)
  with choice start Suc short show ?thesis
    by (simp add: startSecondaries_def startSecondary_def go_while.simps [of "Suc n"] split: if_splits)
qed

text \<open>One primary and two idle members of a cluster that wants three replicas and one primary.\<close>

theorem secondaries_livelock_witness:
  "\<forall>fuel. startSecondaries ex_kube fuel 3 ([], sample_cluster ex_rss ex_members) = Stuck"
proof
  fix fuel
  have m: "map_of ex_members ''db-1'' = Some (ex_member ''db-1'' 4)" "eligible (ex_member ''db-1'' 4)"
    by (simp_all add: ex_members_def ex_member_def eligible_def zero_member_def)
  have e: "pods_labelled ex_kube" "commands_succeed ex_kube"
    by (simp_all add: ex_kube_def commands_succeed_def) (simp_all add: sample_kube_def)
  have "AppMembers ex_members + (if AppRunning (ex_member ''db-1'' 4) then 0 else 1) < 3"
    by (simp add: AppMembers_eq ex_wf) (simp add: ex_members_def ex_member_def members_def zero_member_def)
  from secondaries_livelock [OF e ex_wf(3), of ex_rss, simplified, OF ex_wf(2) m ex_dominates this]
  show "startSecondaries ex_kube fuel 3 ([], sample_cluster ex_rss ex_members) = Stuck" .
qed

text \<open>
  While more members run than replicas are wanted, or while nothing runs and not all pods are
  online, replication reports that it is waiting and makes no request at all, apart from writing the
  status.
\<close>

lemma replicate_waits:
  assumes "AppMembers (peerset c) > GetNumReplicas (Spec (CRss c)) \<or>
      AppPrimaries (peerset c) = 0 \<and> ActiveMembers (peerset c) \<noteq> GetNumReplicas (Spec (CRss c))"
  shows "go_ok (\<lambda>(es, c'). length es = 1 \<and> peerset c' = peerset c \<and>
           c' = snd (updateCRStatus E ''replicate'' c)) (replicate_step E fuel c)"
proof -
  obtain e where "replicateFront E fuel c = Ret (Inl ([e], c))"
  proof (cases "AppMembers (peerset c) > GetNumReplicas (Spec (CRss c))")
    case True
    with that show ?thesis unfolding replicateFront_def Let_def by simp
  next
    case False
    with assms have "AppPrimaries (peerset c) = 0 \<and> ActiveMembers (peerset c) \<noteq> GetNumReplicas (Spec (CRss c))" by blast
    with False that show ?thesis unfolding replicateFront_def Let_def by simp
  qed
  then show ?thesis
    using updateCRStatus_frame(1) [of E "''replicate''" c] by (simp add: replicate_step_def replicateBody_def)
qed

end
