(* ===== verification/Channels.thy ===== *)
theory Channels
  imports Replicate
begin

text \<open>
  What reconciliation and replication leave alone: the channels of the cluster object, and for every
  operation but the matching with the running pods also the names of the members. The facts say
  nothing about whether an operation returns; they are combined with those that do.
\<close>

definition frame :: "cluster \<Rightarrow> cluster \<Rightarrow> bool" where
  "frame c c' \<longleftrightarrow> map fst (peerset c') = map fst (peerset c) \<and> EventCh c' = EventCh c \<and> StopClosed c' = StopClosed c"

lemma frame_refl [simp]: "frame c c"
  by (simp add: frame_def)

lemma frame_trans: "frame a b \<Longrightarrow> frame b c \<Longrightarrow> frame a c"
  by (simp add: frame_def)

lemma frame_same: "same_but_trace c c' \<Longrightarrow> frame c c'"
  by (simp add: frame_def same_but_trace_def peerset_def)

lemma frame_step: "member_step c k m' c' \<Longrightarrow> map_of (peerset c) k = Some m \<Longrightarrow> frame c c'"
  by (auto simp: frame_def member_step_keys) (simp_all add: member_step_def same_but_trace_def)

lemma go_inv_if: "(b \<Longrightarrow> go_inv P x) \<Longrightarrow> (\<not> b \<Longrightarrow> go_inv P y) \<Longrightarrow> go_inv P (if b then x else y)"
  by simp

lemma go_safe_conj: "go_safe P r \<Longrightarrow> go_inv Q r \<Longrightarrow> go_safe (\<lambda>x. P x \<and> Q x) r"
  by (cases r) auto

text \<open>Operations on one member.\<close>

lemma deref_None: "map_of (peerset c) k = None \<Longrightarrow> deref k c = Panic nilDeref"
  by (simp add: deref_def)

lemma frame_operation:
  assumes "\<And>m. map_of (peerset c) k = Some m \<Longrightarrow>
      go_ok (\<lambda>(e, c'). member_step c k (if e = None then f m else g m) c' \<and> pred_option plain e) r"
    and "map_of (peerset c) k = None \<Longrightarrow> r = Panic nilDeref"
  shows "go_inv (\<lambda>(e, c'). frame c c') r"
proof (cases "map_of (peerset c) k")
  case (Some m)
  from go_ok_imp_inv [OF assms(1) [OF this]] show ?thesis
    by (rule go_inv_mono) (use frame_step Some in fastforce)
qed (simp add: assms(2))

lemma frame_seq:
  "go_inv (\<lambda>(e, c1). frame c c1) r \<Longrightarrow> (\<And>e c1. go_inv (\<lambda>(x, c'). frame c1 c') (f (e, c1))) \<Longrightarrow>
   go_inv (\<lambda>(x, c'). frame c c') (go_bind r f)"
  by (erule go_inv_bind) (fastforce intro: frame_trans elim: go_inv_mono)

lemma frame_from:
  "frame a b \<Longrightarrow> go_inv (\<lambda>(x, c'). frame b c') r \<Longrightarrow> go_inv (\<lambda>(x, c'). frame a c') r"
  by (erule go_inv_mono) (auto intro: frame_trans)

lemma frame_deref:
  "(\<And>m. map_of (peerset c) k = Some m \<Longrightarrow> go_inv P (f m)) \<Longrightarrow> go_inv P (go_bind (deref k c) f)"
  by (simp add: deref_def split: option.splits)

lemma tag_frame: "pods_labelled E \<Longrightarrow> go_inv (\<lambda>(e, c'). frame c c') (tagAppMember E name online c)"
  by (rule go_inv_mono [OF go_ok_imp_inv [OF tagAppMember_spec]]) (auto intro: frame_same)

lemma start_frame: "pods_labelled E \<Longrightarrow> go_inv (\<lambda>(e, c'). frame c c') (startAppMember E k p c)"
  by (rule frame_operation [OF startAppMember_spec]) (simp_all add: startAppMember_def deref_None)

lemma stop_frame: "pods_labelled E \<Longrightarrow> go_inv (\<lambda>(e, c'). frame c c') (stopAppMember E k c)"
  by (rule frame_operation [OF stopAppMember_spec]) (simp_all add: stopAppMember_def deref_None)

lemma delete_frame: "go_inv (\<lambda>(e, c'). frame c c') (deleteMember E k c)"
  by (rule frame_operation [OF deleteMember_spec]) (simp_all add: deleteMember_def deref_None)

lemma execute_frame_eq: "execute E action name c = (r, c1) \<Longrightarrow> frame c c1"
  using execute_frame [of c E action name] by (auto intro: frame_same)

lemma set_member_frame: "go_inv (frame c) (set_member k f c)"
  by (cases "map_of (peerset c) k")
    (auto simp: set_member_Some frame_def keys_update_old, simp add: set_member_def ms_modify_def)

lemma updateCRStatus_keeps: "frame c (snd (updateCRStatus E p c))"
  by (auto simp: frame_def updateCRStatus_def Let_def split: sum.splits)

lemma frame_status [simp]: "frame c (c\<lparr>CStatus := st\<rparr>)"
  by (simp add: frame_def)

text \<open>Recovery.\<close>

lemma recoverOne_frame:
  assumes "pods_labelled E"
  shows "go_inv (\<lambda>(es', c'). frame c c') (recoverOne E k (es, c))"
proof -
  note rules = frame_seq [OF delete_frame] frame_seq [OF tag_frame [OF assms]] frame_seq [OF stop_frame [OF assms]]
  show ?thesis
    unfolding recoverOne_def prod.case Let_def
    by (rule frame_deref) (auto intro!: rules split: option.splits)
qed

lemma frame_for:
  assumes "\<And>k c es. go_inv (\<lambda>(es', c'). frame c c') (f k (es, c))"
  shows "go_inv (\<lambda>(es', c'). frame c c') (go_for f ks (es, c))"
proof (induction ks arbitrary: es c)
  case (Cons k ks)
  show ?case unfolding go_for.simps by (rule frame_seq [OF assms Cons.IH])
qed simp

lemma recover_frame: "pods_labelled E \<Longrightarrow> go_inv (\<lambda>(es, c'). frame c c') (recover E c)"
  unfolding recover_def by (intro frame_for recoverOne_frame)

text \<open>Replication.\<close>

lemma detectOne_frame: "go_inv (frame c) (detectOne E k c)"
proof (unfold detectOne_def, rule frame_deref)
  fix m assume "map_of (peerset c) k = Some m"
  obtain out errout err rc c1 where x: "execute E SequenceCommandKey (MemberName m) c = ((out, errout, err, rc), c1)"
    by (metis prod.exhaust)
  have set: "go_inv (frame c) (set_member (MemberName m) f c1)" for f
    by (rule go_inv_mono [OF set_member_frame]) (rule frame_trans [OF execute_frame_eq [OF x]])
  show "go_inv (frame c) (if \<not> Online m then Ret c
      else let ((raw, _, err, _), c1) = execute E SequenceCommandKey (MemberName m) c
        in if err \<noteq> None then Ret c1
           else go_bind (deref (MemberName m) c1) (\<lambda>_.
             let out = TrimSpace raw
             in if out = [] then Ret c1
                else set_member (MemberName m) (\<lambda>m. m\<lparr>SEQ := of_nat (fst (ParseUint out 64))\<rparr>) c1))"
    by (auto simp: x Let_def set execute_frame_eq [OF x] intro!: frame_deref)
qed

lemma detectMembers_frame: "go_inv (frame c) (detectMembers E c)"
  unfolding detectMembers_def
  by (rule go_inv_for) (auto intro: go_inv_mono [OF detectOne_frame] frame_trans)

lemma seedLoop_frame: "pods_labelled E \<Longrightarrow> go_inv (\<lambda>(es', c'). frame c c') (seedLoop E ks (es, c))"
proof (induction ks arbitrary: es c)
  case (Cons k ks)
  show ?case
    unfolding seedLoop.simps snd_conv Let_def
    by (rule frame_seq [OF start_frame [OF Cons.prems]]) (simp add: Cons.IH [OF Cons.prems])
qed simp

lemma while_frame:
  assumes "\<And>es c. go_inv (\<lambda>(b, es', c'). frame c c') (body (es, c))"
  shows "go_inv (\<lambda>(es', c'). frame c c') (go_while fuel cond body (es, c))"
proof (induction fuel arbitrary: es c)
  case 0
  then show ?case by (simp add: go_while.simps)
next
  case (Suc n)
  have "go_inv (\<lambda>(es', c'). frame c c')
      (go_bind (body (es, c)) (\<lambda>(more, s'). if more then go_while n cond body s' else Ret s'))"
    by (rule go_inv_bind [OF assms])
      (auto intro: frame_from [OF _ Suc.IH])
  then show ?case by (simp add: go_while.simps)
qed

lemma body_frame:
  "go_inv (\<lambda>(e, c'). frame c c') r \<Longrightarrow> go_inv (\<lambda>(b, es', c'). frame c c') (go_bind r (\<lambda>(err, c1). Ret (P c1, appendNonNil es err, c1)))"
  by (erule go_inv_bind) auto

lemmas loop_bodies = startPrimary_def demotePrimary_def startSecondary_def

lemma loop_frames:
  assumes "pods_labelled E"
  shows "go_inv (\<lambda>(es', c'). frame c c') (startPrimaries E fuel n (es, c))"
    and "go_inv (\<lambda>(es', c'). frame c c') (demotePrimaries E fuel n (es, c))"
    and "go_inv (\<lambda>(es', c'). frame c c') (startSecondaries E fuel n (es, c))"
  unfolding startPrimaries_def demotePrimaries_def startSecondaries_def loop_bodies
  using start_frame [OF assms] stop_frame [OF assms]
  by (auto intro!: while_frame body_frame split: sum.splits)

text \<open>The results that may be an early return.\<close>

definition either_frame :: "cluster \<Rightarrow> ('a \<times> cluster) + ('b \<times> cluster) \<Rightarrow> bool" where
  "either_frame c r = (case r of Inl (x, c') \<Rightarrow> frame c c' | Inr (x, c') \<Rightarrow> frame c c')"

lemma either_frame_simps [simp]:
  "either_frame c (Inl (x, c')) = frame c c'" "either_frame c (Inr (y, c')) = frame c c'"
  by (simp_all add: either_frame_def)

lemma bootstrap_frame:
  assumes "pods_labelled E"
  shows "go_inv (\<lambda>r. case r of Inl (es, c') \<Rightarrow> frame c c' | Inr c' \<Rightarrow> frame c c') (bootstrap E c)"
  unfolding bootstrap_def
  by (auto split: sum.splits intro!: go_inv_bind [OF seedLoop_frame [OF assms]] frame_deref)

lemma onlyIfClean_frame:
  "(\<And>es c. go_inv (\<lambda>(es', c'). frame c c') (f (es, c))) \<Longrightarrow> go_inv (\<lambda>(es', c'). frame c c') (onlyIfClean f (es, c))"
  by (simp add: onlyIfClean_def)

lemma frame_Inr:
  "go_inv (\<lambda>(es', c'). frame c c') r \<Longrightarrow>
   go_inv (either_frame c) (go_bind r (\<lambda>s. Ret (Inr s)))"
  by (erule go_inv_bind) auto

lemma replicateFront_frame:
  assumes "pods_labelled E"
  shows "go_inv (either_frame c) (replicateFront E fuel c)"
proof -
  let ?n = "GetNumPrimaries (Spec (CRss c))"
  have loops: "go_inv (either_frame c) (go_bind (startPrimaries E fuel ?n ([], c2)) (\<lambda>s3.
      go_bind (onlyIfClean (demotePrimaries E fuel ?n) s3) (\<lambda>s4. Ret (Inr s4))))" if "frame c c2" for c2
  proof -
    have "go_inv (\<lambda>(es', c'). frame c c') (go_bind (startPrimaries E fuel ?n ([], c2)) (onlyIfClean (demotePrimaries E fuel ?n)))"
      using frame_seq [OF loop_frames(1) [OF assms] onlyIfClean_frame [OF loop_frames(2) [OF assms]]]
      by (rule go_inv_mono) (auto intro: frame_trans [OF that])
    from frame_Inr [OF this] show ?thesis by (simp add: go_bind_assoc)
  qed
  have detected: "go_inv (frame c) (if b then detectMembers E c else Ret c)" for b
    by (simp add: detectMembers_frame)
  have "go_inv (either_frame c) (go_bind (bootstrap E c1) (\<lambda>r. case r of Inl early \<Rightarrow> Ret (Inl early)
      | Inr c2 \<Rightarrow> go_bind (startPrimaries E fuel ?n ([], c2)) (\<lambda>s3.
          go_bind (onlyIfClean (demotePrimaries E fuel ?n) s3) (\<lambda>s4. Ret (Inr s4)))))" if "frame c c1" for c1
    by (rule go_inv_bind [OF bootstrap_frame [OF assms]])
      (auto split: sum.splits intro: frame_trans [OF that] loops)
  then show ?thesis
    unfolding replicateFront_def Let_def
    by (intro go_inv_if go_inv_bind [OF detected]) simp_all
qed

lemma replicate_frame:
  assumes "pods_labelled E"
  shows "go_inv (\<lambda>(es, c'). frame c c') (replicate_step E fuel c)"
proof -
  have finish: "go_inv (\<lambda>(es', c'). frame c1 c') (replicateFinish E n (es, c1))" for n es c1
    unfolding replicateFinish_def prod.case by (auto intro: go_inv_bind [OF recover_frame [OF assms]])
  have last: "go_inv (\<lambda>(es', c'). frame c1 c')
      (go_bind (onlyIfClean (startSecondaries E fuel n) (es, c1)) (replicateFinish E n))" for n es c1
    by (rule frame_seq [OF onlyIfClean_frame [OF loop_frames(3) [OF assms]]]) (use finish in simp)
  have "go_inv (\<lambda>(es, c'). frame c c') (replicateBody E fuel c)"
    unfolding replicateBody_def Let_def
    by (rule go_inv_bind [OF replicateFront_frame [OF assms]])
      (auto simp: either_frame_def split: sum.splits intro: frame_from [OF _ last])
  then show ?thesis
    unfolding replicate_step_def
    by (rule go_inv_bind) (auto intro: frame_trans [OF _ updateCRStatus_keeps])
qed

text \<open>Reconciliation changes the members, not the channels.\<close>

definition same_channels :: "cluster \<Rightarrow> cluster \<Rightarrow> bool" where
  "same_channels c c' \<longleftrightarrow> EventCh c' = EventCh c \<and> StopClosed c' = StopClosed c"

lemma frame_channels: "frame c c' \<Longrightarrow> same_channels c c'"
  by (simp add: frame_def same_channels_def)

lemma checkOne_frame:
  assumes "pods_labelled E"
  shows "go_inv (\<lambda>(es', c'). frame c c') (checkOne E k (es, c))"
proof -
  have "go_inv (\<lambda>(es', c'). frame c c')
      (go_bind (set_member k f c1) (\<lambda>c2. if b then go_bind (tagAppMember E n False c2) (\<lambda>(_, c3). Ret (es'', c3)) else Ret (es'', c2)))"
    if "frame c c1" for c1 f b n es''
  proof (rule go_inv_bind [OF go_inv_mono [OF set_member_frame]])
    show "frame c1 x \<Longrightarrow> frame c x" for x by (rule frame_trans [OF that])
    show "frame c c2 \<Longrightarrow> go_inv (\<lambda>(es', c'). frame c c')
        (if b then go_bind (tagAppMember E n False c2) (\<lambda>(_, c3). Ret (es'', c3)) else Ret (es'', c2))" for c2
      by (auto intro!: frame_from [OF _ frame_seq [OF tag_frame [OF assms]]])
  qed
  then show ?thesis
    unfolding checkOne_def prod.case Let_def
    by (auto intro!: frame_deref split: prod.splits dest!: execute_frame_eq)
qed

lemma reconcile_channels:
  assumes "pods_labelled E"
  shows "go_inv (\<lambda>(es, c'). same_channels c c') (reconcile E pods c)"
proof -
  have stages: "go_inv (\<lambda>(es, c'). frame c1 c')
      (go_bind (go_for (checkOne E) ks ([], c1)) (\<lambda>(es, c2). go_bind (recover E c2) (\<lambda>(rs, c3).
         Ret (f es rs, snd (updateCRStatus E p (c3\<lparr>CStatus := st es rs c3\<rparr>))))))" for c1 ks f st p
    by (intro frame_seq [OF frame_for [OF checkOne_frame [OF assms]]])
      (auto intro!: frame_seq [OF recover_frame [OF assms]] frame_trans [OF frame_status updateCRStatus_keeps])
  show ?thesis
    unfolding reconcile_def Let_def split_def
    by (rule go_inv_bind [where Q = "\<lambda>_. True"], simp add: go_inv_def split: go.splits)
      (rule go_inv_mono [OF stages [unfolded split_def]], auto dest: frame_channels simp: same_channels_def)
qed

end
