(* ===== verification/StatefulSetGen.thy ===== *)
theory StatefulSetGen
  imports KubeEnv "HOL-Library.Multiset"
begin

text \<open>
  pkg/cluster/statefulset.go: the stateful set, the governing service and the configuration secret
  that are created for a resource. The functions are pure; the serialisation of the configuration
  maps (YAML, SHA-256, JSON) is library code and comes from the environment. A Go map ranged over
  here (the labels, the data of a configuration map) is taken in the order the environment picks;
  the lemmas show that the order does not matter.
\<close>

section \<open>Names and labels\<close>

definition configMapsFilename :: string where "configMapsFilename = ''configmaps.json''"
definition configFilename :: string where "configFilename = ''rss-config.yaml''"
definition prometheusSecretsDir :: string where "prometheusSecretsDir = ''/etc/rss/secrets/''"

definition prefixedName :: "string \<Rightarrow> string" where
  "prefixedName name = ''rss-'' @ name"

definition configSecretName :: "string \<Rightarrow> string" where
  "configSecretName name = prefixedName name"

definition putAll :: "(string \<times> string) list \<Rightarrow> (string \<times> string) list \<Rightarrow> (string \<times> string) list" where
  "putAll kvs m = fold (\<lambda>(key, value) m. AList.update key value m) kvs m"

definition mergeLabels :: "string gomap \<Rightarrow> string gomap \<Rightarrow> string gomap" where
  "mergeLabels labels otherLabels = Some (putAll (gm_list labels) (putAll (gm_list otherLabels) []))"

section \<open>The stateful set\<close>

definition fieldVar :: "string \<Rightarrow> string \<Rightarrow> envvar" where
  "fieldVar name path = \<lparr>EnvName = name, EnvValue = [], EnvFieldRef = Some (''v1'', path)\<rparr>"

definition valueVar :: "string \<Rightarrow> string \<Rightarrow> envvar" where
  "valueVar name v = \<lparr>EnvName = name, EnvValue = v, EnvFieldRef = None\<rparr>"

definition chaosEnv :: "int option \<Rightarrow> envvar list" where
  "chaosEnv level =
     (case level of
        Some n \<Rightarrow> if n > 0 then [valueVar ''CHAOS_LEVEL'' (show_int n), valueVar ''CHAOS_MODULO'' (show_int (20 - n))] else []
      | None \<Rightarrow> [])"

definition containerEnv :: "rss \<Rightarrow> envvar list \<Rightarrow> envvar list" where
  "containerEnv r env =
     (let env1 = (if length env = 0 then [valueVar EnvOperatorServiceName (ServiceName r)]
                  else env @ [valueVar EnvOperatorServiceName (ServiceName r)]);
          env2 = env1 @ [fieldVar EnvOperatorPodName ''metadata.name''];
          env3 = env2 @ [fieldVar EnvOperatorPodNamespace ''metadata.namespace'']
      in env3 @ chaosEnv (ChaosLevel (Spec r)))"

definition podinfoVolume :: volume where
  "podinfoVolume = \<lparr>VolumeName = ''podinfo'',
     VolumeSource = DownwardAPI [(''labels'', ''metadata.labels''), (''annotations'', ''metadata.annotations'')]\<rparr>"

definition podinfoMount :: volumemount where
  "podinfoMount = \<lparr>MountName = ''podinfo'', MountReadOnly = False, MountPath = ''/etc/podinfo'', SubPath = []\<rparr>"

definition secretVolume :: "string \<Rightarrow> volume" where
  "secretVolume s = \<lparr>VolumeName = ''secret-'' @ s, VolumeSource = SecretVolume s\<rparr>"

definition secretMount :: "string \<Rightarrow> volumemount" where
  "secretMount s = \<lparr>MountName = ''secret-'' @ s, MountReadOnly = True, MountPath = prometheusSecretsDir @ s, SubPath = []\<rparr>"

text \<open>One turn of the loop over the containers, and in it the loop over the secrets.\<close>

definition addSecret :: "string \<Rightarrow> volume list \<times> container \<Rightarrow> volume list \<times> container" where
  "addSecret s = (\<lambda>(volumes, ctr).
     (volumes @ [secretVolume s], ctr\<lparr>VolumeMounts := VolumeMounts ctr @ [secretMount s]\<rparr>))"

definition addContainer :: "rss \<Rightarrow> container \<Rightarrow> volume list \<times> container list \<Rightarrow> volume list \<times> container list" where
  "addContainer r ctr = (\<lambda>(volumes, containers).
     let ctr1 = ctr\<lparr>Env := containerEnv r (Env ctr)\<rparr>;
         volumes1 = volumes @ [podinfoVolume];
         ctr2 = ctr1\<lparr>VolumeMounts := VolumeMounts ctr1 @ [podinfoMount]\<rparr>;
         (volumes2, ctr3) = fold addSecret (Secrets (Spec r)) (volumes1, ctr2)
     in (volumes2, containers @ [ctr3]))"

definition applyPodSpecPolicy :: "string \<Rightarrow> podspec \<Rightarrow> podpolicy option \<Rightarrow> podspec" where
  "applyPodSpecPolicy clusterName ps policy =
     (case policy of
        None \<Rightarrow> ps
      | Some p \<Rightarrow>
          (let ps1 = (if AntiAffinity p
                 then ps\<lparr>PodAffinity := Some (RequiredAntiAffinity [(ClusterNameLabel, clusterName)] ''kubernetes.io/hostname'')\<rparr>
                 else ps)
           in if AutomountServiceAccountToken p \<noteq> None
              then ps1\<lparr>PodAutomountToken := AutomountServiceAccountToken p\<rparr> else ps1))"

definition makeStatefulSetSpec :: "rss \<Rightarrow> go_error + statefulsetspec" where
  "makeStatefulSetSpec r =
     (let sp = Spec r;
          (volumes, containers) = fold (addContainer r) (Containers (Pod sp)) (Volumes (Pod sp), []);
          ps = \<lparr>PodVolumes = volumes, PodContainers = containers, PodSecurityContext = SecurityContext (Pod sp),
                PodServiceAccountName = ServiceAccountName sp, PodSpecNodeSelector = NodeSelector sp,
                PodTolerations = Tolerations sp, PodAffinity = Affinity sp,
                TerminationGracePeriodSeconds = Some 600, PodAutomountToken = None\<rparr>;
          annots = (case Annotations (RssMeta r) of None \<Rightarrow> Some [] | Some a \<Rightarrow> Some a)
      in Inr \<lparr>StsServiceName = ServiceName r, StsReplicas = Some (GetNumReplicas sp),
           PodManagementPolicy = ''Parallel'', StsVolumeClaimTemplates = VolumeClaimTemplates (Pod sp),
           UpdateStrategy = ''OnDelete'',
           TemplateMeta = zero_meta\<lparr>Labels := mergeLabels (Some (LabelsForCluster (RssName r))) (RssLabels r),
             Annotations := annots, OwnerReferences := [AsOwner r]\<rparr>,
           TemplateSpec = applyPodSpecPolicy (RssName r) ps (Some (Pod sp))\<rparr>)"

definition makeStatefulSet :: "rss \<Rightarrow> statefulset option \<Rightarrow> go_error + statefulset" where
  "makeStatefulSet r old =
     (case makeStatefulSetSpec r of
        Inl err \<Rightarrow> Inl (WithMessage err ''make StatefulSet spec'')
      | Inr sp \<Rightarrow>
          (let sts = \<lparr>StsMeta = zero_meta\<lparr>Labels := mergeLabels (Some (LabelsForCluster (RssName r))) (RssLabels r),
                        ObjName := prefixedName (RssName r), Annotations := Annotations (RssMeta r),
                        OwnerReferences := [AsOwner r]\<rparr>,
                      StsSpec = sp\<rparr>
           in case old of
                None \<Rightarrow> Inr sts
              | Some o' \<Rightarrow> Inr (sts\<lparr>StsMeta := (StsMeta sts)\<lparr>Annotations := Annotations (StsMeta o')\<rparr>,
                           StsSpec := (StsSpec sts)\<lparr>PodManagementPolicy := PodManagementPolicy (StsSpec o')\<rparr>\<rparr>)))"

section \<open>The service\<close>

definition makeStatefulSetService :: "rss \<Rightarrow> service" where
  "makeStatefulSetService r =
     \<lparr>SvcMeta = zero_meta\<lparr>ObjName := ServiceName r,
        Labels := mergeLabels (RssLabels r) (Some (LabelsForCluster (RssName r)))\<rparr>,
      SvcSpec = \<lparr>ClusterIP = ''None'', SvcPorts = GetServicePorts (Spec r),
        Selector = Some (LabelsForCluster (RssName r)), PublishNotReadyAddresses = True\<rparr>\<rparr>"

section \<open>The configuration secret\<close>

text \<open>A reference to a configuration map: its key and the checksum of its content.\<close>

record configmapreference =
  CMKey :: string
  Checksum :: string

definition makeRuleConfigMap :: "kube \<Rightarrow> string list \<Rightarrow> configmap \<Rightarrow> go_error + configmapreference" where
  "makeRuleConfigMap E order cm =
     (let keys = sort (range_keys order (map fst (CMData cm)));
          m = map (\<lambda>k. (k, case map_of (CMData cm) k of None \<Rightarrow> [] | Some v \<Rightarrow> v)) keys
      in case yaml_marshal E m of
           Inl err \<Rightarrow> Inl err
         | Inr b \<Rightarrow> Inr \<lparr>CMKey = ObjNamespace (CMMeta cm) @ ''/'' @ ObjName (CMMeta cm), Checksum = sha256_hex E b\<rparr>)"

fun ruleConfigMaps :: "kube \<Rightarrow> (nat \<Rightarrow> string list) \<Rightarrow> nat \<Rightarrow> configmap list \<Rightarrow> go_error + configmapreference list" where
  "ruleConfigMaps E orders n [] = Inr []"
| "ruleConfigMaps E orders n (cm # cms) =
     (case makeRuleConfigMap E (orders n) cm of
        Inl err \<Rightarrow> Inl err
      | Inr ref \<Rightarrow> (case ruleConfigMaps E orders (Suc n) cms of Inl err \<Rightarrow> Inl err | Inr refs \<Rightarrow> Inr (ref # refs)))"

text \<open>
  \<^verbatim>\<open>sort.Sort\<close> sorts by key. It is not stable, but the keys are namespace and name of objects of
  one informer cache and so differ from each other, and then there is one sorted list only.
\<close>

definition makeRuleConfigMapListFile :: "kube \<Rightarrow> (nat \<Rightarrow> string list) \<Rightarrow> configmap list \<Rightarrow> go_error + string" where
  "makeRuleConfigMapListFile E orders cms =
     (case ruleConfigMaps E orders 0 cms of
        Inl err \<Rightarrow> Inl err
      | Inr items \<Rightarrow> json_config_maps E (map (\<lambda>i. (CMKey i, Checksum i)) (sort_key CMKey items)))"

definition makeConfigSecret :: "kube \<Rightarrow> (nat \<Rightarrow> string list) \<Rightarrow> rss \<Rightarrow> configmap list \<Rightarrow> go_error + secret" where
  "makeConfigSecret E orders r cms =
     (case makeRuleConfigMapListFile E orders cms of
        Inl err \<Rightarrow> Inl err
      | Inr b \<Rightarrow> Inr \<lparr>SecretMeta = zero_meta\<lparr>ObjName := configSecretName (RssName r),
                   Labels := mergeLabels (Some (LabelsForCluster (RssName r))) (RssLabels r),
                   OwnerReferences := [AsOwner r]\<rparr>,
                 SecretData = Some [(configFilename, []), (configMapsFilename, b)]\<rparr>)"

definition makeEmptyConfig :: "kube \<Rightarrow> (nat \<Rightarrow> string list) \<Rightarrow> rss \<Rightarrow> configmap list \<Rightarrow> go_error + secret" where
  "makeEmptyConfig E orders r cms =
     (case makeConfigSecret E orders r cms of
        Inl err \<Rightarrow> Inl err
      | Inr s \<Rightarrow> Inr (s\<lparr>SecretMeta := (SecretMeta s)\<lparr>Annotations := Some [(''empty'', ''true'')]\<rparr>\<rparr>))"

section \<open>Labels\<close>

lemma putAll_lookup: "map_of (putAll kvs m) k = (map_of m ++ map_of (rev kvs)) k"
  by (induction kvs arbitrary: m)
    (auto simp: putAll_def update_conv' map_add_def split: option.splits)

lemma mergeLabels_lookup:
  "gm_get (mergeLabels ls os) k = (map_of (rev (gm_list os)) ++ map_of (rev (gm_list ls))) k"
  by (simp add: mergeLabels_def putAll_lookup map_add_def split: option.splits)

text \<open>The pods or objects with these labels match an equality selector.\<close>

definition selects :: "(string \<times> string) list \<Rightarrow> string gomap \<Rightarrow> bool" where
  "selects sel labels \<longleftrightarrow> (\<forall>k v. map_of sel k = Some v \<longrightarrow> gm_get labels k = Some v)"

lemma map_of_rev_distinct: "distinct (map fst kvs) \<Longrightarrow> map_of (rev kvs) = map_of kvs"
proof (induction kvs)
  case (Cons kv kvs)
  then have "map_of kvs (fst kv) = None" by (simp add: map_of_eq_None_iff)
  with Cons show ?case by (intro ext) (auto simp: map_add_def split: option.splits)
qed simp

lemma LabelsForCluster_rev [simp]: "map_of (rev (LabelsForCluster n)) = map_of (LabelsForCluster n)"
  by (rule map_of_rev_distinct) (simp add: LabelsForCluster_def)

lemma selects_merged: "selects (LabelsForCluster n) (mergeLabels (Some (LabelsForCluster n)) ls)"
  by (simp add: selects_def mergeLabels_lookup map_add_def)

text \<open>Labels that validation lets through do not clash with the ones of the operator.\<close>

lemma valid_labels_merge:
  assumes "spec_valid r"
  shows "gm_get (mergeLabels (RssLabels r) (Some (LabelsForCluster n))) k =
    gm_get (mergeLabels (Some (LabelsForCluster n)) (RssLabels r)) k"
proof (cases "map_of (LabelsForCluster n) k")
  case None
  then show ?thesis by (simp add: mergeLabels_lookup map_add_def split: option.splits)
next
  case (Some v)
  then have "k = ''app'' \<or> HasPrefix k ''rss''"
    by (auto simp: LabelsForCluster_def HasPrefix_def split: if_splits)
  with assms have "gm_get (RssLabels r) k = None" by (auto simp: spec_valid_def)
  then have "map_of (rev (gm_list (RssLabels r))) k = None"
    by (simp add: gm_get_list map_of_eq_None_iff)
  with Some show ?thesis by (simp add: mergeLabels_lookup map_add_def)
qed

section \<open>Containers and volumes\<close>

lemma fold_addSecret:
  "fold addSecret ss (vs, ctr) =
     (vs @ map secretVolume ss, ctr\<lparr>VolumeMounts := VolumeMounts ctr @ map secretMount ss\<rparr>)"
  by (induction ss arbitrary: vs ctr) (simp_all add: addSecret_def)

definition builtContainer :: "rss \<Rightarrow> container \<Rightarrow> container" where
  "builtContainer r ctr = ctr\<lparr>Env := containerEnv r (Env ctr),
     VolumeMounts := VolumeMounts ctr @ podinfoMount # map secretMount (Secrets (Spec r))\<rparr>"

definition addedVolumes :: "rss \<Rightarrow> volume list" where
  "addedVolumes r = podinfoVolume # map secretVolume (Secrets (Spec r))"

lemma fold_addContainer:
  "fold (addContainer r) ctrs (vs, cs) =
     (vs @ concat (map (\<lambda>_. addedVolumes r) ctrs), cs @ map (builtContainer r) ctrs)"
  by (induction ctrs arbitrary: vs cs)
    (simp_all add: addContainer_def fold_addSecret builtContainer_def addedVolumes_def Let_def)

lemma applyPodSpecPolicy_fields [simp]:
  "PodVolumes (applyPodSpecPolicy n ps pol) = PodVolumes ps"
  "PodContainers (applyPodSpecPolicy n ps pol) = PodContainers ps"
  by (simp_all add: applyPodSpecPolicy_def Let_def split: option.splits)

lemma makeStatefulSet_Inr:
  "\<exists>sts. makeStatefulSet r old = Inr sts \<and> StsReplicas (StsSpec sts) = Some (GetNumReplicas (Spec r)) \<and>
     StsServiceName (StsSpec sts) = ServiceName r \<and> ObjName (StsMeta sts) = prefixedName (RssName r) \<and>
     Labels (StsMeta sts) = mergeLabels (Some (LabelsForCluster (RssName r))) (RssLabels r) \<and>
     Labels (TemplateMeta (StsSpec sts)) = mergeLabels (Some (LabelsForCluster (RssName r))) (RssLabels r) \<and>
     OwnerReferences (StsMeta sts) = [AsOwner r] \<and> OwnerReferences (TemplateMeta (StsSpec sts)) = [AsOwner r] \<and>
     PodContainers (TemplateSpec (StsSpec sts)) = map (builtContainer r) (Containers (Pod (Spec r))) \<and>
     PodVolumes (TemplateSpec (StsSpec sts)) =
       Volumes (Pod (Spec r)) @ concat (map (\<lambda>_. addedVolumes r) (Containers (Pod (Spec r))))"
  by (cases old) (simp_all add: makeStatefulSet_def makeStatefulSetSpec_def fold_addContainer Let_def)

lemma makeStatefulSet_replicas:
  "makeStatefulSet r old = Inr sts \<Longrightarrow> StsReplicas (StsSpec sts) = Some (GetNumReplicas (Spec r))"
  using makeStatefulSet_Inr [of r old] by auto

lemma makeStatefulSet_not_Inl: "makeStatefulSet r old \<noteq> Inl e"
  using makeStatefulSet_Inr [of r old] by auto

section \<open>Order of iteration\<close>

text \<open>The checksum of a configuration map does not depend on the order of its data.\<close>

lemma makeRuleConfigMap_order:
  "distinct (map fst (CMData cm)) \<Longrightarrow> makeRuleConfigMap E order cm = makeRuleConfigMap E order' cm"
  by (simp add: makeRuleConfigMap_def sort_range_keys)

lemma ruleConfigMaps_order:
  "\<forall>cm \<in> set cms. distinct (map fst (CMData cm)) \<Longrightarrow> ruleConfigMaps E orders n cms = ruleConfigMaps E orders' m cms"
proof (induction cms arbitrary: n m)
  case (Cons cm cms)
  then have "makeRuleConfigMap E (orders n) cm = makeRuleConfigMap E (orders' m) cm"
    by (intro makeRuleConfigMap_order) simp
  moreover have "ruleConfigMaps E orders (Suc n) cms = ruleConfigMaps E orders' (Suc m) cms"
    by (rule Cons.IH) (use Cons.prems in simp)
  ultimately show ?case by (simp cong: sum.case_cong)
qed simp

text \<open>
  Marshalling a list of text pairs does not fail. Then the references are those of the maps one by
  one, and two listings of the same maps give the same sorted list.
\<close>

definition marshals :: "kube \<Rightarrow> bool" where
  "marshals E \<longleftrightarrow> (\<forall>m. \<exists>b. yaml_marshal E m = Inr b)"

definition cmName :: "configmap \<Rightarrow> string" where
  "cmName cm = ObjNamespace (CMMeta cm) @ ''/'' @ ObjName (CMMeta cm)"

definition referenceOf :: "kube \<Rightarrow> configmap \<Rightarrow> configmapreference" where
  "referenceOf E cm = projr (makeRuleConfigMap E [] cm)"

lemma makeRuleConfigMap_Inr:
  assumes "marshals E"
  shows "makeRuleConfigMap E [] cm = Inr (referenceOf E cm)" and "CMKey (referenceOf E cm) = cmName cm"
proof -
  define m where "m = map (\<lambda>k. (k, case map_of (CMData cm) k of None \<Rightarrow> [] | Some v \<Rightarrow> v)) (sort (range_keys [] (map fst (CMData cm))))"
  obtain b where b: "yaml_marshal E m = Inr b" using assms by (auto simp: marshals_def)
  then have ref: "makeRuleConfigMap E [] cm = Inr \<lparr>CMKey = cmName cm, Checksum = sha256_hex E b\<rparr>"
    by (simp add: makeRuleConfigMap_def m_def cmName_def Let_def)
  show "makeRuleConfigMap E [] cm = Inr (referenceOf E cm)" "CMKey (referenceOf E cm) = cmName cm"
    by (simp_all add: referenceOf_def ref)
qed

lemma ruleConfigMaps_Inr:
  "marshals E \<Longrightarrow> ruleConfigMaps E (\<lambda>_. []) n cms = Inr (map (referenceOf E) cms)"
  by (induction cms arbitrary: n) (simp_all add: makeRuleConfigMap_Inr)

lemma sort_key_unique:
  assumes "mset xs = mset ys" and "distinct (map f xs)"
  shows "sort_key f xs = sort_key f ys"
proof (rule properties_for_sort_key)
  show "mset (sort_key f ys) = mset xs" using assms(1) by simp
  show "sorted (map f (sort_key f ys))" by simp
  fix k
  assume "k \<in> set (sort_key f ys)"
  then have k: "k \<in> set xs" using assms(1) by (metis set_sort set_mset_mset)
  have one: "mset (filter (\<lambda>x. f k = f x) zs) = {#k#}" if "mset zs = mset xs" for zs
  proof -
    have "distinct (map f zs)" using assms(2) that by (metis distinct_count_atmost_1 mset_map set_mset_mset)
    then have "inj_on f (set zs)" "distinct zs" by (simp_all add: distinct_map)
    moreover have "k \<in> set zs" using k that by (metis set_mset_mset)
    ultimately have "set (filter (\<lambda>x. f k = f x) zs) = {k}" "distinct (filter (\<lambda>x. f k = f x) zs)"
      by (auto simp: inj_on_def)
    then show ?thesis by (metis mset_set_set set_mset_mset finite.emptyI mset_set.insert mset_set.empty empty_iff)
  qed
  have single: "zs = [k]" if "mset zs = {#k#}" for zs using that by simp
  show "filter (\<lambda>x. f k = f x) (sort_key f ys) = filter (\<lambda>x. f k = f x) xs"
    using one [of "sort_key f ys"] one [of xs] assms(1) by (metis single mset_sort)
qed

lemma makeRuleConfigMapListFile_unique:
  assumes "marshals E" and "mset cms = mset cms'" and "distinct (map cmName cms)"
    and "\<forall>cm \<in> set cms. distinct (map fst (CMData cm))"
  shows "makeRuleConfigMapListFile E orders cms = makeRuleConfigMapListFile E orders' cms'"
proof -
  have "set cms' = set cms" using assms(2) by (metis set_mset_mset)
  then have "ruleConfigMaps E orders 0 cms = Inr (map (referenceOf E) cms)"
    "ruleConfigMaps E orders' 0 cms' = Inr (map (referenceOf E) cms')"
    using ruleConfigMaps_order [of cms E orders 0 "\<lambda>_. []" 0] ruleConfigMaps_order [of cms' E orders' 0 "\<lambda>_. []" 0]
      ruleConfigMaps_Inr [OF assms(1)] assms(4) by simp_all
  moreover have "sort_key CMKey (map (referenceOf E) cms) = sort_key CMKey (map (referenceOf E) cms')"
  proof (rule sort_key_unique)
    show "distinct (map CMKey (map (referenceOf E) cms))"
      using assms(3) makeRuleConfigMap_Inr(2) [OF assms(1)] by (simp add: comp_def)
  qed (simp add: assms(2))
  ultimately show ?thesis by (simp add: makeRuleConfigMapListFile_def)
qed

section \<open>Properties\<close>

text \<open>
  C22. The objects made for a resource fit together, whatever the stateful set was before: the
  set asks for the effective number of replicas under the prefixed name, is governed by the service
  that is made, and belongs to the resource; its pods carry every label the service selects by and
  the operator lists pods by, and have the containers of the specification in their order. For a
  resource that passed validation the service has the labels of the set.
\<close>

theorem generated_objects_fit:
  "\<exists>sts. makeStatefulSet r old = Inr sts \<and>
     ObjName (StsMeta sts) = prefixedName (RssName r) \<and>
     StsReplicas (StsSpec sts) = Some (GetNumReplicas (Spec r)) \<and>
     StsServiceName (StsSpec sts) = ObjName (SvcMeta (makeStatefulSetService r)) \<and>
     OwnerReferences (StsMeta sts) = [AsOwner r] \<and>
     selects (gm_list (Selector (SvcSpec (makeStatefulSetService r)))) (Labels (TemplateMeta (StsSpec sts))) \<and>
     selects (LabelsForCluster (RssName r)) (Labels (TemplateMeta (StsSpec sts))) \<and>
     map ContainerName (PodContainers (TemplateSpec (StsSpec sts))) = map ContainerName (Containers (Pod (Spec r))) \<and>
     map Image (PodContainers (TemplateSpec (StsSpec sts))) = map Image (Containers (Pod (Spec r))) \<and>
     (Validate order r = Ret None \<longrightarrow>
        (\<forall>k. gm_get (Labels (SvcMeta (makeStatefulSetService r))) k = gm_get (Labels (StsMeta sts)) k))"
proof -
  have valid: "spec_valid r" if "Validate order r = Ret None"
    using that by (auto simp: Validate_def ValidateSpec_None go_bind_Ret_iff split: option.splits)
  obtain sts where "makeStatefulSet r old = Inr sts" and
    "StsReplicas (StsSpec sts) = Some (GetNumReplicas (Spec r))" "StsServiceName (StsSpec sts) = ServiceName r"
    "ObjName (StsMeta sts) = prefixedName (RssName r)" "OwnerReferences (StsMeta sts) = [AsOwner r]"
    "Labels (StsMeta sts) = mergeLabels (Some (LabelsForCluster (RssName r))) (RssLabels r)"
    "Labels (TemplateMeta (StsSpec sts)) = mergeLabels (Some (LabelsForCluster (RssName r))) (RssLabels r)"
    "PodContainers (TemplateSpec (StsSpec sts)) = map (builtContainer r) (Containers (Pod (Spec r)))"
    using makeStatefulSet_Inr [of r old] by blast
  with valid show ?thesis
    by (simp add: makeStatefulSetService_def selects_merged builtContainer_def valid_labels_merge comp_def)
qed

definition ex_labelled :: rss where
  "ex_labelled = zero_rss\<lparr>RssMeta := zero_meta\<lparr>ObjName := ''db'', Labels := Some [(''tier'', ''gold'')]\<rparr>,
     Spec := zero_spec\<lparr>Pod := zero_podpolicy\<lparr>
       Containers := [\<lparr>ContainerName = ''app'', Image = ''img'', Env = [], VolumeMounts = [], ContainerRest = []\<rparr>],
       Commands := Some (map (\<lambda>k. (k, zero_command)) requiredCommands)\<rparr>\<rparr>\<rparr>"

lemma ex_labelled_valid: "Validate [] ex_labelled = Ret None"
  by (simp add: Validate_def ValidateSpec_None spec_valid_def ex_labelled_def zero_rss_def zero_spec_def
    zero_podpolicy_def zero_meta_def requiredCommands_def command_key_defs HasPrefix_def)

theorem generated_objects_fit_witness:
  "Validate [] ex_labelled = Ret None \<and>
   (\<exists>sts. makeStatefulSet ex_labelled None = Inr sts \<and> StsReplicas (StsSpec sts) = Some 3 \<and>
     gm_get (Labels (SvcMeta (makeStatefulSetService ex_labelled))) ''tier'' = gm_get (Labels (StsMeta sts)) ''tier'')"
proof -
  have "GetNumReplicas (Spec ex_labelled) = 3"
    by (simp add: ex_labelled_def zero_rss_def zero_spec_def GetNumReplicas_def minClusterSize_def)
  with ex_labelled_valid generated_objects_fit [of ex_labelled None "[]"] show ?thesis by auto
qed

text \<open>
  When the volumes of the generated pods have different names, as the cluster requires: the
  specification has no containers, or it has exactly one and its volume names clash neither with
  each other nor with \<^verbatim>\<open>podinfo\<close> and the names made from the secrets. With two or more containers
  the volume \<^verbatim>\<open>podinfo\<close> is there once for each of them.
\<close>

lemma volume_names_distinct_iff:
  "\<exists>sts. makeStatefulSet r old = Inr sts \<and>
     (distinct (map VolumeName (PodVolumes (TemplateSpec (StsSpec sts)))) \<longleftrightarrow>
        (case Containers (Pod (Spec r)) of
           [] \<Rightarrow> distinct (map VolumeName (Volumes (Pod (Spec r))))
         | [_] \<Rightarrow> distinct (map VolumeName (Volumes (Pod (Spec r))) @ ''podinfo'' # map (\<lambda>s. ''secret-'' @ s) (Secrets (Spec r)))
         | _ \<Rightarrow> False)) \<and>
     length (Containers (Pod (Spec r))) \<le> count_list (map VolumeName (PodVolumes (TemplateSpec (StsSpec sts)))) ''podinfo''"
proof -
  obtain sts where sts: "makeStatefulSet r old = Inr sts"
    "PodVolumes (TemplateSpec (StsSpec sts)) =
       Volumes (Pod (Spec r)) @ concat (map (\<lambda>_. addedVolumes r) (Containers (Pod (Spec r))))"
    using makeStatefulSet_Inr [of r old] by blast
  have names: "map VolumeName (addedVolumes r) = ''podinfo'' # map (\<lambda>s. ''secret-'' @ s) (Secrets (Spec r))"
    by (simp add: addedVolumes_def podinfoVolume_def secretVolume_def comp_def)
  have "length cs \<le> count_list (concat (map (\<lambda>_. map VolumeName (addedVolumes r)) cs)) ''podinfo''" for cs :: "container list"
    by (induction cs) (simp_all add: names)
  then have "length (Containers (Pod (Spec r))) \<le> count_list (map VolumeName (PodVolumes (TemplateSpec (StsSpec sts)))) ''podinfo''"
    by (simp add: sts(2) map_concat comp_def trans_le_add2)
  moreover have "distinct (map VolumeName (PodVolumes (TemplateSpec (StsSpec sts)))) \<longleftrightarrow>
        (case Containers (Pod (Spec r)) of
           [] \<Rightarrow> distinct (map VolumeName (Volumes (Pod (Spec r))))
         | [_] \<Rightarrow> distinct (map VolumeName (Volumes (Pod (Spec r))) @ ''podinfo'' # map (\<lambda>s. ''secret-'' @ s) (Secrets (Spec r)))
         | _ \<Rightarrow> False)"
    unfolding sts(2) map_append map_concat map_map comp_def names by (auto split: list.splits)
  ultimately show ?thesis using sts(1) by blast
qed

text \<open>
  C23. The configuration secret depends only on the configuration maps, not on the order in which the
  informer lists them and their data are visited, so an unchanged configuration keeps its content:
  for maps of different names, when marshalling succeeds.
\<close>

theorem config_secret_deterministic:
  assumes "marshals E" and "mset cms = mset cms'" and "distinct (map cmName cms)"
    and "\<forall>cm \<in> set cms. distinct (map fst (CMData cm))"
  shows "makeEmptyConfig E orders r cms = makeEmptyConfig E orders' r cms'"
  unfolding makeEmptyConfig_def makeConfigSecret_def makeRuleConfigMapListFile_unique [OF assms, of orders orders'] ..

definition ex_configmap :: "string \<Rightarrow> configmap" where
  "ex_configmap n = \<lparr>CMMeta = zero_meta\<lparr>ObjName := n, ObjNamespace := ''ns''\<rparr>, CMData = [(''b'', ''2''), (''a'', ''1'')]\<rparr>"

theorem config_secret_deterministic_witness:
  "makeEmptyConfig (sample_kube (\<lambda>_. []) (\<lambda>_. None)) (\<lambda>_. [''a'', ''b'']) zero_rss [ex_configmap ''x'', ex_configmap ''y''] =
   makeEmptyConfig (sample_kube (\<lambda>_. []) (\<lambda>_. None)) (\<lambda>_. [''b'', ''a'']) zero_rss [ex_configmap ''y'', ex_configmap ''x'']"
  by (rule config_secret_deterministic)
    (simp_all add: marshals_def sample_kube_def cmName_def ex_configmap_def zero_meta_def add_mset_commute)

end
