(* ===== verification/ClusterLoop.thy ===== *)
theory ClusterLoop
  imports Channels StatefulSetGen
begin

text \<open>
  pkg/cluster/cluster.go: the life of a cluster object. It is set up (and its stateful set created)
  by a goroutine of its own, which then runs the loop of \<^verbatim>\<open>run\<close>: every turn of the loop answers one
  ready channel, the stop channel, an event of the controller, or the timer.

  \<^item> \<open>setup\<close>, \<open>create\<close>, \<open>handleUpdateEvent\<close>, \<open>pollPods\<close>, \<open>updateMemberStatus\<close> and
    \<open>reportFailedStatus\<close> are the functions of the source; \<open>startCluster\<close> is the body of the goroutine
    of \<^verbatim>\<open>New\<close> up to \<^verbatim>\<open>run\<close>.
  \<^item> \<open>handleEvent\<close> and \<open>runTick\<close> are the two branches of the select statement with the error handling
    that follows it. They say whether the loop goes on. The slice \<^verbatim>\<open>errors\<close> is empty at the top of
    every turn: it is emptied at the end of a turn, and \<^verbatim>\<open>continue\<close> leaves the turn before
    anything is appended.
  \<^item> \<open>run_step\<close> is the loop together with the two calls other goroutines make on the object,
    \<^verbatim>\<open>Update\<close> and \<^verbatim>\<open>Delete\<close>. A turn is one step: the only fields the other goroutines touch are the
    two channels, which a turn reads at its start only.
\<close>

section \<open>Creation\<close>

definition eventModifyCluster :: string where "eventModifyCluster = ''Modify''"

definition newCluster :: "history \<Rightarrow> rss \<Rightarrow> cluster" where
  "newCluster h r = \<lparr>CRss = r, CStatus = Status r, Peers = None, ExecReady = False, TlsReady = False, CmapStore = [],
     EventCh = [], StopClosed = False, Trace = h\<rparr>"

text \<open>
  The key of an object: the library function fails for objects without metadata only, and a configuration map
  has it.
\<close>

definition clusterKeyFunc :: "configmap \<Rightarrow> string \<times> bool" where
  "clusterKeyFunc cm =
     (let m = CMMeta cm in (if ObjNamespace m \<noteq> [] then ObjNamespace m @ ''/'' @ ObjName m else ObjName m, True))"

text \<open>The informer is made without an index, so the listing goes through the whole store.\<close>

definition ruleFileConfigMaps :: "kube \<Rightarrow> cluster \<Rightarrow> go_error + configmap list" where
  "ruleFileConfigMaps E c =
     (case LabelSelectorAsSelector (map_order E (Trace c) ''LabelSelectorAsSelector'') (RuleSelector (Spec (CRss c))) of
        Inl err \<Rightarrow> Inl err
      | Inr ruleSelector \<Rightarrow>
          Inr (filter (\<lambda>cm. snd (clusterKeyFunc cm))
            (ListAllByNamespace CMMeta (CmapStore c) (Inl (ErrNew ''Index with name namespace does not exist''))
               (Namespace c) ruleSelector)))"

definition createSecret :: "kube \<Rightarrow> configmap list \<Rightarrow> cluster \<Rightarrow> go_error option \<times> cluster" where
  "createSecret E cms c =
     (case makeEmptyConfig E (\<lambda>n. map_order E (Trace c) (''makeRuleConfigMap'' @ show_nat n)) (CRss c) cms of
        Inl err \<Rightarrow> (Some (WithMessage err ''generating empty config secret failed''), c)
      | Inr s \<Rightarrow>
          (let err = secret_create E (Trace c) (Namespace c) s; c1 = request (ESecretCreate (Namespace c) s) c
           in if err \<noteq> None \<and> \<not> IsAlreadyExists err
              then (Some (WithMessage (the err) ''creating empty config file failed''), c1)
              else (None, c1)))"

definition createStatefulSet :: "kube \<Rightarrow> cluster \<Rightarrow> go_error option \<times> cluster" where
  "createStatefulSet E c =
     (case makeStatefulSet (CRss c) None of
        Inl err \<Rightarrow> (Some (WithMessage err ''creating statefulset definition failed''), c)
      | Inr sts \<Rightarrow>
          (case sts_create E (Trace c) (Namespace c) sts of
             Some err \<Rightarrow> (Some (WithMessage err ''creating statefulset failed''), request (EStsCreate (Namespace c) sts) c)
           | None \<Rightarrow> (None, request (EStsCreate (Namespace c) sts) c)))"

text \<open>\<^verbatim>\<open>if err := ...; err != nil { return wrap(err) }\<close> and what follows it.\<close>

definition andThen :: "go_error option \<times> cluster \<Rightarrow> (go_error \<Rightarrow> go_error) \<Rightarrow>
    (cluster \<Rightarrow> go_error option \<times> cluster) \<Rightarrow> go_error option \<times> cluster" where
  "andThen r wrap f = (case r of (Some err, c) \<Rightarrow> (Some (wrap err), c) | (None, c) \<Rightarrow> f c)"

text \<open>The error of \<open>ruleFileConfigMaps\<close> is overwritten by the next assignment, so it stands for no maps.\<close>

definition create :: "kube \<Rightarrow> cluster \<Rightarrow> go_error option \<times> cluster" where
  "create E c =
     andThen (updateCRStatus E ''create'' (c\<lparr>CStatus := SetPhase ClusterPhaseCreating (CStatus c)\<rparr>))
       (\<lambda>err. ErrNew (''cluster create: failed to update cluster phase ('' @ ClusterPhaseCreating @ ''): '' @ Error err))
       (\<lambda>c1. andThen (CreateOrUpdateService E (makeStatefulSetService (CRss c1)) c1)
          (\<lambda>err. WithMessage err ''synchronizing internal service failed'')
          (\<lambda>c2. andThen (createSecret E (case ruleFileConfigMaps E c2 of Inl _ \<Rightarrow> [] | Inr cms \<Rightarrow> cms) c2)
             (\<lambda>err. err) (createStatefulSet E)))"

text \<open>
  The TLS part of \<^verbatim>\<open>setup\<close>: the operator's secret is read and made into a client configuration. The file
  system is the same afterwards, so only the outcome is kept.
\<close>

definition operatorSecret :: "cluster \<Rightarrow> string" where
  "operatorSecret c =
     (case TLS (Spec (CRss c)) of None \<Rightarrow> []
      | Some t \<Rightarrow> (case Static t of None \<Rightarrow> [] | Some st \<Rightarrow> OperatorSecret st))"

definition setupTLS :: "kube \<Rightarrow> cluster \<Rightarrow> go_error option \<times> cluster" where
  "setupTLS E c =
     (if \<not> IsSecureClient (TLS (Spec (CRss c))) then (None, c)
      else case GetTLSDataFromSecret E (Namespace c) (operatorSecret c) c of
             (Inl err, c1) \<Rightarrow> (Some err, c1)
           | (Inr (certData, keyData, caData), c1) \<Rightarrow>
               (case fst (NewTLSConfig (tls_os E) certData keyData caData (tls_fs E (Trace c1))) of
                  Inl err \<Rightarrow> (Some err, c1)
                | Inr _ \<Rightarrow> (None, c1\<lparr>TlsReady := True\<rparr>)))"

definition setup_step :: "kube \<Rightarrow> bool \<Rightarrow> cluster \<Rightarrow> go_error option \<times> cluster" where
  "setup_step E shouldCreateCluster c =
     andThen (setupTLS E c) (\<lambda>err. err) (\<lambda>c1. if shouldCreateCluster then create E c1 else (None, c1))"

definition setup_cluster :: "kube \<Rightarrow> cluster \<Rightarrow> go_error option \<times> cluster" where
  "setup_cluster E c =
     (let phase = Phase (CStatus c)
      in if phase = ClusterPhaseNone then setup_step E True c
         else if phase = ClusterPhaseCreating then (Some errCreatedCluster, c)
         else if phase = ClusterPhaseRunning then setup_step E False c
         else (Some (ErrNew (''unexpected cluster phase: '' @ phase)), c))"

text \<open>The goroutine of \<^verbatim>\<open>New\<close> up to the loop; the flag says whether the loop is entered.\<close>

definition startCluster :: "kube \<Rightarrow> cluster \<Rightarrow> bool \<times> cluster" where
  "startCluster E c =
     (case setup_cluster E c of
        (Some err, c1) \<Rightarrow>
          if Phase (CStatus c1) \<noteq> ClusterPhaseFailed
          then (False, snd (updateCRStatus E ''setup''
                 (c1\<lparr>CStatus := SetPhase ClusterPhaseFailed (SetReason (Error err) (CStatus c1))\<rparr>)))
          else (False, c1)
      | (None, c1) \<Rightarrow>
          (True, snd (updateCRStatus E ''initial'' (c1\<lparr>CStatus := SetPhase ClusterPhaseRunning (CStatus c1)\<rparr>))))"

section \<open>Reporting failure\<close>

text \<open>The condition that \<^verbatim>\<open>reportFailedStatus\<close> retries, and the retrying.\<close>

definition failedCondition :: "kube \<Rightarrow> cluster condition" where
  "failedCondition E c =
     (let (err, c1) = updateCRStatus E ''failed'' (c\<lparr>CStatus := SetPhase ClusterPhaseFailed (CStatus c)\<rparr>)
      in if err = None \<or> IsNotFound err then Ret ((True, None), c1)
         else if \<not> IsConflict err then Ret ((False, None), c1)
         else
           (let c2 = request (ECRGet (Namespace c1) (RssName (CRss c1))) c1
            in case cr_get E (Trace c1) (Namespace c1) (RssName (CRss c1)) of
                 Inl err2 \<Rightarrow> if IsNotFound (Some err2) then Ret ((True, None), c2) else Ret ((False, None), c2)
               | Inr cl \<Rightarrow> Ret ((False, None), c2\<lparr>CRss := cl\<rparr>)))"

definition MaxInt64 :: int where "MaxInt64 = 2 ^ 63 - 1"

definition reportFailedStatus :: "kube \<Rightarrow> cluster \<Rightarrow> cluster go" where
  "reportFailedStatus E c = go_bind (Retry MaxInt64 (failedCondition E) c) (\<lambda>(_, c'). Ret c')"

section \<open>Events\<close>

definition isSpecEqual :: "clusterspec \<Rightarrow> clusterspec \<Rightarrow> bool" where
  "isSpecEqual s1 s2 =
     (if GetNumReplicas s1 \<noteq> GetNumReplicas s2 then False
      else if Paused s1 \<noteq> Paused s2 then False
      else if GetNumPrimaries s1 \<noteq> GetNumPrimaries s2 then False
      else True)"

text \<open>The patch at the end of \<^verbatim>\<open>handleUpdateEvent\<close>.\<close>

definition patchSts :: "kube \<Rightarrow> string \<Rightarrow> statefulset \<Rightarrow> statefulset \<Rightarrow> cluster \<Rightarrow> go_error option \<times> cluster" where
  "patchSts E stsname oldsts sts c =
     (case create_patch_sts E oldsts sts of
        Inl err \<Rightarrow> (Some (ErrNew (''error creating patch: '' @ Error err)), c)
      | Inr patchdata \<Rightarrow>
          (let name = ObjName (StsMeta sts); c1 = request (EStsPatch (Namespace c) name patchdata) c
           in case sts_patch E (Trace c) (Namespace c) name patchdata of
                Some err \<Rightarrow> (Some (ErrNew (''fail to update the sts ('' @ stsname @ ''): '' @ Error err)), c1)
              | None \<Rightarrow> (None, c1)))"

definition tooLowText :: "int32 \<Rightarrow> string \<Rightarrow> int \<Rightarrow> string" where
  "tooLowText n stsname restore = ''Replica count ('' @ show_int n @ '') for '' @ stsname @
     '' is too low (should be '' @ show_int restore @ '' or higher)''"

definition resizeSts :: "kube \<Rightarrow> string \<Rightarrow> statefulset \<Rightarrow> int32 \<Rightarrow> cluster \<Rightarrow> go_error option \<times> cluster" where
  "resizeSts E stsname sts current c =
     (let wanted = GetNumReplicas (Spec (CRss c))
      in if current = wanted then patchSts E stsname sts sts c
         else if current = 0 \<and> wanted < wrap32 (RestoreReplicas (Status (CRss c))) then
           (None, snd (updateCRStatus E ''modify'' (c\<lparr>CStatus :=
              SetReason (tooLowText wanted stsname (RestoreReplicas (Status (CRss c)))) (SetPhase ClusterPhasePaused (CStatus c))\<rparr>)))
         else
           (let sts' = sts\<lparr>StsSpec := (StsSpec sts)\<lparr>StsReplicas := Some wanted\<rparr>\<rparr>;
                c1 = (if Phase (CStatus c) = ClusterPhasePaused
                      then snd (updateCRStatus E ''modify'' (c\<lparr>CStatus :=
                             SetReason ''Replica count is consistent'' (SetPhase ClusterPhaseRunning (CStatus c))\<rparr>))
                      else c)
            in patchSts E stsname sts sts' c1))"

definition handleUpdateEvent :: "kube \<Rightarrow> clusterevent \<Rightarrow> cluster \<Rightarrow> (go_error option \<times> cluster) go" where
  "handleUpdateEvent E ev c =
     (let oldSpec = Spec (CRss c); c1 = c\<lparr>CRss := EventRss ev\<rparr>
      in if isSpecEqual (Spec (EventRss ev)) oldSpec then Ret (None, c1)
         else
           (let stsname = prefixedName (RssName (CRss c1));
                c2 = request (EStsGet (Namespace c1) stsname) c1
            in case sts_get E (Trace c1) (Namespace c1) stsname of
                 Inl err \<Rightarrow> Ret (Some (ErrNew (''fail to get sts ('' @ stsname @ ''): '' @ Error err)), c2)
               | Inr sts \<Rightarrow>
                   (case StsReplicas (StsSpec sts) of
                      None \<Rightarrow> Panic nilDeref
                    | Some current \<Rightarrow> Ret (resizeSts E stsname sts current c2))))"

definition handleEvent :: "kube \<Rightarrow> clusterevent \<Rightarrow> cluster \<Rightarrow> (bool \<times> cluster) go" where
  "handleEvent E ev c =
     (if EventTyp ev = eventModifyCluster then
        go_bind (handleUpdateEvent E ev c) (\<lambda>(err, c1).
          case err of
            None \<Rightarrow> Ret (True, c1)
          | Some e \<Rightarrow> go_bind (reportFailedStatus E (c1\<lparr>CStatus := SetReason (Error e) (CStatus c1)\<rparr>))
                       (\<lambda>c2. Ret (False, c2)))
      else Panic (''unknown event type'' @ EventTyp ev))"

section \<open>Polling the pods\<close>

fun ownedBy :: "string \<Rightarrow> string \<Rightarrow> ownerref list \<Rightarrow> bool" where
  "ownedBy rssUID stsUID [] = False"
| "ownedBy rssUID stsUID (o' # os) =
     (if OwnerUID o' = rssUID then True else if OwnerUID o' = stsUID then True else ownedBy rssUID stsUID os)"

definition podOwner :: "kube \<Rightarrow> pod \<Rightarrow> cluster \<Rightarrow> bool \<times> cluster" where
  "podOwner E p c =
     (let (uid, c1) = GetStatefulSetUID E (Namespace c) (prefixedName (RssName (CRss c))) c
      in (ownedBy (UID (RssMeta (CRss c))) uid (OwnerReferences (PodMeta p)), c1))"

definition pollOne :: "kube \<Rightarrow> pod \<Rightarrow> pod list \<times> pod list \<times> cluster \<Rightarrow> pod list \<times> pod list \<times> cluster" where
  "pollOne E p = (\<lambda>(running, pending, c).
     if length (OwnerReferences (PodMeta p)) < 1 then (running, pending, c)
     else
       (let (owner, c1) = podOwner E p c
        in if \<not> owner then (running, pending, c1)
           else if PodPhase p = PodRunning then (running @ [p], pending, c1)
           else if PodPhase p = PodPending then (running, pending @ [p], c1)
           else (running, pending, c1)))"

definition pollPods :: "kube \<Rightarrow> cluster \<Rightarrow> (go_error + pod list \<times> pod list) \<times> cluster" where
  "pollPods E c =
     (let ns = Namespace c; sel = ClusterListOpt (RssName (CRss c)); c1 = request (EPodList ns sel) c
      in case pod_list E (Trace c) ns sel of
           Inl err \<Rightarrow> (Inl (ErrNew (''failed to list running pods: '' @ Error err)), c1)
         | Inr items \<Rightarrow>
             (let (running, pending, c2) = fold (pollOne E) items ([], [], c1) in (Inr (running, pending), c2)))"

text \<open>The lists of member names that are put into the status, filled in the order of the iteration.\<close>

definition statusStep :: "memberset \<Rightarrow> string list \<Rightarrow> string \<Rightarrow> membersstatus \<Rightarrow> membersstatus" where
  "statusStep ms running k st =
     (case map_of ms k of
        None \<Rightarrow> st
      | Some m \<Rightarrow>
          if \<not> PresentIn (MemberName m) running then st\<lparr>Unready := sappend (Unready st) (MemberName m)\<rparr>
          else if AppFailed m then st\<lparr>Failed := sappend (Failed st) (MemberName m)\<rparr>
          else if AppRunning m \<and> AppPrimary m then st\<lparr>Primary := sappend (Primary st) (MemberName m)\<rparr>
          else if AppRunning m then st\<lparr>Secondary := sappend (Secondary st) (MemberName m)\<rparr>
          else st)"

definition membersStatusOf :: "memberset \<Rightarrow> string slice \<Rightarrow> string list \<Rightarrow> membersstatus" where
  "membersStatusOf ms running order =
     (fold (statusStep ms (elems running)) order
        \<lparr>Ready = None, Unready = None, Primary = None, Secondary = None, Failed = None\<rparr>)\<lparr>Ready := running\<rparr>"

definition updateMemberStatus :: "kube \<Rightarrow> string slice \<Rightarrow> cluster \<Rightarrow> cluster" where
  "updateMemberStatus E running c =
     snd (updateCRStatus E ''updateMemberStatus'' (c\<lparr>CStatus := (CStatus c)
       \<lparr>StatusReplicas := int (length (elems running)),
        StatusMembers := membersStatusOf (peerset c) running (peer_order E ''updateMemberStatus'' c)\<rparr>\<rparr>))"

section \<open>The timer\<close>

text \<open>
  What follows the select statement when it was left by the end of a branch or by \<^verbatim>\<open>break\<close>: the first
  fatal error ends the loop.
\<close>

fun firstFatal :: "go_error list \<Rightarrow> go_error option" where
  "firstFatal [] = None"
| "firstFatal (e # es) = (if isFatalError (Some e) then Some e else firstFatal es)"

definition afterSelect :: "kube \<Rightarrow> go_error list \<times> cluster \<Rightarrow> (bool \<times> cluster) go" where
  "afterSelect E = (\<lambda>(errors, c).
     case firstFatal errors of
       None \<Rightarrow> Ret (True, c)
     | Some err \<Rightarrow> go_bind (reportFailedStatus E (c\<lparr>CStatus := SetReason (Error err) (CStatus c)\<rparr>))
                    (\<lambda>c'. Ret (False, c')))"

text \<open>Reconciliation and replication of one turn, once the running pods are known.\<close>

definition reconcileAll :: "kube \<Rightarrow> nat \<Rightarrow> pod list \<Rightarrow> cluster \<Rightarrow> (go_error list \<times> cluster) go" where
  "reconcileAll E fuel running c =
     go_bind (reconcile E running c) (\<lambda>(es1, c1).
       let errors1 = appendAllNonNil [] (map Some es1)
       in if length errors1 \<noteq> 0 then Ret (errors1, c1)
          else go_bind (replicate_step E fuel c1) (\<lambda>(es2, c2).
            let errors2 = appendAllNonNil errors1 (map Some es2)
            in if length errors2 > 0
               then go_bind (reconcile E running c2) (\<lambda>(es3, c3). Ret (appendAllNonNil errors2 (map Some es3), c3))
               else Ret (errors2, c2)))"

definition noPods :: "cluster \<Rightarrow> (go_error list \<times> cluster) go" where
  "noPods c =
     (if GetNumReplicas (Spec (CRss c)) = 0 then Ret ([], c\<lparr>Peers := Some []\<rparr>)
      else go_bind (Reconcile (peerset c) [] (GetNumReplicas (Spec (CRss c)))) (\<lambda>ps. Ret ([], c\<lparr>Peers := Some ps\<rparr>)))"

definition rememberReplicas :: "kube \<Rightarrow> pod list \<Rightarrow> cluster \<Rightarrow> cluster" where
  "rememberReplicas E running c =
     (if wrap32 (int (length running)) = GetNumReplicas (Spec (CRss c))
      then snd (updateCRStatus E ''mainloop'' (c\<lparr>CStatus := (CStatus c)\<lparr>RestoreReplicas := int (length running)\<rparr>\<rparr>))
      else c)"

definition runTick :: "kube \<Rightarrow> nat \<Rightarrow> cluster \<Rightarrow> (bool \<times> cluster) go" where
  "runTick E fuel c =
     (if Paused (Spec (CRss c)) then Ret (True, c\<lparr>CStatus := PauseControl (CStatus c)\<rparr>)
      else
        case pollPods E (c\<lparr>CStatus := Control (CStatus c)\<rparr>) of
          (Inl err, c1) \<Rightarrow> Ret (True, c1)
        | (Inr (running, pending), c1) \<Rightarrow>
            (let c2 = updateMemberStatus E (GetPodNames running) c1
             in if length pending > 0 then Ret (True, c2)
                else if length running = 0 then go_bind (noPods c2) (afterSelect E)
                else go_bind (reconcileAll E fuel running (rememberReplicas E running c2)) (afterSelect E)))"

section \<open>The loop\<close>

definition eventChCap :: nat where "eventChCap = 100"

text \<open>
  \<^verbatim>\<open>send\<close> waits until the buffer has room or the object is being stopped, and does one of the two.
\<close>

inductive sends :: "clusterevent \<Rightarrow> cluster \<Rightarrow> cluster \<Rightarrow> bool" for ev c where
  enqueue: "length (EventCh c) < eventChCap \<Longrightarrow> sends ev c (c\<lparr>EventCh := EventCh c @ [ev]\<rparr>)"
| give_up: "StopClosed c \<Longrightarrow> sends ev c c"

definition DeleteCluster :: "cluster \<Rightarrow> cluster go" where
  "DeleteCluster c = (if StopClosed c then Panic ''close of closed channel'' else Ret (c\<lparr>StopClosed := True\<rparr>))"

definition updateEvent :: "rss \<Rightarrow> clusterevent" where
  "updateEvent r = \<lparr>EventTyp = eventModifyCluster, EventRss = r\<rparr>"

text \<open>
  The goroutine of the loop: in it, returned, panicked, or in a turn that does not end. In the last case
  the object is kept as it was when the turn began: the channels, which others still use, are the same.
\<close>

datatype runstate = Loop cluster | Ended cluster | Crashed string | Hanging cluster

fun turn :: "cluster \<Rightarrow> (bool \<times> cluster) go \<Rightarrow> runstate" where
  "turn c0 (Ret (go_on, c)) = (if go_on then Loop c else Ended c)"
| "turn c0 (Panic msg) = Crashed msg"
| "turn c0 Stuck = Hanging c0"

text \<open>
  The turns of the loop; a select statement may take any of its branches that is ready. The informer of
  configuration maps, which \<^verbatim>\<open>run\<close> has started, changes its store meanwhile.
\<close>

inductive loop_step :: "kube \<Rightarrow> nat \<Rightarrow> runstate \<Rightarrow> runstate \<Rightarrow> bool" for E fuel where
  stop: "StopClosed c \<Longrightarrow> loop_step E fuel (Loop c) (Ended c)"
| event: "EventCh c = ev # evs \<Longrightarrow>
    loop_step E fuel (Loop c) (turn (c\<lparr>EventCh := evs\<rparr>) (handleEvent E ev (c\<lparr>EventCh := evs\<rparr>)))"
| tick: "loop_step E fuel (Loop c) (turn c (runTick E fuel c))"
| inform: "loop_step E fuel (Loop c) (Loop (c\<lparr>CmapStore := cms\<rparr>))"

text \<open>The loop and the calls that other goroutines make on the object meanwhile.\<close>

inductive run_step :: "kube \<Rightarrow> nat \<Rightarrow> runstate \<Rightarrow> runstate \<Rightarrow> bool" for E fuel where
  own: "loop_step E fuel s s' \<Longrightarrow> run_step E fuel s s'"
| update: "sends (updateEvent r) c c' \<Longrightarrow> run_step E fuel (Loop c) (Loop c')"
| delete: "DeleteCluster c = Ret c' \<Longrightarrow> run_step E fuel (Loop c) (Loop c')"

inductive_cases sendsE: "sends ev c c'"
inductive_cases loop_step_LoopE: "loop_step E fuel (Loop c) s"
inductive_simps loop_step_over: "loop_step E fuel (Ended c) s" "loop_step E fuel (Crashed msg) s" "loop_step E fuel (Hanging c) s"

inductive run_reachable :: "kube \<Rightarrow> nat \<Rightarrow> runstate \<Rightarrow> runstate \<Rightarrow> bool" for E fuel s0 where
  init: "run_reachable E fuel s0 s0"
| step: "run_reachable E fuel s0 s \<Longrightarrow> run_step E fuel s s' \<Longrightarrow> run_reachable E fuel s0 s'"

section \<open>What the operations of the loop leave alone\<close>

text \<open>The members and the channels; requests, the resource and the status may change.\<close>

definition keeps_members :: "cluster \<Rightarrow> cluster \<Rightarrow> bool" where
  "keeps_members c c' \<longleftrightarrow> Peers c' = Peers c \<and> EventCh c' = EventCh c \<and> StopClosed c' = StopClosed c"

lemma keeps_members_simps [simp]:
  "keeps_members c c" "keeps_members c (request e d) = keeps_members c d"
  "keeps_members c (d\<lparr>CStatus := st\<rparr>) = keeps_members c d" "keeps_members c (d\<lparr>CRss := r\<rparr>) = keeps_members c d"
  "keeps_members (c\<lparr>CStatus := st\<rparr>) d = keeps_members c d" "keeps_members (c\<lparr>CRss := r\<rparr>) d = keeps_members c d"
  "keeps_members (request e c) d = keeps_members c d"
  by (simp_all add: keeps_members_def)

lemma keeps_members_trans: "keeps_members a b \<Longrightarrow> keeps_members b c \<Longrightarrow> keeps_members a c"
  by (simp add: keeps_members_def)

lemma keeps_updateCRStatus [simp]: "keeps_members c (snd (updateCRStatus E p d)) = keeps_members c d"
  by (auto simp: keeps_members_def updateCRStatus_def Let_def split: sum.splits)

lemma keeps_peerset: "keeps_members c c' \<Longrightarrow> peerset c' = peerset c"
  by (simp add: keeps_members_def peerset_def)

lemma keeps_patchSts [simp]: "keeps_members c (snd (patchSts E n o' s d)) = keeps_members c d"
  by (auto simp: patchSts_def Let_def split: sum.splits option.splits)

lemma keeps_resizeSts [simp]: "keeps_members c (snd (resizeSts E n s cur d)) = keeps_members c d"
  by (auto simp: resizeSts_def Let_def)

lemma keeps_pollOne: "keeps_members c d \<Longrightarrow> keeps_members c (snd (snd (pollOne E p (rs, ps, d))))"
  by (simp add: pollOne_def podOwner_def GetStatefulSetUID_def Let_def split: sum.splits)

lemma keeps_pollPods: "keeps_members c (snd (pollPods E c))"
proof -
  have "keeps_members c (snd (snd s)) \<Longrightarrow> keeps_members c (snd (snd (fold (pollOne E) items s)))" for items s
    by (induction items arbitrary: s) (simp_all, metis keeps_pollOne prod.collapse)
  from this [of "([], [], request e c)" for e] show ?thesis
    by (auto simp: pollPods_def Let_def split: sum.splits prod.splits) (metis snd_conv)
qed

lemma keeps_updateMemberStatus [simp]: "keeps_members c (updateMemberStatus E r d) = keeps_members c d"
  by (simp add: updateMemberStatus_def)

lemma keeps_rememberReplicas [simp]: "keeps_members c (rememberReplicas E r d) = keeps_members c d"
  by (simp add: rememberReplicas_def)

section \<open>The report of a failure\<close>

lemma updateCRStatus_error: "updateCRStatus E p c = (Some e, c') \<Longrightarrow> (\<exists>s. e = ErrNew s) \<and> Status (CRss c') = CStatus c'"
  by (auto simp: updateCRStatus_def Let_def split: sum.splits if_splits)

lemma failedCondition_eq:
  assumes "updateCRStatus E ''failed'' (c\<lparr>CStatus := SetPhase ClusterPhaseFailed (CStatus c)\<rparr>) = (err, c1)"
  shows "failedCondition E c = Ret ((err = None, None), c1)"
  using assms updateCRStatus_error [of E "''failed''"]
  by (cases err) (fastforce simp: failedCondition_def IsNotFound_def IsConflict_def)+

text \<open>The condition always answers and leaves the members alone, so the retrying does too.\<close>

interpretation reporting: retry_condition "failedCondition E" "keeps_members c0" for E c0
proof
  fix c assume c: "keeps_members c0 c"
  obtain err c1 where u: "updateCRStatus E ''failed'' (c\<lparr>CStatus := SetPhase ClusterPhaseFailed (CStatus c)\<rparr>) = (err, c1)"
    by fastforce
  with c have "keeps_members c0 c1"
    using keeps_updateCRStatus [of c0 E "''failed''" "c\<lparr>CStatus := SetPhase ClusterPhaseFailed (CStatus c)\<rparr>"] by simp
  then show "go_ok (\<lambda>(r, s'). keeps_members c0 s') (failedCondition E c)"
    by (simp add: failedCondition_eq [OF u])
qed

lemma keeps_reportFailedStatus: "keeps_members c0 c \<Longrightarrow> go_ok (keeps_members c0) (reportFailedStatus E c)"
  unfolding reportFailedStatus_def by (rule go_ok_bind [OF reporting.Retry_returns]) auto

lemma reportFailedStatus_eq:
  "reportFailedStatus E c =
     Ret (snd (updateCRStatus E ''failed'' (c\<lparr>CStatus := SetPhase ClusterPhaseFailed (CStatus c)\<rparr>)))"
proof -
  obtain err c1 where u: "updateCRStatus E ''failed'' (c\<lparr>CStatus := SetPhase ClusterPhaseFailed (CStatus c)\<rparr>) = (err, c1)"
    by fastforce
  have st: "CStatus c1 = SetPhase ClusterPhaseFailed (CStatus c)"
    using updateCRStatus_frame(3) [of E "''failed''" "c\<lparr>CStatus := SetPhase ClusterPhaseFailed (CStatus c)\<rparr>"] by (simp add: u)
  have again: "failedCondition E c1 = Ret ((True, None), c1)" if "err \<noteq> None"
  proof (subst failedCondition_eq)
    have "Status (CRss c1) = CStatus c1" using updateCRStatus_error u that by blast
    then show "updateCRStatus E ''failed'' (c1\<lparr>CStatus := SetPhase ClusterPhaseFailed (CStatus c1)\<rparr>) = (None, c1)"
      by (simp add: updateCRStatus_def st SetPhase_def)
  qed simp
  have "retryLoop (failedCondition E) (nat MaxInt64) 0 c = Ret (None, c1)"
    using again by (cases err)
      (simp_all add: retryLoop.simps [of "failedCondition E"] failedCondition_eq [OF u] MaxInt64_def)
  then show ?thesis by (simp add: reportFailedStatus_def Retry_def MaxInt64_def u)
qed

section \<open>The invariant of the loop\<close>

text \<open>
  What the loop relies on: pods carry labels, the pods that are listed have names of a fixed finite set
  (a stateful set numbers its pods), and a stateful set that is read has a replica count, which the API
  server fills in when it is left out.
\<close>

definition cluster_world :: "kube \<Rightarrow> string set \<Rightarrow> bool" where
  "cluster_world E N \<longleftrightarrow> pods_labelled E \<and> finite N \<and> int (card N) < 2 ^ 31 \<and>
     (\<forall>h ns sel pods. pod_list E h ns sel = Inr pods \<longrightarrow> pod_names pods \<subseteq> N) \<and>
     (\<forall>h ns name sts. sts_get E h ns name = Inr sts \<longrightarrow> StsReplicas (StsSpec sts) \<noteq> None)"

definition run_inv :: "string set \<Rightarrow> cluster \<Rightarrow> bool" where
  "run_inv N c \<longleftrightarrow> cluster_inv c \<and> set (map fst (peerset c)) \<subseteq> N \<and>
     (\<forall>ev \<in> set (EventCh c). EventTyp ev = eventModifyCluster)"

lemma run_inv_keeps: "keeps_members c c' \<Longrightarrow> run_inv N c \<Longrightarrow> run_inv N c'"
  by (auto simp: run_inv_def keeps_peerset cluster_inv_def) (auto simp: keeps_members_def)

lemma run_inv_channels:
  "same_channels c c' \<Longrightarrow> run_inv N c \<Longrightarrow> cluster_inv c' \<Longrightarrow> set (map fst (peerset c')) \<subseteq> N \<Longrightarrow> run_inv N c'"
  by (simp add: run_inv_def same_channels_def)

lemma peerset_channels [simp]:
  "peerset (c\<lparr>EventCh := evs\<rparr>) = peerset c" "peerset (c\<lparr>StopClosed := b\<rparr>) = peerset c"
  by (simp_all add: peerset_def)

lemma run_inv_channels_update:
  "run_inv N (c\<lparr>EventCh := evs\<rparr>) \<longleftrightarrow>
     cluster_inv c \<and> set (map fst (peerset c)) \<subseteq> N \<and> (\<forall>ev \<in> set evs. EventTyp ev = eventModifyCluster)"
  "run_inv N (c\<lparr>StopClosed := b\<rparr>) = run_inv N c"
  by (simp_all add: run_inv_def cluster_inv_def)

lemma dom_keys: "dom (map_of ms) = set (map fst ms)"
  by (simp add: dom_map_of_conv_image_fst)

lemma run_inv_size:
  assumes "run_inv N c" and "finite N"
  shows "length (peerset c) \<le> card N"
proof -
  have "distinct (map fst (peerset c))" using assms by (simp add: run_inv_def cluster_inv_def ms_wf_def)
  then have "length (peerset c) = card (set (map fst (peerset c)))" by (metis distinct_card length_map)
  also have "\<dots> \<le> card N" using assms by (intro card_mono) (simp_all add: run_inv_def)
  finally show ?thesis .
qed

lemma firstFatal_plain: "list_all plain es \<Longrightarrow> firstFatal es = None"
  by (induction es) (simp_all add: plain_not_fatal)

lemma pollPods_names:
  assumes "pollPods E c = (Inr (running, pending), c1)" and "cluster_world E N"
  shows "pod_names running \<subseteq> N"
proof -
  have one: "set (fst (pollOne E p s)) \<subseteq> insert p (set (fst s))" for p s
    by (cases s) (auto simp: pollOne_def split: prod.splits)
  have loop: "set (fst (fold (pollOne E) items s)) \<subseteq> set items \<union> set (fst s)" for items s
    using one by (induction items arbitrary: s) fastforce+
  obtain items where "pod_list E (Trace c) (Namespace c) (ClusterListOpt (RssName (CRss c))) = Inr items"
    "set running \<subseteq> set items"
  proof -
    let ?c = "request (EPodList (Namespace c) (ClusterListOpt (RssName (CRss c)))) c"
    obtain items where items: "pod_list E (Trace c) (Namespace c) (ClusterListOpt (RssName (CRss c))) = Inr items"
      "running = fst (fold (pollOne E) items ([], [], ?c))"
      using assms(1) by (auto simp: pollPods_def Let_def split: sum.splits prod.splits)
    with loop [of items "([], [], ?c)"] show ?thesis by (intro that [of items]) simp_all
  qed
  with assms(2) show ?thesis by (fastforce simp: cluster_world_def pod_names_def)
qed

lemma reconcile_run:
  assumes "cluster_world E N" and "run_inv N c" and "pod_names pods \<subseteq> N"
  shows "go_ok (\<lambda>(es, c'). run_inv N c' \<and> list_all plain es) (reconcile E pods c)"
proof -
  have lab: "pods_labelled E" and inv: "cluster_inv c" using assms by (simp_all add: cluster_world_def run_inv_def)
  from go_ok_conj [OF reconcile_spec [OF lab inv] reconcile_channels [OF lab]] show ?thesis
  proof (rule go_ok_mono, clarify)
    fix es c' assume post: "reconcile_post c pods es c'" and "same_channels c c'"
    moreover have "set (map fst (peerset c')) \<subseteq> N"
      using post assms(2,3) dom_keys [of "peerset c'"] dom_keys [of "peerset c"] by (auto simp: reconcile_post_def run_inv_def)
    ultimately show "run_inv N c' \<and> list_all plain es"
      using run_inv_channels assms(2) by (auto simp: reconcile_post_def)
  qed
qed

lemma replicate_run:
  assumes "cluster_world E N" and "run_inv N c" and "card N < fuel"
  shows "go_safe (\<lambda>(es, c'). run_inv N c' \<and> list_all plain es) (replicate_step E fuel c)"
proof -
  have lab: "pods_labelled E" and inv: "cluster_inv c" using assms by (simp_all add: cluster_world_def run_inv_def)
  have size: "length (peerset c) \<le> card N" using run_inv_size assms by (auto simp: cluster_world_def)
  then have start: "repl_inv E (CRss c) (CStatus c) (length (peerset c)) ([], c)"
    using repl_inv_start [OF lab inv] assms(1) by (simp add: cluster_world_def ms_small_def)
  have "go_safe (replicate_post (CRss c)) (replicate_step E fuel c)"
    unfolding replicate_step_def
    by (rule go_safe_bind [OF replicateBody_safe [OF start]]) (use size assms(3) replicate_post_update in auto)
  from go_safe_conj [OF this replicate_frame [OF lab]] show ?thesis
  proof (rule go_safe_mono, clarify)
    fix es c' assume "replicate_post (CRss c) (es, c')" and fr: "frame c c'"
    then have "cluster_inv c'" "list_all plain es" by (simp_all add: replicate_post_def)
    moreover have "set (map fst (peerset c')) \<subseteq> N" using fr assms(2) unfolding frame_def run_inv_def by simp
    ultimately show "run_inv N c' \<and> list_all plain es"
      using run_inv_channels [OF frame_channels [OF fr] assms(2)] by simp
  qed
qed

lemma reconcileAll_run:
  assumes "cluster_world E N" and "run_inv N c" and "card N < fuel" and "pod_names pods \<subseteq> N"
  shows "go_safe (\<lambda>(es, c'). run_inv N c' \<and> list_all plain es) (reconcileAll E fuel pods c)"
proof -
  note again = go_ok_imp_safe [OF reconcile_run [OF assms(1) _ assms(4)]]
  have append: "list_all plain es \<Longrightarrow> appendAllNonNil es' (map Some es) = es' @ es" "appendAllNonNil es' [] = es'" for es es'
    by (rule appendAllNonNil_plain) (simp_all add: appendAllNonNil_def)
  have "go_safe (\<lambda>(es, c'). run_inv N c' \<and> list_all plain es)
      (go_bind (reconcile E pods c2) (\<lambda>(es3, c3). Ret (appendAllNonNil es2 (map Some es3), c3)))"
    if "run_inv N c2" "list_all plain es2" for c2 es2
    by (rule go_safe_bind [OF again [OF that(1)]]) (use that(2) in \<open>auto simp: append\<close>)
  then show ?thesis
    unfolding reconcileAll_def Let_def
    by (intro go_safe_bind [OF again [OF assms(2)]])
      (auto simp: append intro!: go_safe_bind [OF replicate_run [OF assms(1) _ assms(3)]])
qed

lemma noPods_run:
  assumes "run_inv N c"
  shows "go_ok (\<lambda>(es, c'). run_inv N c' \<and> list_all plain es) (noPods c)"
proof (cases "GetNumReplicas (Spec (CRss c)) = 0")
  case True
  with assms show ?thesis by (simp add: noPods_def run_inv_def cluster_inv_def)
next
  case False
  have "podsToMemberSet c [] = []" by (simp add: podsToMemberSet_def)
  with Reconcile_stage [of c "[]"] assms
  have "go_ok (\<lambda>ps. matched c [] (c\<lparr>Peers := Some ps\<rparr>)) (Reconcile (peerset c) [] (GetNumReplicas (Spec (CRss c))))"
    by (simp add: run_inv_def)
  moreover have "run_inv N (c\<lparr>Peers := Some ps\<rparr>)" if "matched c [] (c\<lparr>Peers := Some ps\<rparr>)" for ps
    using that assms dom_keys [of ps] dom_keys [of "peerset c"] by (auto simp: matched_def run_inv_def pod_names_def)
  ultimately show ?thesis using False by (auto simp: noPods_def elim!: go_ok_bind)
qed

lemma afterSelect_plain: "list_all plain es \<Longrightarrow> afterSelect E (es, c) = Ret (True, c)"
  by (simp add: afterSelect_def firstFatal_plain)

lemma runTick_run:
  assumes "cluster_world E N" and "run_inv N c" and "card N < fuel"
  shows "go_safe (\<lambda>(go_on, c'). go_on \<and> run_inv N c') (runTick E fuel c)"
proof (cases "Paused (Spec (CRss c))")
  case True
  with assms(2) show ?thesis by (auto simp: runTick_def intro: run_inv_keeps [of c])
next
  case False
  obtain r c1 where poll: "pollPods E (c\<lparr>CStatus := Control (CStatus c)\<rparr>) = (r, c1)" by fastforce
  with keeps_pollPods [of "c\<lparr>CStatus := Control (CStatus c)\<rparr>" E] have k: "keeps_members c c1" by simp
  have inv: "run_inv N c2" if "keeps_members c c2" for c2 using run_inv_keeps [OF that assms(2)] .
  have select: "go_safe (\<lambda>(go_on, c'). go_on \<and> run_inv N c') (go_bind r (afterSelect E))"
    if "go_safe (\<lambda>(es, c'). run_inv N c' \<and> list_all plain es) r" for r
    by (rule go_safe_bind [OF that]) (auto simp: afterSelect_plain)
  show ?thesis
  proof (cases r)
    case (Inl err)
    with False poll k inv show ?thesis by (simp add: runTick_def)
  next
    case (Inr rp)
    obtain running pending where rp: "rp = (running, pending)" by fastforce
    have names: "pod_names running \<subseteq> N" using pollPods_names [OF poll [unfolded Inr rp] assms(1)] .
    from False poll Inr rp k show ?thesis
      by (auto simp: runTick_def Let_def
          intro!: select inv go_ok_imp_safe [OF noPods_run] reconcileAll_run [OF assms(1) _ assms(3) names])
  qed
qed

lemma handleUpdateEvent_run:
  assumes "cluster_world E N"
  shows "go_ok (\<lambda>(err, c'). keeps_members c c') (handleUpdateEvent E ev c)"
proof -
  let ?c1 = "c\<lparr>CRss := EventRss ev\<rparr>"
  let ?name = "prefixedName (RssName (EventRss ev))"
  show ?thesis
  proof (cases "sts_get E (Trace c) (RssNamespace (EventRss ev)) ?name")
    case (Inl err)
    then show ?thesis by (simp add: handleUpdateEvent_def Let_def)
  next
    case (Inr sts)
    with assms obtain cur where "StsReplicas (StsSpec sts) = Some cur" unfolding cluster_world_def by blast
    moreover have "case resizeSts E ?name sts cur (request e ?c1) of (err, c') \<Rightarrow> keeps_members c c'" for e
      using keeps_resizeSts [of c E ?name sts cur "request e ?c1"] by (simp add: split_def)
    ultimately show ?thesis using Inr by (simp add: handleUpdateEvent_def Let_def)
  qed
qed

lemma handleEvent_run:
  assumes "cluster_world E N" and "run_inv N c" and "EventTyp ev = eventModifyCluster"
  shows "go_ok (\<lambda>(go_on, c'). run_inv N c' \<and> (\<not> go_on \<longrightarrow> Phase (CStatus c') = ClusterPhaseFailed)) (handleEvent E ev c)"
proof -
  have failed: "Phase (CStatus (snd (updateCRStatus E ''failed'' (d\<lparr>CStatus := SetPhase ClusterPhaseFailed st\<rparr>)))) = ClusterPhaseFailed" for d st
    by (simp add: updateCRStatus_frame(3) SetPhase_def)
  show ?thesis
    using assms(3) unfolding handleEvent_def
    by (auto intro!: go_ok_bind [OF handleUpdateEvent_run [OF assms(1)]] run_inv_keeps [OF _ assms(2)]
        simp: reportFailedStatus_eq failed split: option.splits)
qed

text \<open>What holds of every state an operation of the set-up passes through holds at its end.\<close>

lemma andThen_inv: "P (snd r) \<Longrightarrow> (\<And>d. fst r = None \<Longrightarrow> P d \<Longrightarrow> P (snd (f d))) \<Longrightarrow> P (snd (andThen r w f))"
  by (cases r) (auto simp: andThen_def split: option.splits)

lemma keeps_setup_parts:
  "keeps_members c (snd (CreateOrUpdateService E v d)) = keeps_members c d"
  "keeps_members c (snd (createSecret E cms d)) = keeps_members c d"
  "keeps_members c (snd (createStatefulSet E d)) = keeps_members c d"
  "keeps_members c (snd (setupTLS E d)) = keeps_members c d"
  by (simp_all add: CreateOrUpdateService_def createSecret_def createStatefulSet_def setupTLS_def
      GetTLSDataFromSecret_def Let_def split: sum.splits option.splits) (auto simp: keeps_members_def)

lemma keeps_create: "keeps_members c d \<Longrightarrow> keeps_members c (snd (create E d))"
  unfolding create_def by (intro andThen_inv [where P = "keeps_members c"]) (simp_all add: keeps_setup_parts)

lemma keeps_setup: "keeps_members c (snd (setup_cluster E c))"
proof -
  have "keeps_members c (snd (setup_step E b c))" for b
    unfolding setup_step_def
    by (rule andThen_inv [where P = "keeps_members c"]) (simp_all add: keeps_setup_parts keeps_create)
  then show ?thesis by (simp add: setup_cluster_def Let_def)
qed

lemma startCluster_keeps: "startCluster E c = (go_on, c') \<Longrightarrow> keeps_members c c'"
proof -
  assume start: "startCluster E c = (go_on, c')"
  obtain err c1 where s: "setup_cluster E c = (err, c1)" by fastforce
  have k: "keeps_members c c1" using keeps_setup [of c E] by (simp add: s)
  from start have c': "c' = c1 \<or> (\<exists>st p. c' = snd (updateCRStatus E p (c1\<lparr>CStatus := st\<rparr>)))"
    unfolding startCluster_def s by (cases err) (auto split: if_splits)
  with k show "keeps_members c c'" by auto
qed

lemma newCluster_simps [simp]:
  "peerset (newCluster h r) = []" "EventCh (newCluster h r) = []" "CRss (newCluster h r) = r"
  "CStatus (newCluster h r) = Status r" "Trace (newCluster h r) = h"
  "\<not> StopClosed (newCluster h r)"
  by (simp_all add: newCluster_def peerset_def)

lemma run_inv_start: "startCluster E (newCluster h r) = (go_on, c) \<Longrightarrow> run_inv N c"
  by (erule run_inv_keeps [OF startCluster_keeps]) (simp add: run_inv_def cluster_inv_def)

text \<open>The invariant along a run.\<close>

definition run_ok :: "string set \<Rightarrow> runstate \<Rightarrow> bool" where
  "run_ok N s =
     (case s of
        Loop c \<Rightarrow> run_inv N c
      | Ended c \<Rightarrow> StopClosed c \<or> Phase (CStatus c) = ClusterPhaseFailed
      | Crashed msg \<Rightarrow> False
      | Hanging c \<Rightarrow> run_inv N c)"

lemma run_ok_simps [simp]:
  "run_ok N (Loop c) = run_inv N c" "run_ok N (Ended c) = (StopClosed c \<or> Phase (CStatus c) = ClusterPhaseFailed)"
  "\<not> run_ok N (Crashed msg)" "run_ok N (Hanging c) = run_inv N c"
  by (simp_all add: run_ok_def)

lemma run_ok_tick:
  "run_inv N c \<Longrightarrow> go_safe (\<lambda>(go_on, c'). go_on \<and> run_inv N c') r \<Longrightarrow> run_ok N (turn c r)"
  by (cases r) auto

lemma run_ok_event:
  "go_ok (\<lambda>(go_on, c'). run_inv N c' \<and> (\<not> go_on \<longrightarrow> Phase (CStatus c') = ClusterPhaseFailed)) r \<Longrightarrow> run_ok N (turn c r)"
  by (cases r) auto

lemma run_ok_loop:
  assumes "cluster_world E N" and "card N < fuel" and "loop_step E fuel s s'" and "run_ok N s"
  shows "run_ok N s'"
  using assms(3)
proof (cases rule: loop_step.cases)
  case (stop c)
  then show ?thesis by simp
next
  case (event c ev evs)
  with assms(4) have "run_inv N (c\<lparr>EventCh := evs\<rparr>)" "EventTyp ev = eventModifyCluster"
    by (simp_all add: run_inv_channels_update) (simp_all add: run_inv_def)
  with event show ?thesis by (simp add: run_ok_event handleEvent_run [OF assms(1)])
next
  case (tick c)
  with assms(4) have "run_inv N c" by simp
  with tick show ?thesis by (simp add: run_ok_tick runTick_run [OF assms(1) _ assms(2)])
next
  case (inform c cms)
  have "keeps_members c (c\<lparr>CmapStore := cms\<rparr>)" by (simp add: keeps_members_def)
  with inform assms(4) show ?thesis by (simp add: run_inv_keeps)
qed

lemma run_inv_sends: "sends (updateEvent r) c c' \<Longrightarrow> run_inv N c \<Longrightarrow> run_inv N c'"
  by (elim sendsE) (simp_all add: run_inv_channels_update, simp add: run_inv_def updateEvent_def)

lemma run_inv_delete: "DeleteCluster c = Ret c' \<Longrightarrow> run_inv N c \<Longrightarrow> run_inv N c'"
  by (auto simp: run_inv_channels_update DeleteCluster_def split: if_splits)

lemma run_ok_step:
  assumes "cluster_world E N" and "card N < fuel" and "run_step E fuel s s'" and "run_ok N s"
  shows "run_ok N s'"
  using assms(3,4)
  by (cases rule: run_step.cases)
    (auto intro: run_ok_loop [OF assms(1,2)] dest: run_inv_sends run_inv_delete)

lemma run_ok_reachable:
  "run_reachable E fuel s0 s \<Longrightarrow> cluster_world E N \<Longrightarrow> card N < fuel \<Longrightarrow> run_ok N s0 \<Longrightarrow> run_ok N s"
  by (induction rule: run_reachable.induct) (auto intro: run_ok_step)

section \<open>Requests of the set-up\<close>

text \<open>The requests that create or change an object of the cluster.\<close>

fun creates :: "effect \<Rightarrow> bool" where
  "creates (ESvcCreate ns x) = True"
| "creates (ESvcUpdate ns x) = True"
| "creates (ESecretCreate ns x) = True"
| "creates (EStsCreate ns x) = True"
| "creates (EPodCreate ns x) = True"
| "creates _ = False"

fun recordsCreating :: "effect \<Rightarrow> bool" where
  "recordsCreating (ECRUpdate ns r) = (Phase (Status r) = ClusterPhaseCreating)"
| "recordsCreating _ = False"

text \<open>
  Of the requests after the history \<open>h\<close>, none that creates comes before one that records the phase, and
  when none records it, none creates.
\<close>

definition recorded_first :: "history \<Rightarrow> history \<Rightarrow> bool" where
  "recorded_first h tr \<longleftrightarrow> (\<exists>new. tr = h @ new \<and> (\<forall>e \<in> set (takeWhile (\<lambda>e. \<not> recordsCreating e) new). \<not> creates e))"

definition recorded :: "history \<Rightarrow> history \<Rightarrow> bool" where
  "recorded h tr \<longleftrightarrow> recorded_first h tr \<and> (\<exists>e \<in> set (drop (length h) tr). recordsCreating e)"

lemma recorded_first_append:
  "recorded_first h tr \<Longrightarrow> \<not> creates e \<or> recorded h tr \<Longrightarrow> recorded_first h (tr @ [e])"
  by (auto simp: recorded_first_def recorded_def takeWhile_append split: if_splits) (metis takeWhile_eq_all_conv)

lemma recorded_append: "recorded h tr \<Longrightarrow> recorded h (tr @ [e])"
  by (auto simp: recorded_def intro: recorded_first_append)

lemma recorded_appends: "recorded h tr \<Longrightarrow> recorded h (tr @ es)"
  by (induction es rule: rev_induct) (simp_all flip: append_assoc add: recorded_append)

lemma recorded_updateCRStatus: "recorded h (Trace d) \<Longrightarrow> recorded h (Trace (snd (updateCRStatus E p d)))"
  by (auto simp: updateCRStatus_def Let_def intro: recorded_append split: sum.splits)

lemma recorded_create_parts:
  "recorded h (Trace d) \<Longrightarrow> recorded h (Trace (snd (CreateOrUpdateService E v d)))"
  "recorded h (Trace d) \<Longrightarrow> recorded h (Trace (snd (createSecret E cms d)))"
  "recorded h (Trace d) \<Longrightarrow> recorded h (Trace (snd (createStatefulSet E d)))"
  by (auto simp: CreateOrUpdateService_def createSecret_def createStatefulSet_def Let_def
      intro!: recorded_appends split: sum.splits option.splits)

text \<open>Without a request that creates, the history only has to have grown.\<close>

definition only_reads :: "history \<Rightarrow> history \<Rightarrow> bool" where
  "only_reads h tr \<longleftrightarrow> (\<exists>new. tr = h @ new \<and> (\<forall>e \<in> set new. \<not> creates e))"

lemma only_reads_first: "only_reads h tr \<Longrightarrow> recorded_first h tr"
  by (auto simp: only_reads_def recorded_first_def dest: set_takeWhileD)

lemma only_reads_append: "only_reads h tr \<Longrightarrow> \<not> creates e \<Longrightarrow> only_reads h (tr @ [e])"
  by (auto simp: only_reads_def)

lemma only_reads_updateCRStatus: "only_reads h (Trace d) \<Longrightarrow> only_reads h (Trace (snd (updateCRStatus E p d)))"
  by (auto simp: updateCRStatus_def Let_def intro: only_reads_append split: sum.splits)

lemma recorded_first_updateCRStatus:
  "recorded_first h (Trace d) \<Longrightarrow> recorded_first h (Trace (snd (updateCRStatus E p d)))"
  by (auto simp: updateCRStatus_def Let_def intro: recorded_first_append split: sum.splits)

lemma only_reads_setupTLS: "only_reads h (Trace d) \<Longrightarrow> only_reads h (Trace (snd (setupTLS E d)))"
  by (auto simp: setupTLS_def GetTLSDataFromSecret_def intro: only_reads_append split: sum.splits option.splits)

lemma setupTLS_keeps: "CRss (snd (setupTLS E d)) = CRss d \<and> CStatus (snd (setupTLS E d)) = CStatus d"
  by (simp add: setupTLS_def GetTLSDataFromSecret_def split: sum.splits option.splits)

lemma only_reads_new: "only_reads h tr \<Longrightarrow> recordsCreating e \<Longrightarrow> recorded h (tr @ [e])"
proof -
  assume reads: "only_reads h tr" and e: "recordsCreating e"
  from e have "\<not> creates e" by (cases e) simp_all
  with reads have "recorded_first h (tr @ [e])" by (simp add: recorded_first_append only_reads_first)
  with reads e show "recorded h (tr @ [e])" by (auto simp: recorded_def only_reads_def)
qed

lemma recorded_create:
  assumes "only_reads h (Trace d)" and "Phase (Status (CRss d)) \<noteq> ClusterPhaseCreating"
  shows "recorded h (Trace (snd (create E d)))"
proof -
  have "recorded h (Trace (snd (updateCRStatus E ''create'' (d\<lparr>CStatus := SetPhase ClusterPhaseCreating (CStatus d)\<rparr>))))"
    using assms by (auto simp: updateCRStatus_def SetPhase_def Let_def intro!: only_reads_new split: sum.splits)
  then show ?thesis
    unfolding create_def
    by (intro andThen_inv [where P = "\<lambda>d. recorded h (Trace d)"]) (simp_all add: recorded_create_parts)
qed

lemma setup_requests:
  assumes "only_reads h (Trace d)" and "Status (CRss d) = CStatus d"
  shows "recorded_first h (Trace (snd (setup_cluster E d)))"
    and "Phase (CStatus d) \<noteq> ClusterPhaseNone \<Longrightarrow> only_reads h (Trace (snd (setup_cluster E d)))"
proof -
  let ?t = "setupTLS E d"
  have t: "only_reads h (Trace (snd ?t))" "CRss (snd ?t) = CRss d"
    using only_reads_setupTLS assms(1) setupTLS_keeps by auto
  have no: "only_reads h (Trace (snd (setup_step E False d)))"
    using t by (cases ?t) (simp add: setup_step_def andThen_def split: option.splits)
  have yes: "recorded_first h (Trace (snd (setup_step E True d)))" if "Phase (CStatus d) = ClusterPhaseNone"
  proof -
    have "Phase (Status (CRss (snd ?t))) \<noteq> ClusterPhaseCreating" using t(2) assms(2) that by (simp add: phase_defs)
    from recorded_create [OF t(1) this] only_reads_first [OF t(1)] show ?thesis
      by (cases ?t) (simp add: setup_step_def andThen_def recorded_def split: option.splits)
  qed
  show "recorded_first h (Trace (snd (setup_cluster E d)))"
    using no yes assms(1) by (simp add: setup_cluster_def Let_def only_reads_first)
  show "only_reads h (Trace (snd (setup_cluster E d)))" if "Phase (CStatus d) \<noteq> ClusterPhaseNone"
    using no that assms(1) by (simp add: setup_cluster_def Let_def)
qed

section \<open>Properties\<close>


definition ex_running :: rss where
  "ex_running = zero_rss\<lparr>Status := zero_status\<lparr>Phase := ClusterPhaseRunning\<rparr>\<rparr>"

lemma ex_running_starts:
  "startCluster (sample_kube o' f) (newCluster [] ex_running) = (True, newCluster [] ex_running)"
  by (simp add: startCluster_def setup_cluster_def setup_step_def setupTLS_def andThen_def ex_running_def zero_rss_def
      zero_spec_def zero_status_def IsSecureClient_def newCluster_def updateCRStatus_def SetPhase_def phase_defs Let_def)

lemma sample_world: "finite N \<Longrightarrow> int (card N) < 2 ^ 31 \<Longrightarrow> cluster_world (sample_kube o' f) N"
  using pods_labelled_sample by (simp add: cluster_world_def sample_kube_def pod_names_def sample_sts_def)


text \<open>
  C26. Reporting a failure tries once: whether the write of the failed phase succeeds or not,
  \<^verbatim>\<open>reportFailedStatus\<close> returns after that one request, although it retries until the write
  succeeds, because the first attempt makes the resource in memory equal to the status.
\<close>

theorem reportFailedStatus_tries_once:
  "\<exists>c'. reportFailedStatus E c = Ret c' \<and> Phase (CStatus c') = ClusterPhaseFailed \<and>
     Trace c' = Trace c @
       (if Status (CRss c) = SetPhase ClusterPhaseFailed (CStatus c) then []
        else [ECRUpdate (Namespace c) ((CRss c)\<lparr>Status := SetPhase ClusterPhaseFailed (CStatus c)\<rparr>)])"
  unfolding reportFailedStatus_eq
  by (simp add: updateCRStatus_def Let_def split: sum.splits) (simp add: SetPhase_def)



fun patchesSts :: "effect \<Rightarrow> bool" where
  "patchesSts (EStsPatch ns name p) = True"
| "patchesSts _ = False"

lemma updateCRStatus_trace: "\<exists>new. Trace (snd (updateCRStatus E p c)) = Trace c @ new \<and> (\<forall>e \<in> set new. \<not> patchesSts e)"
  by (auto simp: updateCRStatus_def Let_def split: sum.splits)

definition resized :: "statefulset \<Rightarrow> int32 \<Rightarrow> statefulset" where
  "resized sts n = sts\<lparr>StsSpec := (StsSpec sts)\<lparr>StsReplicas := Some n\<rparr>\<rparr>"

lemma resized_same: "StsReplicas (StsSpec sts) = Some n \<Longrightarrow> resized sts n = sts"
  by (simp add: resized_def)

lemma ObjName_resized [simp]: "StsMeta (resized sts n) = StsMeta sts"
  by (simp add: resized_def)

lemma patchSts_last:
  "create_patch_sts E o' s = Inr p \<Longrightarrow>
   Trace (snd (patchSts E n o' s c)) = Trace c @ [EStsPatch (Namespace c) (ObjName (StsMeta s)) p]"
  by (simp add: patchSts_def Let_def split: option.splits)

lemma resizeSts_effect:
  assumes "StsReplicas (StsSpec sts) = Some cur" and "n = GetNumReplicas (Spec (CRss c))"
    and "create_patch_sts E sts (resized sts n) = Inr p"
  shows "if cur \<noteq> n \<and> cur = 0 \<and> n < wrap32 (RestoreReplicas (Status (CRss c)))
         then fst (resizeSts E name sts cur c) = None \<and> Phase (CStatus (snd (resizeSts E name sts cur c))) = ClusterPhasePaused \<and>
              (\<exists>new. Trace (snd (resizeSts E name sts cur c)) = Trace c @ new \<and> (\<forall>e \<in> set new. \<not> patchesSts e))
         else \<exists>ns. last (Trace (snd (resizeSts E name sts cur c))) = EStsPatch ns (ObjName (StsMeta sts)) p"
proof -
  note upd = updateCRStatus_trace [of E "''modify''" "c\<lparr>CStatus := st\<rparr>" for st]
  show ?thesis
    using assms resized_same [of sts n] upd patchSts_last [OF assms(3), of name]
    by (auto simp: resizeSts_def Let_def resized_def [symmetric] updateCRStatus_frame(3) SetPhase_def SetReason_def)
qed

text \<open>
  C28. What a changed size does: with an unchanged replica count, pause flag and primary count nothing is
  requested. Otherwise the stateful set is read and, unless it is stopped and the new size is below
  the remembered one, patched to the new size; in the excepted case it is not patched, and the
  cluster is paused with the reason in its status.
\<close>

theorem resize_event:
  assumes "Trace c = h" and "EventRss ev = r" and "n = GetNumReplicas (Spec r)"
    and "sts_get E h (RssNamespace r) (prefixedName (RssName r)) = Inr sts" and "StsReplicas (StsSpec sts) = Some cur"
    and "create_patch_sts E sts (resized sts n) = Inr p"
  shows "go_ok (\<lambda>(err, c').
           if isSpecEqual (Spec r) (Spec (CRss c)) then err = None \<and> c' = c\<lparr>CRss := r\<rparr>
           else if cur \<noteq> n \<and> cur = 0 \<and> n < wrap32 (RestoreReplicas (Status r))
           then err = None \<and> Phase (CStatus c') = ClusterPhasePaused \<and>
                (\<exists>new. Trace c' = h @ new \<and> (\<forall>e \<in> set new. \<not> patchesSts e))
           else \<exists>ns. last (Trace c') = EStsPatch ns (ObjName (StsMeta sts)) p) (handleUpdateEvent E ev c)"
proof -
  let ?name = "prefixedName (RssName r)"
  let ?c = "request (EStsGet (RssNamespace r) ?name) (c\<lparr>CRss := r\<rparr>)"
  obtain err c' where u: "resizeSts E ?name sts cur ?c = (err, c')" by fastforce
  have "if cur \<noteq> n \<and> cur = 0 \<and> n < wrap32 (RestoreReplicas (Status r))
      then err = None \<and> Phase (CStatus c') = ClusterPhasePaused \<and>
        (\<exists>new. Trace c' = Trace ?c @ new \<and> (\<forall>e \<in> set new. \<not> patchesSts e))
      else \<exists>ns. last (Trace c') = EStsPatch ns (ObjName (StsMeta sts)) p"
    using resizeSts_effect [OF assms(5) _ assms(6), of ?c ?name, unfolded u fst_conv snd_conv] assms(3)
    by (simp split: if_splits)
  then show ?thesis
    using assms u by (auto simp: handleUpdateEvent_def Let_def)
qed

theorem resize_event_witness:
  "go_ok (\<lambda>(err, c'). \<exists>ns. last (Trace c') = EStsPatch ns ''rss-db'' ''patch'')
     (handleUpdateEvent (sample_kube (\<lambda>n. []) (\<lambda>n. None)) (updateEvent ex_labelled)
        (sample_cluster (ex_labelled\<lparr>Spec := (Spec ex_labelled)\<lparr>Paused := True\<rparr>\<rparr>) []))"
proof -
  let ?E = "sample_kube (\<lambda>n. []) (\<lambda>n. None)" and ?c = "sample_cluster (ex_labelled\<lparr>Spec := (Spec ex_labelled)\<lparr>Paused := True\<rparr>\<rparr>) []"
  let ?sts = "sample_sts [] ''rss-db''"
  have "go_ok (\<lambda>(err, c').
     if isSpecEqual (Spec ex_labelled) (Spec (CRss ?c)) then err = None \<and> c' = ?c\<lparr>CRss := ex_labelled\<rparr>
     else if 3 \<noteq> (3::int) \<and> 3 = (0::int) \<and> 3 < wrap32 (RestoreReplicas (Status ex_labelled))
     then err = None \<and> Phase (CStatus c') = ClusterPhasePaused \<and> (\<exists>new. Trace c' = [] @ new \<and> (\<forall>e \<in> set new. \<not> patchesSts e))
     else \<exists>ns. last (Trace c') = EStsPatch ns (ObjName (StsMeta ?sts)) ''patch'') (handleUpdateEvent ?E (updateEvent ex_labelled) ?c)"
    by (rule resize_event) (simp_all add: sample_cluster_def updateEvent_def sample_kube_def create_patch_sts_def CreatePatch_def sample_sts_def ex_labelled_def
      zero_rss_def zero_meta_def zero_spec_def prefixedName_def GetNumReplicas_def minClusterSize_def)
  moreover have "\<not> isSpecEqual (Spec ex_labelled) (Spec (CRss ?c))"
    by (simp add: isSpecEqual_def sample_cluster_def ex_labelled_def zero_spec_def)
  ultimately show ?thesis by (simp add: sample_sts_def)
qed

section \<open>Configuration maps of the rules\<close>

lemma ListAllByNamespace_scan:
  "ListAllByNamespace metaOf items (Inl err) ns sel =
     filter (\<lambda>m. (ns = [] \<or> ObjNamespace (metaOf m) = ns) \<and> selectorMatches sel (Labels (metaOf m))) items"
  by (simp add: ListAllByNamespace_def)

text \<open>The informer's store is empty, and of the requests after \<open>h\<close>, those for secrets list no configuration map.\<close>

definition without_rules :: "kube \<Rightarrow> history \<Rightarrow> cluster \<Rightarrow> bool" where
  "without_rules E h c \<longleftrightarrow> CmapStore c = [] \<and>
     (\<exists>new. Trace c = h @ new \<and> (\<forall>ns s. ESecretCreate ns s \<in> set new \<longrightarrow> (\<exists>orders r. makeEmptyConfig E orders r [] = Inr s)))"

lemma without_rules_simps [simp]:
  "without_rules E h (c\<lparr>CStatus := st\<rparr>) = without_rules E h c" "without_rules E h (c\<lparr>CRss := r\<rparr>) = without_rules E h c"
  "without_rules E h (c\<lparr>TlsReady := b\<rparr>) = without_rules E h c"
  by (simp_all add: without_rules_def)

lemma without_rules_request:
  assumes "without_rules E h c" and "\<And>ns s. e = ESecretCreate ns s \<Longrightarrow> \<exists>orders r. makeEmptyConfig E orders r [] = Inr s"
  shows "without_rules E h (request e c)"
proof -
  from assms(1) obtain new where "CmapStore c = []" "Trace c = h @ new"
    "\<forall>ns s. ESecretCreate ns s \<in> set new \<longrightarrow> (\<exists>orders r. makeEmptyConfig E orders r [] = Inr s)"
    by (auto simp: without_rules_def)
  with assms(2) show ?thesis by (auto simp: without_rules_def request_def intro!: exI [of _ "new @ [e]"])
qed

lemma without_rules_parts:
  assumes "without_rules E h c"
  shows "without_rules E h (snd (updateCRStatus E p c))" "without_rules E h (snd (CreateOrUpdateService E v c))"
    "without_rules E h (snd (createStatefulSet E c))" "without_rules E h (snd (setupTLS E c))"
    "without_rules E h (snd (createSecret E [] c))"
  using assms
  by (auto simp: updateCRStatus_def CreateOrUpdateService_def createStatefulSet_def setupTLS_def GetTLSDataFromSecret_def
      createSecret_def Let_def intro!: without_rules_request split: sum.splits option.splits)

lemma without_rules_create:
  assumes "without_rules E h c"
  shows "without_rules E h (snd (create E c))"
proof -
  have "without_rules E h (snd (createSecret E (case ruleFileConfigMaps E d of Inl _ \<Rightarrow> [] | Inr cms \<Rightarrow> cms) d))"
    if "without_rules E h d" for d
  proof -
    have "(case ruleFileConfigMaps E d of Inl _ \<Rightarrow> [] | Inr cms \<Rightarrow> cms) = []"
      using that by (simp add: without_rules_def ruleFileConfigMaps_def ListAllByNamespace_scan split: sum.splits)
    with that show ?thesis by (simp add: without_rules_parts)
  qed
  with assms show ?thesis
    unfolding create_def by (intro andThen_inv [where P = "without_rules E h"]) (simp_all add: without_rules_parts)
qed

lemma without_rules_setup: "without_rules E h c \<Longrightarrow> without_rules E h (snd (setup_cluster E c))"
  unfolding setup_cluster_def setup_step_def Let_def
  by (auto intro!: andThen_inv [where P = "without_rules E h"] without_rules_create simp: without_rules_parts)

lemma without_rules_start: "without_rules E h (snd (startCluster E (newCluster h r)))"
proof -
  have "without_rules E h (newCluster h r)" by (simp add: without_rules_def newCluster_def)
  then have "without_rules E h (snd (setup_cluster E (newCluster h r)))" by (rule without_rules_setup)
  then show ?thesis
    by (cases "setup_cluster E (newCluster h r)") (auto simp: startCluster_def without_rules_parts split: option.splits)
qed

lemma without_rules_secrets:
  "without_rules E h c \<Longrightarrow> ESecretCreate ns s \<in> set (drop (length h) (Trace c)) \<Longrightarrow> \<exists>orders r. makeEmptyConfig E orders r [] = Inr s"
  by (auto simp: without_rules_def)

text \<open>
  C25. The configuration maps of the rules are the maps in the informer's store that lie in the namespace of the
  cluster and are selected by its rule selector, and a selector that cannot be converted is an error. The informer
  is started only by the loop: every secret that is created while a new cluster is set up is made without any
  configuration map, whatever maps there are.
\<close>

theorem rule_config_maps:
  assumes "RuleSelector (Spec (CRss c)) = Some ps" and "distinct (map fst (MatchLabels ps))"
  shows "(if convertible ps
      then ruleFileConfigMaps E c = Inr (filter (\<lambda>cm. (Namespace c = [] \<or> ObjNamespace (CMMeta cm) = Namespace c) \<and>
             selects_by ps (Labels (CMMeta cm))) (CmapStore c))
      else \<exists>err. ruleFileConfigMaps E c = Inl err) \<and>
    (\<forall>h r ns s. ESecretCreate ns s \<in> set (drop (length h) (Trace (snd (startCluster E (newCluster h r))))) \<longrightarrow>
      (\<exists>orders r'. makeEmptyConfig E orders r' [] = Inr s))"
proof
  let ?order = "map_order E (Trace c) ''LabelSelectorAsSelector''"
  show "if convertible ps
      then ruleFileConfigMaps E c = Inr (filter (\<lambda>cm. (Namespace c = [] \<or> ObjNamespace (CMMeta cm) = Namespace c) \<and>
             selects_by ps (Labels (CMMeta cm))) (CmapStore c))
      else \<exists>err. ruleFileConfigMaps E c = Inl err"
    using LabelSelectorAsSelector_spec [OF assms(2), of ?order] assms(1)
    by (auto simp: ruleFileConfigMaps_def clusterKeyFunc_def ListAllByNamespace_scan Let_def split: if_splits)
  show "\<forall>h r ns s. ESecretCreate ns s \<in> set (drop (length h) (Trace (snd (startCluster E (newCluster h r))))) \<longrightarrow>
      (\<exists>orders r'. makeEmptyConfig E orders r' [] = Inr s)"
    using without_rules_secrets [OF without_rules_start] by blast
qed

definition ex_rules :: "string \<Rightarrow> string \<Rightarrow> configmap" where
  "ex_rules ns role = \<lparr>CMMeta = zero_meta\<lparr>ObjName := ''rules'', ObjNamespace := ns, Labels := Some [(''role'', role)]\<rparr>, CMData = []\<rparr>"

theorem rule_config_maps_witness:
  "let r = zero_rss\<lparr>RssMeta := zero_meta\<lparr>ObjNamespace := ''prod''\<rparr>,
             Spec := zero_spec\<lparr>RuleSelector := Some \<lparr>MatchLabels = [(''role'', ''rules'')], MatchExpressions = []\<rparr>\<rparr>\<rparr>;
       c = (sample_cluster r [])\<lparr>CmapStore := [ex_rules ''prod'' ''rules'', ex_rules ''test'' ''rules'', ex_rules ''prod'' ''other'']\<rparr>
   in ruleFileConfigMaps (sample_kube (\<lambda>n. []) (\<lambda>n. None)) c = Inr [ex_rules ''prod'' ''rules'']"
proof -
  let ?ps = "\<lparr>MatchLabels = [(''role'', ''rules'')], MatchExpressions = []\<rparr>"
  let ?r = "zero_rss\<lparr>RssMeta := zero_meta\<lparr>ObjNamespace := ''prod''\<rparr>, Spec := zero_spec\<lparr>RuleSelector := Some ?ps\<rparr>\<rparr>"
  let ?c = "(sample_cluster ?r [])\<lparr>CmapStore := [ex_rules ''prod'' ''rules'', ex_rules ''test'' ''rules'', ex_rules ''prod'' ''other'']\<rparr>"
  have ok: "convertible ?ps" by code_simp
  have "RuleSelector (Spec (CRss ?c)) = Some ?ps" "distinct (map fst (MatchLabels ?ps))"
    by (simp_all add: sample_cluster_def)
  from conjunct1 [OF rule_config_maps [OF this, of "sample_kube (\<lambda>n. []) (\<lambda>n. None)"]] ok show ?thesis
    by (simp add: sample_cluster_def ex_rules_def selects_by_def)
qed

end
