(* ===== verification/Controller.thy ===== *)
theory Controller
  imports ClusterLoop
begin

text \<open>
  pkg/controller: the controller keeps the cluster objects by the name of their resource and turns what
  the informer delivers into calls on them. The map of the source holds pointers, and the goroutine of
  an object goes on when the map has forgotten it, so the model has a store of objects (\<open>Objects\<close>,
  by address) and the map from names to addresses (\<open>Names\<close>).

  \<^item> \<open>handleClusterEvent\<close>, \<open>syncEtcdClus\<close> and the three informer callbacks are the functions of
    controller.go and informer.go. \<open>pick\<close> decides the select statement of \<^verbatim>\<open>send\<close> when both of its
    branches are ready; when neither is, the call blocks, which is \<open>Stuck\<close>.
  \<^item> \<open>sys_step\<close> is the whole operator: the goroutine of one object takes a step, or the informer
    delivers a resource of the set \<open>R\<close>. The environment of object \<open>i\<close> is \<open>E i\<close>, which answers as a
    function of the requests of that object.
\<close>

section \<open>Objects and state\<close>

datatype objstate = SettingUp cluster | Running runstate

fun objCluster :: "objstate \<Rightarrow> cluster option" where
  "objCluster (SettingUp c) = Some c"
| "objCluster (Running (Loop c)) = Some c"
| "objCluster (Running (Ended c)) = Some c"
| "objCluster (Running (Hanging c)) = Some c"
| "objCluster (Running (Crashed msg)) = None"

fun withCluster :: "cluster \<Rightarrow> objstate \<Rightarrow> objstate" where
  "withCluster c (SettingUp _) = SettingUp c"
| "withCluster c (Running (Loop _)) = Running (Loop c)"
| "withCluster c (Running (Ended _)) = Running (Ended c)"
| "withCluster c (Running (Hanging _)) = Running (Hanging c)"
| "withCluster c (Running (Crashed msg)) = Running (Crashed msg)"

record system =
  Names :: "(string \<times> nat) list"
  Objects :: "objstate list"
  clustersCreated :: nat
  clustersModified :: nat
  clustersDeleted :: nat
  clustersFailed :: nat
  clustersTotal :: int
  TimerRunning :: bool

definition newController :: system where
  "newController = \<lparr>Names = [], Objects = [], clustersCreated = 0, clustersModified = 0, clustersDeleted = 0,
     clustersFailed = 0, clustersTotal = 0, TimerRunning = False\<rparr>"

text \<open>A method call through the pointer at an address. A panicked goroutine has ended the process.\<close>

definition callObject :: "nat \<Rightarrow> (cluster \<Rightarrow> cluster go) \<Rightarrow> system \<Rightarrow> system go" where
  "callObject i f s =
     (if i < length (Objects s) then
        (case objCluster (Objects s ! i) of
           None \<Rightarrow> Panic ''process ended''
         | Some c \<Rightarrow> go_bind (f c) (\<lambda>c'. Ret (s\<lparr>Objects := (Objects s)[i := withCluster c' (Objects s ! i)]\<rparr>)))
      else Panic nilDeref)"

text \<open>\<^verbatim>\<open>send\<close> with the choice made: it blocks when the buffer is full and the object is not stopped.\<close>

definition send :: "bool \<Rightarrow> clusterevent \<Rightarrow> cluster \<Rightarrow> cluster go" where
  "send pick ev c =
     (if length (EventCh c) < eventChCap \<and> (pick \<or> \<not> StopClosed c) then Ret (c\<lparr>EventCh := EventCh c @ [ev]\<rparr>)
      else if StopClosed c then Ret c
      else Stuck)"

section \<open>Events\<close>

definition kwAdded :: string where "kwAdded = ''ADDED''"
definition kwModified :: string where "kwModified = ''MODIFIED''"
definition kwDeleted :: string where "kwDeleted = ''DELETED''"

definition unsafeState :: "string \<Rightarrow> string \<Rightarrow> string \<Rightarrow> go_error" where
  "unsafeState name how typ =
     ErrNew (''Unsafe state. Cluster ('' @ name @ '') was '' @ how @ '' but we received event ('' @ typ @ '')'')"

text \<open>The switch on the type of the event; a type it does not list is ignored.\<close>

definition dispatch :: "bool \<Rightarrow> string \<Rightarrow> rss \<Rightarrow> system \<Rightarrow> (go_error option \<times> system) go" where
  "dispatch pick typ clus s =
     (let name = RssName clus; known = map_of (Names s) name
      in if typ = kwAdded then
           (case known of
              Some _ \<Rightarrow> Ret (Some (unsafeState name ''created before'' typ), s)
            | None \<Rightarrow> Ret (None, s\<lparr>Objects := Objects s @ [SettingUp (newCluster [] clus)],
                          Names := AList.update name (length (Objects s)) (Names s),
                          clustersCreated := clustersCreated s + 1, clustersTotal := clustersTotal s + 1\<rparr>))
         else if typ = kwModified then
           (case known of
              None \<Rightarrow> Ret (Some (unsafeState name ''never created'' typ), s)
            | Some i \<Rightarrow> go_bind (callObject i (send pick (updateEvent clus)) s) (\<lambda>s1.
                Ret (None, s1\<lparr>clustersModified := clustersModified s1 + 1\<rparr>)))
         else if typ = kwDeleted then
           (case known of
              None \<Rightarrow> Ret (Some (unsafeState name ''never created'' typ), s)
            | Some i \<Rightarrow> go_bind (callObject i DeleteCluster s) (\<lambda>s1.
                Ret (None, s1\<lparr>Names := AList.delete name (Names s1), clustersDeleted := clustersDeleted s1 + 1,
                     clustersTotal := clustersTotal s1 - 1\<rparr>)))
         else Ret (None, s))"

definition handleClusterEvent ::
  "string list \<Rightarrow> bool \<Rightarrow> string \<Rightarrow> rss \<Rightarrow> system \<Rightarrow> (go_error option \<times> system) go" where
  "handleClusterEvent order pick typ clus s =
     (if IsFailed (Some (Status clus)) then
        (let s1 = s\<lparr>clustersFailed := clustersFailed s + 1\<rparr>
         in if typ = kwDeleted then Ret (None, s1\<lparr>Names := AList.delete (RssName clus) (Names s1)\<rparr>)
            else Ret (Some (ErrNew (''Ignoring failed cluster ('' @ RssName clus @ ''). Please delete its CR'')), s1))
      else
        (let clus' = clus\<lparr>Spec := Cleanup (Spec clus)\<rparr>
         in go_bind (Validate order clus') (\<lambda>e.
              case e of
                Some err \<Rightarrow> Ret (Some (ErrNew (''Invalid cluster spec: '' @ Error err)), s)
              | None \<Rightarrow> dispatch pick typ clus' s)))"

text \<open>The timer that ends the process when an event is handled for too long.\<close>

definition ptStart :: "system \<Rightarrow> system" where "ptStart s = s\<lparr>TimerRunning := True\<rparr>"
definition ptStop :: "system \<Rightarrow> system" where "ptStop s = (if TimerRunning s then s\<lparr>TimerRunning := False\<rparr> else s)"

definition syncType :: "rss \<Rightarrow> system \<Rightarrow> string" where
  "syncType clus s = (if map_of (Names s) (RssName clus) \<noteq> None then kwModified else kwAdded)"

definition timed :: "(go_error option \<times> system) go \<Rightarrow> system go" where
  "timed r = go_bind r (\<lambda>(err, s'). Ret (ptStop s'))"

definition syncEtcdClus :: "string list \<Rightarrow> bool \<Rightarrow> rss \<Rightarrow> system \<Rightarrow> system go" where
  "syncEtcdClus order pick clus s = timed (handleClusterEvent order pick (syncType clus s) clus (ptStart s))"

text \<open>What the informer passes to a callback: a resource, the last known state of a deleted one, or something else.\<close>

datatype informerobj = ObjRss rss | Tombstone informerobj | ObjOther string

definition onAddEtcdClus :: "string list \<Rightarrow> bool \<Rightarrow> informerobj \<Rightarrow> system \<Rightarrow> system go" where
  "onAddEtcdClus order pick obj s =
     (case obj of ObjRss r \<Rightarrow> syncEtcdClus order pick r s | _ \<Rightarrow> Panic ''interface conversion'')"

definition onUpdateEtcdClus :: "string list \<Rightarrow> bool \<Rightarrow> informerobj \<Rightarrow> informerobj \<Rightarrow> system \<Rightarrow> system go" where
  "onUpdateEtcdClus order pick oldObj newObj s =
     (case newObj of ObjRss r \<Rightarrow> syncEtcdClus order pick r s | _ \<Rightarrow> Panic ''interface conversion'')"

definition deletedObject :: "informerobj \<Rightarrow> rss go" where
  "deletedObject obj =
     (case obj of
        ObjRss r \<Rightarrow> Ret r
      | Tombstone (ObjRss r) \<Rightarrow> Ret r
      | Tombstone _ \<Rightarrow> Panic ''Tombstone contained object that is not an ReplicatedStatefulSet''
      | ObjOther _ \<Rightarrow> Panic ''unknown object from ReplicatedStatefulSet delete event'')"

definition onDeleteEtcdClus :: "string list \<Rightarrow> bool \<Rightarrow> informerobj \<Rightarrow> system \<Rightarrow> system go" where
  "onDeleteEtcdClus order pick obj s =
     go_bind (deletedObject obj) (\<lambda>clus. timed (handleClusterEvent order pick kwDeleted clus (ptStart s)))"

section \<open>The operator\<close>

text \<open>The objects the informer passes for a resource of \<open>R\<close>.\<close>

definition delivers :: "rss set \<Rightarrow> informerobj \<Rightarrow> bool" where
  "delivers R obj \<longleftrightarrow> (\<exists>r \<in> R. obj = ObjRss r)"

definition delivers_deleted :: "rss set \<Rightarrow> informerobj \<Rightarrow> bool" where
  "delivers_deleted R obj \<longleftrightarrow> (\<exists>r \<in> R. obj = ObjRss r \<or> obj = Tombstone (ObjRss r))"

inductive sys_step :: "(nat \<Rightarrow> kube) \<Rightarrow> nat \<Rightarrow> rss set \<Rightarrow> system \<Rightarrow> system \<Rightarrow> bool" for E fuel R where
  set_up: "i < length (Objects s) \<Longrightarrow> Objects s ! i = SettingUp c \<Longrightarrow> startCluster (E i) c = (go_on, c') \<Longrightarrow>
    sys_step E fuel R s (s\<lparr>Objects := (Objects s)[i := Running (if go_on then Loop c' else Ended c')]\<rparr>)"
| loop: "i < length (Objects s) \<Longrightarrow> Objects s ! i = Running r \<Longrightarrow> loop_step (E i) fuel r r' \<Longrightarrow>
    sys_step E fuel R s (s\<lparr>Objects := (Objects s)[i := Running r']\<rparr>)"
| added: "delivers R obj \<Longrightarrow> onAddEtcdClus order pick obj s = Ret s' \<Longrightarrow> sys_step E fuel R s s'"
| updated: "delivers R obj \<Longrightarrow> onUpdateEtcdClus order pick old obj s = Ret s' \<Longrightarrow> sys_step E fuel R s s'"
| deleted: "delivers_deleted R obj \<Longrightarrow> onDeleteEtcdClus order pick obj s = Ret s' \<Longrightarrow> sys_step E fuel R s s'"

inductive sys_reachable :: "(nat \<Rightarrow> kube) \<Rightarrow> nat \<Rightarrow> rss set \<Rightarrow> system \<Rightarrow> bool" for E fuel R where
  init: "sys_reachable E fuel R newController"
| step: "sys_reachable E fuel R s \<Longrightarrow> sys_step E fuel R s s' \<Longrightarrow> sys_reachable E fuel R s'"

section \<open>Channels through a turn\<close>

lemma keeps_same_channels: "keeps_members c c' \<Longrightarrow> same_channels c c'"
  by (simp add: keeps_members_def same_channels_def)

lemma same_channels_trans: "same_channels a b \<Longrightarrow> same_channels b c \<Longrightarrow> same_channels a c"
  by (simp add: same_channels_def)

lemma channels_seq:
  "go_inv (\<lambda>(x, c1). same_channels c c1) r \<Longrightarrow> (\<And>x c1. go_inv (\<lambda>(y, c'). same_channels c1 c') (f (x, c1))) \<Longrightarrow>
   go_inv (\<lambda>(y, c'). same_channels c c') (go_bind r f)"
  by (erule go_inv_bind) (fastforce intro: same_channels_trans elim: go_inv_mono)

lemma channels_from:
  "same_channels a b \<Longrightarrow> go_inv (\<lambda>(x, c'). same_channels b c') r \<Longrightarrow> go_inv (\<lambda>(x, c'). same_channels a c') r"
  by (erule go_inv_mono) (auto intro: same_channels_trans)

lemma afterSelect_channels: "go_inv (\<lambda>(go_on, c'). same_channels c c') (afterSelect E (es, c))"
proof (cases "firstFatal es")
  case (Some err)
  let ?c = "c\<lparr>CStatus := SetReason (Error err) (CStatus c)\<rparr>"
  have "go_ok (keeps_members c) (reportFailedStatus E ?c)" by (rule keeps_reportFailedStatus) simp
  then show ?thesis using Some by (auto simp: afterSelect_def go_ok_iff keeps_same_channels)
qed (simp add: afterSelect_def same_channels_def)

lemma reconcileAll_channels:
  assumes "pods_labelled E"
  shows "go_inv (\<lambda>(es, c'). same_channels c c') (reconcileAll E fuel pods c)"
proof -
  have repl: "go_inv (\<lambda>(es, c'). same_channels d c') (replicate_step E fuel d)" for d
    by (rule go_inv_mono [OF replicate_frame [OF assms]]) (auto intro: frame_channels)
  show ?thesis
    unfolding reconcileAll_def Let_def
    by (intro channels_seq [OF reconcile_channels [OF assms]])
      (auto simp: same_channels_def intro!: channels_seq [OF repl, unfolded same_channels_def]
        channels_seq [OF reconcile_channels [OF assms], unfolded same_channels_def])
qed

lemma runTick_channels:
  assumes "pods_labelled E"
  shows "go_inv (\<lambda>(go_on, c'). same_channels c c') (runTick E fuel c)"
proof -
  obtain r c1 where poll: "pollPods E (c\<lparr>CStatus := Control (CStatus c)\<rparr>) = (r, c1)" by fastforce
  with keeps_pollPods [of "c\<lparr>CStatus := Control (CStatus c)\<rparr>" E] have k: "keeps_members c c1" by simp
  have none: "go_inv (\<lambda>(es, c'). same_channels d c') (noPods d)" for d
    by (auto simp: noPods_def same_channels_def go_inv_iff go_bind_Ret_iff)
  have "go_inv (\<lambda>(go_on, c'). same_channels c c') (go_bind (noPods d) (afterSelect E))"
    "go_inv (\<lambda>(go_on, c'). same_channels c c') (go_bind (reconcileAll E fuel pods d) (afterSelect E))"
    if "keeps_members c d" for d pods
    by (intro channels_from [OF keeps_same_channels [OF that]] channels_seq [OF none] afterSelect_channels
        channels_seq [OF reconcileAll_channels [OF assms]])+
  with k poll show ?thesis
    by (auto simp: runTick_def Let_def keeps_same_channels split: sum.splits)
qed

text \<open>A turn of an object's loop keeps what the controller did to its stop channel.\<close>

lemma handleEvent_stop:
  assumes "cluster_world E N" and "handleEvent E ev c = Ret (go_on, c')"
  shows "StopClosed c' = StopClosed c"
proof -
  from assms(2) obtain err c1 where u: "handleUpdateEvent E ev c = Ret (err, c1)"
    and r: "err = None \<and> c' = c1 \<or> (\<exists>e. reportFailedStatus E (c1\<lparr>CStatus := SetReason (Error e) (CStatus c1)\<rparr>) = Ret c')"
    by (auto simp: handleEvent_def go_bind_Ret_iff split: if_splits option.splits)
  have k: "keeps_members c c1" using handleUpdateEvent_run [OF assms(1), of c ev] by (simp add: u)
  have "keeps_members c1 c'" if "reportFailedStatus E (c1\<lparr>CStatus := st\<rparr>) = Ret c'" for st
    using keeps_reportFailedStatus [of c1 "c1\<lparr>CStatus := st\<rparr>" E] that by simp
  with r k show ?thesis by (auto simp: keeps_members_def)
qed

lemma loop_step_stop:
  assumes "cluster_world E N" and "loop_step E fuel r r'" and "run_ok N r" and "card N < fuel"
  shows "\<exists>c c'. objCluster (Running r) = Some c \<and> objCluster (Running r') = Some c' \<and> StopClosed c' = StopClosed c"
  using assms(2)
proof (cases rule: loop_step.cases)
  case (stop c)
  then show ?thesis by simp
next
  case (event c ev evs)
  have "run_ok N r'" using run_ok_loop [OF assms(1,4,2,3)] .
  with event handleEvent_stop [OF assms(1), of ev "c\<lparr>EventCh := evs\<rparr>"] show ?thesis
    by (cases "handleEvent E ev (c\<lparr>EventCh := evs\<rparr>)") (auto split: if_splits)
next
  case (tick c)
  have "pods_labelled E" using assms(1) by (simp add: cluster_world_def)
  note ch = runTick_channels [OF this, of c fuel]
  have "run_ok N r'" using run_ok_loop [OF assms(1,4,2,3)] .
  with tick ch show ?thesis
    by (cases "runTick E fuel c") (auto simp: same_channels_def split: if_splits)
next
  case (inform c cms)
  then show ?thesis by simp
qed

section \<open>The invariant of the operator\<close>

definition obj_ok :: "string set \<Rightarrow> objstate \<Rightarrow> bool" where
  "obj_ok N ob = (case ob of SettingUp c \<Rightarrow> run_inv N c | Running r \<Rightarrow> run_ok N r)"

lemma obj_ok_simps [simp]: "obj_ok N (SettingUp c) = run_inv N c" "obj_ok N (Running r) = run_ok N r"
  by (simp_all add: obj_ok_def)

text \<open>
  The names lead to different objects that are not stopped, no object has panicked, and the gauge is the
  number of objects created and not deleted, at least as large as the number of names.
\<close>

definition live :: "objstate \<Rightarrow> bool" where
  "live ob \<longleftrightarrow> (\<exists>c. objCluster ob = Some c \<and> \<not> StopClosed c)"

definition sys_inv :: "string set \<Rightarrow> system \<Rightarrow> bool" where
  "sys_inv N s \<longleftrightarrow> distinct (map fst (Names s)) \<and> distinct (map snd (Names s)) \<and>
     (\<forall>i \<in> snd ` set (Names s). i < length (Objects s) \<and> live (Objects s ! i)) \<and>
     (\<forall>i < length (Objects s). obj_ok N (Objects s ! i)) \<and>
     clustersTotal s = int (clustersCreated s) - int (clustersDeleted s) \<and>
     int (length (Names s)) \<le> clustersTotal s"

lemma sys_inv_init: "sys_inv N newController"
  by (simp add: sys_inv_def newController_def)

lemma obj_ok_cluster: "obj_ok N ob \<Longrightarrow> objCluster ob \<noteq> None"
  by (cases ob rule: objCluster.cases) auto

text \<open>A step of one object that keeps it valid and does not stop it keeps the invariant.\<close>

lemma sys_inv_object:
  assumes "sys_inv N s" and "i < length (Objects s)" and "obj_ok N ob" and "live (Objects s ! i) \<Longrightarrow> live ob"
  shows "sys_inv N (s\<lparr>Objects := (Objects s)[i := ob]\<rparr>)"
  using assms unfolding sys_inv_def by (auto simp: nth_list_update)

lemma live_same:
  "objCluster ob = Some c \<Longrightarrow> objCluster ob' = Some c' \<Longrightarrow> StopClosed c' = StopClosed c \<Longrightarrow> live ob \<Longrightarrow> live ob'"
  by (simp add: live_def)

lemma objCluster_with: "objCluster ob = Some c \<Longrightarrow> objCluster (withCluster c' ob) = Some c'"
  by (cases ob rule: objCluster.cases) auto

lemma sends_send: "send pick ev c = Ret c' \<Longrightarrow> sends ev c c'"
  by (auto simp: send_def intro: sends.intros split: if_splits)

text \<open>
  A send on the object of a name keeps the object valid: the sent event only waits in the channel.
\<close>

lemma obj_ok_send:
  assumes "obj_ok N ob" and "objCluster ob = Some c" and "sends (updateEvent r) c c'"
  shows "obj_ok N (withCluster c' ob)" and "StopClosed c' = StopClosed c"
  using assms run_inv_sends [OF assms(3)]
  by (cases ob rule: objCluster.cases; auto elim!: sendsE)+

lemma obj_ok_delete:
  assumes "obj_ok N ob" and "objCluster ob = Some c" and "DeleteCluster c = Ret c'"
  shows "obj_ok N (withCluster c' ob)"
  using assms run_inv_delete [OF assms(3)]
  by (cases ob rule: objCluster.cases) (auto simp: DeleteCluster_def split: if_splits)

lemma map_of_address: "map_of ns name = Some i \<Longrightarrow> i \<in> snd ` set ns"
  by (force dest: map_of_SomeD)

lemma sys_inv_known:
  assumes "sys_inv N s" and "map_of (Names s) name = Some i"
  obtains c where "i < length (Objects s)" "objCluster (Objects s ! i) = Some c" "\<not> StopClosed c" "obj_ok N (Objects s ! i)"
  using assms map_of_address [OF assms(2)] unfolding sys_inv_def live_def by auto

lemma delete_address:
  "distinct (map snd ns) \<Longrightarrow> map_of ns name = Some i \<Longrightarrow> i \<notin> snd ` set (AList.delete name ns)"
  by (auto simp: AList.delete_eq distinct_map dest!: map_of_SomeD) (metis inj_onD prod.inject snd_conv)

lemma length_delete_known: "distinct (map fst ns) \<Longrightarrow> map_of ns name = Some i \<Longrightarrow> Suc (length (AList.delete name ns)) = length ns"
proof (induction ns)
  case (Cons kv ns)
  have "fst kv = name \<Longrightarrow> AList.delete name ns = ns"
    using Cons.prems(1) by (auto simp: AList.delete_eq filter_id_conv image_iff)
  with Cons show ?case by (auto simp: AList.delete_eq)
qed simp

lemma sys_inv_forget:
  assumes "sys_inv N s"
  shows "sys_inv N (s\<lparr>Names := AList.delete name (Names s)\<rparr>)"
proof -
  have sub: "set (AList.delete name (Names s)) \<subseteq> set (Names s)" by (auto simp: AList.delete_eq)
  have "length (AList.delete name (Names s)) \<le> length (Names s)" by (simp add: AList.delete_eq)
  moreover have "distinct (map snd (AList.delete name (Names s)))"
    using assms by (simp add: sys_inv_def AList.delete_eq distinct_map_filter)
  ultimately show ?thesis using assms sub unfolding sys_inv_def by (auto simp: AList.distinct_delete)
qed

lemma sys_inv_add:
  assumes "sys_inv N s" and "map_of (Names s) name = None" and "obj_ok N ob" and "live ob"
  shows "sys_inv N (s\<lparr>Objects := Objects s @ [ob], Names := AList.update name (length (Objects s)) (Names s),
    clustersCreated := clustersCreated s + 1, clustersTotal := clustersTotal s + 1\<rparr>)"
proof -
  have new: "AList.update name (length (Objects s)) (Names s) = Names s @ [(name, length (Objects s))]"
    using assms(2) by (simp add: update_new)
  have "length (Objects s) \<notin> snd ` set (Names s)" using assms(1) by (auto simp: sys_inv_def)
  moreover have "name \<notin> fst ` set (Names s)" using assms(2) by (simp add: map_of_eq_None_iff)
  ultimately show ?thesis
    using assms unfolding sys_inv_def new by (auto simp: nth_append less_Suc_eq)
qed

lemma sys_inv_call_send:
  assumes "sys_inv N s" and "map_of (Names s) name = Some i"
    and "callObject i (send pick (updateEvent r)) s = Ret s'"
  shows "sys_inv N s'"
proof -
  obtain c where c: "i < length (Objects s)" "objCluster (Objects s ! i) = Some c" "\<not> StopClosed c" "obj_ok N (Objects s ! i)"
    by (rule sys_inv_known [OF assms(1,2)])
  with assms(3) obtain c' where "send pick (updateEvent r) c = Ret c'"
    and s': "s' = s\<lparr>Objects := (Objects s)[i := withCluster c' (Objects s ! i)]\<rparr>"
    by (auto simp: callObject_def go_bind_Ret_iff)
  then have snd: "sends (updateEvent r) c c'" by (simp add: sends_send)
  show ?thesis unfolding s'
    using obj_ok_send [OF c(4,2) snd] live_same [OF c(2) objCluster_with [OF c(2)]]
    by (intro sys_inv_object [OF assms(1) c(1)]) auto
qed

lemma sys_inv_call_delete:
  assumes "sys_inv N s" and "map_of (Names s) name = Some i"
  shows "go_ok (\<lambda>s'. sys_inv N (s'\<lparr>Names := AList.delete name (Names s'), clustersDeleted := clustersDeleted s' + 1,
    clustersTotal := clustersTotal s' - 1\<rparr>)) (callObject i DeleteCluster s)"
proof -
  obtain c where c: "i < length (Objects s)" "objCluster (Objects s ! i) = Some c" "\<not> StopClosed c" "obj_ok N (Objects s ! i)"
    by (rule sys_inv_known [OF assms])
  let ?c = "c\<lparr>StopClosed := True\<rparr>" and ?ns = "AList.delete name (Names s)"
  let ?ob = "withCluster ?c (Objects s ! i)"
  have del: "DeleteCluster c = Ret ?c" using c(3) by (simp add: DeleteCluster_def)
  have ok: "obj_ok N ?ob" by (rule obj_ok_delete [OF c(4,2) del])
  have gone: "i \<notin> snd ` set ?ns" using assms by (intro delete_address) (simp_all add: sys_inv_def)
  have sub: "set ?ns \<subseteq> set (Names s)" by (auto simp: AList.delete_eq)
  have len: "Suc (length ?ns) = length (Names s)" using assms by (intro length_delete_known) (simp_all add: sys_inv_def)
  have "distinct (map snd ?ns)" "distinct (map fst ?ns)"
    using assms by (simp_all add: sys_inv_def AList.delete_eq distinct_map_filter)
  moreover have "\<forall>j \<in> snd ` set ?ns. j < length (Objects s) \<and> live ((Objects s)[i := ?ob] ! j)"
  proof
    fix j assume j: "j \<in> snd ` set ?ns"
    then have "j \<noteq> i" "j \<in> snd ` set (Names s)" using gone sub by auto
    then show "j < length (Objects s) \<and> live ((Objects s)[i := ?ob] ! j)"
      using assms(1) by (auto simp: sys_inv_def)
  qed
  moreover have "\<forall>j < length (Objects s). obj_ok N ((Objects s)[i := ?ob] ! j)"
    using assms(1) ok c(1) by (auto simp: sys_inv_def nth_list_update)
  ultimately have "sys_inv N (s\<lparr>Objects := (Objects s)[i := ?ob], Names := ?ns, clustersDeleted := clustersDeleted s + 1,
      clustersTotal := clustersTotal s - 1\<rparr>)"
    using assms(1) len by (simp add: sys_inv_def)
  then show ?thesis using c del by (simp add: callObject_def)
qed

text \<open>Counting a modification and running the timer change nothing the invariant speaks of.\<close>

lemma sys_inv_counters [simp]:
  "sys_inv N (s\<lparr>clustersModified := n\<rparr>) = sys_inv N s" "sys_inv N (s\<lparr>clustersFailed := n\<rparr>) = sys_inv N s"
  "sys_inv N (s\<lparr>TimerRunning := b\<rparr>) = sys_inv N s"
  by (simp_all add: sys_inv_def)

lemma sys_inv_timer [simp]: "sys_inv N (ptStart s) = sys_inv N s" "sys_inv N (ptStop s) = sys_inv N s"
  by (simp_all add: ptStart_def ptStop_def)

lemma newCluster_obj: "obj_ok N (SettingUp (newCluster h r))" "live (SettingUp (newCluster h r))"
  by (simp_all add: run_inv_def cluster_inv_def live_def)

lemma dispatch_safe:
  assumes "sys_inv N s"
  shows "go_safe (\<lambda>(err, s'). sys_inv N s') (dispatch pick typ clus s)"
proof (cases "map_of (Names s) (RssName clus)")
  case None
  with assms sys_inv_add [OF assms None newCluster_obj] show ?thesis by (simp add: dispatch_def Let_def)
next
  case (Some i)
  have snd: "go_safe (\<lambda>s1. sys_inv N s1) (callObject i (send pick (updateEvent clus)) s)"
  proof (cases "callObject i (send pick (updateEvent clus)) s")
    case (Ret s')
    with sys_inv_call_send [OF assms Some] show ?thesis by simp
  next
    case (Panic msg)
    obtain c where "i < length (Objects s)" "objCluster (Objects s ! i) = Some c" by (rule sys_inv_known [OF assms Some])
    with Panic show ?thesis by (auto simp: callObject_def send_def split: if_splits)
  qed simp
  note del = go_ok_imp_safe [OF sys_inv_call_delete [OF assms Some]]
  show ?thesis
    using assms Some unfolding dispatch_def Let_def
    by (auto intro!: go_safe_bind [OF snd] go_safe_bind [OF del])
qed

lemma Cleanup_TLS [simp]: "TLS (Cleanup sp) = TLS sp"
  by (simp add: Cleanup_def Let_def)

lemma handleClusterEvent_safe:
  assumes "sys_inv N s" and "\<not> tls_panics (TLS (Spec clus))"
  shows "go_safe (\<lambda>(err, s'). sys_inv N s') (handleClusterEvent order pick typ clus s)"
proof -
  let ?clus = "clus\<lparr>Spec := Cleanup (Spec clus)\<rparr>"
  have "go_safe (\<lambda>_. True) (Validate order ?clus)"
  proof (cases "TLS (Spec clus)")
    case (Some tp)
    from TLSValidate_cases [of ?clus tp] Some assms(2) show ?thesis
      by (auto simp: Validate_def intro!: go_safe_bind [where Q = "\<lambda>_. True"] split: option.splits)
  qed (simp add: Validate_def)
  then show ?thesis
    using assms(1) sys_inv_forget [OF assms(1), of "RssName clus"] dispatch_safe [OF assms(1)]
    unfolding handleClusterEvent_def Let_def
    by (auto intro!: go_safe_bind [where Q = "\<lambda>_. True"] simp: sys_inv_def split: option.splits)
qed

lemma timed_safe: "go_safe (\<lambda>(err, s'). sys_inv N s') r \<Longrightarrow> go_safe (sys_inv N) (timed r)"
  unfolding timed_def by (erule go_safe_bind) auto

lemma callbacks_safe:
  assumes "sys_inv N s" and "\<forall>r \<in> R. \<not> tls_panics (TLS (Spec r))"
  shows "delivers R obj \<Longrightarrow> go_safe (sys_inv N) (onAddEtcdClus order pick obj s)"
    and "delivers R obj \<Longrightarrow> go_safe (sys_inv N) (onUpdateEtcdClus order pick old obj s)"
    and "delivers_deleted R obj \<Longrightarrow> go_safe (sys_inv N) (onDeleteEtcdClus order pick obj s)"
proof -
  have "go_safe (sys_inv N) (timed (handleClusterEvent order pick ty r (ptStart s)))" if "r \<in> R" for r ty
    using assms that by (intro timed_safe handleClusterEvent_safe) simp_all
  then show "delivers R obj \<Longrightarrow> go_safe (sys_inv N) (onAddEtcdClus order pick obj s)"
    "delivers R obj \<Longrightarrow> go_safe (sys_inv N) (onUpdateEtcdClus order pick old obj s)"
    "delivers_deleted R obj \<Longrightarrow> go_safe (sys_inv N) (onDeleteEtcdClus order pick obj s)"
    by (auto simp: delivers_def delivers_deleted_def onAddEtcdClus_def onUpdateEtcdClus_def onDeleteEtcdClus_def
        syncEtcdClus_def deletedObject_def)
qed

lemma sys_inv_step:
  assumes "\<forall>i. cluster_world (E i) N" and "card N < fuel" and "\<forall>r \<in> R. \<not> tls_panics (TLS (Spec r))"
    and "sys_step E fuel R s s'" and "sys_inv N s"
  shows "sys_inv N s'"
  using assms(4)
proof (cases rule: sys_step.cases)
  case (set_up i c go_on c')
  have k: "keeps_members c c'" using startCluster_keeps [OF set_up(4)] .
  have ok: "run_inv N c" using assms(5) set_up by (auto simp: sys_inv_def)
  have "Phase (CStatus c') = ClusterPhaseFailed \<or> go_on"
    using set_up(4) by (auto simp: startCluster_def SetPhase_def updateCRStatus_frame(3) split: prod.splits option.splits if_splits)
  then show ?thesis unfolding set_up(1) using set_up k run_inv_keeps [OF k ok]
    by (intro sys_inv_object [OF assms(5)]) (auto simp: live_def keeps_members_def)
next
  case (loop i r r')
  have ok: "run_ok N r" using assms(5) loop by (auto simp: sys_inv_def)
  have w: "cluster_world (E i) N" using assms(1) by blast
  obtain c c' where "objCluster (Running r) = Some c" "objCluster (Running r') = Some c'" "StopClosed c' = StopClosed c"
    using loop_step_stop [OF w loop(4) ok assms(2)] by blast
  then show ?thesis unfolding loop(1) using loop run_ok_loop [OF w assms(2) loop(4) ok]
    by (intro sys_inv_object [OF assms(5)]) (auto intro: live_same)
next
  case (added obj order pick)
  with callbacks_safe(1) [OF assms(5,3) added(1), of order pick] show ?thesis by simp
next
  case (updated obj order pick old)
  with callbacks_safe(2) [OF assms(5,3) updated(1), of order pick old] show ?thesis by simp
next
  case (deleted obj order pick)
  with callbacks_safe(3) [OF assms(5,3) deleted(1), of order pick] show ?thesis by simp
qed

lemma sys_inv_reachable:
  "sys_reachable E fuel R s \<Longrightarrow> \<forall>i. cluster_world (E i) N \<Longrightarrow> card N < fuel \<Longrightarrow>
   \<forall>r \<in> R. \<not> tls_panics (TLS (Spec r)) \<Longrightarrow> sys_inv N s"
  by (induction rule: sys_reachable.induct) (auto intro: sys_inv_init sys_inv_step)

lemma Cleanup_Pod [simp]: "Pod (Cleanup sp) = Pod sp"
  by (simp add: Cleanup_def Let_def)

lemma Validate_Cleanup [simp]: "Validate order (r\<lparr>Spec := Cleanup (Spec r)\<rparr>) = Validate order r"
  by (simp add: Validate_def ValidateSpec_def split: option.splits)

text \<open>
  A resource the informer adds or updates is never reported as an unsafe state: it is classified by
  whether its name is known, and then the only errors are that it has failed or that it does not pass
  validation; in both cases no cluster object is touched or created.
\<close>

lemma sync_errors:
  assumes "handleClusterEvent order pick (syncType clus s) clus s = Ret (Some err, s')"
  shows "(IsFailed (Some (Status clus)) \<and>
            err = ErrNew (''Ignoring failed cluster ('' @ RssName clus @ ''). Please delete its CR'') \<or>
          (\<exists>e. Validate order clus = Ret (Some e) \<and> err = ErrNew (''Invalid cluster spec: '' @ Error e))) \<and>
         Names s' = Names s \<and> Objects s' = Objects s \<and> clustersTotal s' = clustersTotal s"
proof -
  have kinds: "kwAdded \<noteq> kwModified" "kwDeleted \<noteq> kwModified" "kwDeleted \<noteq> kwAdded"
    by (simp_all add: kwAdded_def kwModified_def kwDeleted_def)
  have no_error: "dispatch pick (syncType clus s) (clus\<lparr>Spec := sp\<rparr>) s \<noteq> Ret (Some e, s'')" for sp e s''
    using kinds by (auto simp: dispatch_def syncType_def Let_def go_bind_Ret_iff split: option.splits)
  have "syncType clus s \<noteq> kwDeleted" using kinds by (simp add: syncType_def)
  with assms no_error show ?thesis
    by (auto simp: handleClusterEvent_def Let_def go_bind_Ret_iff split: if_splits option.splits)
qed

section \<open>Properties\<close>


definition ex_added :: system where
  "ex_added = newController\<lparr>
     Objects := [SettingUp (newCluster [] (ex_labelled\<lparr>Spec := Cleanup (Spec ex_labelled)\<rparr>))],
     Names := [(RssName ex_labelled, 0)], clustersCreated := 1, clustersTotal := 1\<rparr>"

lemma ex_labelled_not_failed: "\<not> IsFailed (Some (Status ex_labelled))"
  by (simp add: IsFailed_def ex_labelled_def zero_rss_def zero_status_def phase_defs)

lemma ex_labelled_added: "onAddEtcdClus [] True (ObjRss ex_labelled) newController = Ret ex_added"
proof -
  have "handleClusterEvent [] True kwAdded ex_labelled (ptStart newController) = Ret (None, ptStart ex_added)"
    by (simp add: handleClusterEvent_def ex_labelled_not_failed ex_labelled_valid dispatch_def ptStart_def newController_def ex_added_def)
  then show ?thesis
    by (simp add: onAddEtcdClus_def syncEtcdClus_def syncType_def timed_def ptStop_def ptStart_def)
      (simp add: newController_def ex_added_def)
qed


text \<open>
  C30. A cluster whose loop has ended without being stopped blocks the controller: once its buffer of
  events is full, handling the next valid update of its resource waits, and no step of any cluster
  changes that, so the timer of the controller ends the process.
\<close>

theorem ended_cluster_blocks:
  assumes "map_of (Names s) (RssName clus) = Some i" and "i < length (Objects s)"
    and "Objects s ! i = Running (Ended c)" and "\<not> StopClosed c" and "length (EventCh c) = eventChCap"
    and "\<not> IsFailed (Some (Status clus))" and "Validate order clus = Ret None"
  shows "syncEtcdClus order pick clus s = Stuck \<and>
    (\<forall>j r r' E fuel. j < length (Objects s) \<and> Objects s ! j = Running r \<and> loop_step E fuel r r' \<longrightarrow>
       syncEtcdClus order pick clus (s\<lparr>Objects := (Objects s)[j := Running r']\<rparr>) = Stuck)"
proof -
  have kinds: "kwModified \<noteq> kwAdded" by (simp add: kwAdded_def kwModified_def)
  have stuck: "syncEtcdClus order pick clus t = Stuck"
    if "Names t = Names s" "i < length (Objects t)" "Objects t ! i = Running (Ended c)" for t
    using assms that kinds
    by (simp add: syncEtcdClus_def syncType_def timed_def handleClusterEvent_def dispatch_def callObject_def send_def ptStart_def)
  have "j \<noteq> i" if "Objects s ! j = Running r" "loop_step E fuel r r'" for j r r' E fuel
    using that assms(3) by (auto simp: loop_step_over)
  with stuck assms(2,3) show ?thesis by auto
qed

definition ex_blocked :: system where
  "ex_blocked = ex_added\<lparr>Objects := [Running (Ended ((newCluster [] ex_labelled)
     \<lparr>EventCh := replicate eventChCap (updateEvent ex_labelled)\<rparr>))]\<rparr>"

theorem ended_cluster_blocks_witness:
  "syncEtcdClus [] True ex_labelled ex_blocked = Stuck"
  using ended_cluster_blocks [of ex_blocked ex_labelled 0 _ "[]" True] ex_labelled_not_failed ex_labelled_valid
  by (simp add: ex_blocked_def ex_added_def)

end
