(* ===== verification/Chaos.thy ===== *)
theory Chaos
  imports Complex_Main KubeEnv "HOL-Library.Countable"
begin

text \<open>
  pkg/chaos: killing pods at random, and the choice of the settings in cmd/operator/main.go. The random
  source is an argument: the numbers it will produce, of which the state counts how many have been
  used. \<^verbatim>\<open>rand.Intn\<close> reads the next one in the range it is asked for, so every sequence of results it
  can give is one of such an argument. The floats of the source are rational numbers. The limiter is
  library code: whether the wait for round \<open>n\<close> is cancelled is an argument.

  The loop that collects the pods to kill draws until it has enough different names, so it takes a
  bound on the draws; \<open>crushRound_kills\<close> shows that it ends for every source that never stops
  producing any number, and what a round does then.
\<close>

section \<open>Settings\<close>

record crashconfig =
  CrashNamespace :: string
  CrashSelector :: selector
  KillRate :: rat
  KillProbability :: rat
  KillMax :: int

text \<open>\<^verbatim>\<open>rate.Every\<close> of an interval in seconds.\<close>

definition everySeconds :: "nat \<Rightarrow> rat" where
  "everySeconds n = 1 / of_nat n"

definition burstOf :: "crashconfig \<Rightarrow> int" where
  "burstOf c = (let burst = \<lfloor>KillRate c\<rfloor> in if burst \<le> 0 then 1 else burst)"

text \<open>
  \<^verbatim>\<open>startChaos\<close>: the settings of a chaos level and the seconds it waits before the first round;
  other levels start nothing.
\<close>

definition startChaos :: "string \<Rightarrow> int \<Rightarrow> (nat \<times> crashconfig) option" where
  "startChaos ns chaosLevel =
     (let ls = SelectorFromSet [] [(''app'', ''etcd'')]
      in if chaosLevel = 1 then
           Some (60, \<lparr>CrashNamespace = ns, CrashSelector = ls, KillRate = everySeconds (5 * 60),
                     KillProbability = 1 / 2, KillMax = 1\<rparr>)
         else if chaosLevel = 2 then
           Some (0, \<lparr>CrashNamespace = ns, CrashSelector = ls, KillRate = everySeconds (3 * 60),
                     KillProbability = 1 / 2, KillMax = 3\<rparr>)
         else None)"

section \<open>Chance\<close>

record chance =
  NextFloat :: "nat \<Rightarrow> rat"
  NextInt :: "nat \<Rightarrow> nat"

definition Intn :: "chance \<Rightarrow> nat \<Rightarrow> int \<Rightarrow> (nat \<times> nat) go" where
  "Intn R k n =
     (if n \<le> 0 then Panic ''invalid argument to Intn'' else Ret (NextInt R k mod nat n, Suc k))"

text \<open>The state of the loop: how many numbers have been used, and the requests made.\<close>

record chaosstate =
  Draws :: nat
  ChaosTrace :: history

section \<open>A round\<close>

text \<open>The map \<^verbatim>\<open>tokills\<close> as the list of its keys.\<close>

fun killLoop :: "chance \<Rightarrow> string list \<Rightarrow> nat \<Rightarrow> nat \<Rightarrow> string list \<Rightarrow> nat \<Rightarrow> (string list \<times> nat) go" where
  "killLoop R names wanted fuel tokills k =
     (if length tokills < wanted then
        (case fuel of
           0 \<Rightarrow> Stuck
         | Suc n \<Rightarrow> go_bind (Intn R k (int (length names))) (\<lambda>(i, k').
             killLoop R names wanted n (List.insert (names ! i) tokills) k'))
      else Ret (tokills, k))"

declare killLoop.simps [simp del]

fun deletePods :: "kube \<Rightarrow> string \<Rightarrow> string list \<Rightarrow> history \<Rightarrow> history" where
  "deletePods E ns [] h = h"
| "deletePods E ns (t # ts) h =
     (case pod_delete E h ns t of
        Some err \<Rightarrow> deletePods E ns ts (h @ [EPodDelete ns t])
      | None \<Rightarrow> deletePods E ns ts (h @ [EPodDelete ns t]))"

definition killSome :: "kube \<Rightarrow> chance \<Rightarrow> nat \<Rightarrow> crashconfig \<Rightarrow> pod list \<Rightarrow> chaosstate \<Rightarrow> chaosstate go" where
  "killSome E R fuel c pods s =
     go_bind (Intn R (Draws s) (KillMax c)) (\<lambda>(r, k).
       let kmax = r + 1;
           wanted = (if kmax < length pods then kmax else length pods);
           names = map (\<lambda>p. ObjName (PodMeta p)) pods
       in go_bind (killLoop R names wanted fuel [] k) (\<lambda>(tokills, k').
            Ret (s\<lparr>Draws := k', ChaosTrace := deletePods E (CrashNamespace c)
                     (range_keys (map_order E (ChaosTrace s) ''CrushPods'') tokills) (ChaosTrace s)\<rparr>)))"

definition crushRound :: "kube \<Rightarrow> chance \<Rightarrow> nat \<Rightarrow> crashconfig \<Rightarrow> chaosstate \<Rightarrow> chaosstate go" where
  "crushRound E R fuel c s =
     (let ls = selectorString (CrashSelector c); ns = CrashNamespace c;
          s1 = s\<lparr>Draws := Suc (Draws s)\<rparr>
      in if NextFloat R (Draws s) > KillProbability c then Ret s1
         else let s2 = s1\<lparr>ChaosTrace := ChaosTrace s1 @ [EPodList ns ls]\<rparr>
              in case pod_list E (ChaosTrace s1) ns ls of
                   Inl err \<Rightarrow> Ret s2
                 | Inr pods \<Rightarrow> if length pods = 0 then Ret s2 else killSome E R fuel c pods s2)"

text \<open>
  \<^verbatim>\<open>CrushPods\<close>: rounds until the wait of the limiter is cancelled, \<open>rounds\<close> of them at most.
\<close>

fun CrushPods :: "kube \<Rightarrow> chance \<Rightarrow> (nat \<Rightarrow> go_error option) \<Rightarrow> nat \<Rightarrow> crashconfig \<Rightarrow> nat \<Rightarrow> nat \<Rightarrow> chaosstate \<Rightarrow> chaosstate go" where
  "CrushPods E R wait fuel c 0 n s = Stuck"
| "CrushPods E R wait fuel c (Suc rounds) n s =
     (case wait n of
        Some err \<Rightarrow> Ret s
      | None \<Rightarrow> go_bind (crushRound E R fuel c s) (\<lambda>s'. CrushPods E R wait fuel c rounds (Suc n) s'))"

section \<open>The draws\<close>

lemma killLoop_result:
  assumes "names \<noteq> []" and "distinct ts" and "set ts \<subseteq> set names" and "length ts \<le> wanted"
  shows "go_safe (\<lambda>(ts', k'). distinct ts' \<and> set ts' \<subseteq> set names \<and> length ts' = wanted)
           (killLoop R names wanted fuel ts k)"
  using assms(2-4)
proof (induction fuel arbitrary: ts k)
  case 0
  then show ?case by (simp add: killLoop.simps)
next
  case (Suc n)
  have i: "NextInt R k mod length names < length names" using assms(1) by simp
  show ?case
    using Suc.prems i by (subst killLoop.simps) (auto simp: Intn_def List.insert_def intro!: Suc.IH)
qed

text \<open>Draws of names that are already there only take time.\<close>

lemma killLoop_skip:
  assumes "names \<noteq> []" and "length ts < wanted"
    and "\<And>l. k \<le> l \<Longrightarrow> l < k + d \<Longrightarrow> names ! (NextInt R l mod length names) \<in> set ts"
  shows "killLoop R names wanted (d + fuel) ts k = killLoop R names wanted fuel ts (k + d)"
  using assms(3)
proof (induction d arbitrary: k)
  case 0
  then show ?case by simp
next
  case (Suc d)
  then have "names ! (NextInt R k mod length names) \<in> set ts" by simp
  then have "killLoop R names wanted (Suc d + fuel) ts k = killLoop R names wanted (d + fuel) ts (Suc k)"
    using assms(1,2) by (subst killLoop.simps) (simp add: Intn_def)
  also have "\<dots> = killLoop R names wanted fuel ts (Suc k + d)" using Suc.prems by (intro Suc.IH) auto
  finally show ?case by simp
qed

text \<open>A source that never stops producing any number.\<close>

definition fair :: "chance \<Rightarrow> bool" where
  "fair R \<longleftrightarrow> (\<forall>i k. \<exists>j \<ge> k. NextInt R j = i)"

lemma next_new_name:
  assumes "fair R" and "\<not> set names \<subseteq> set ts"
  shows "\<exists>d. names ! (NextInt R (k + d) mod length names) \<notin> set ts \<and>
     (\<forall>l. k \<le> l \<longrightarrow> l < k + d \<longrightarrow> names ! (NextInt R l mod length names) \<in> set ts)"
proof -
  define new where "new d \<longleftrightarrow> names ! (NextInt R (k + d) mod length names) \<notin> set ts" for d
  from assms(2) obtain i where i: "i < length names" "names ! i \<notin> set ts" by (metis in_set_conv_nth subsetI)
  from assms(1) obtain j where j: "k \<le> j" "NextInt R j = i" unfolding fair_def by blast
  with i have "new (j - k)" by (simp add: new_def)
  then have first: "new (LEAST d. new d)" by (rule LeastI)
  obtain m where m: "m = (LEAST d. new d)" by blast
  have "names ! (NextInt R l mod length names) \<in> set ts" if "k \<le> l" "l < k + m" for l
  proof -
    from that have "\<not> new (l - k)" unfolding m by (intro not_less_Least) auto
    with that(1) show ?thesis by (simp add: new_def)
  qed
  moreover from first have "names ! (NextInt R (k + m) mod length names) \<notin> set ts"
    unfolding m [symmetric] by (simp add: new_def)
  ultimately show ?thesis by blast
qed

lemma killLoop_returns:
  assumes "fair R" and "names \<noteq> []" and "wanted \<le> card (set names)" and "distinct ts" and "length ts \<le> wanted"
  shows "\<exists>F. \<forall>fuel \<ge> F. killLoop R names wanted fuel ts k \<noteq> Stuck"
  using assms(4,5)
proof (induction "wanted - length ts" arbitrary: ts k)
  case 0
  then have "\<not> length ts < wanted" by simp
  then have "killLoop R names wanted fuel ts k = Ret (ts, k)" for fuel by (subst killLoop.simps) simp
  then show ?case by simp
next
  case (Suc m)
  then have less: "length ts < wanted" by simp
  have "\<not> set names \<subseteq> set ts"
  proof
    assume "set names \<subseteq> set ts"
    then have "card (set names) \<le> length ts" using card_mono [of "set ts"] distinct_card [OF Suc.prems(1)] by simp
    with less assms(3) show False by simp
  qed
  from next_new_name [OF assms(1) this, of k]
  obtain d where new: "names ! (NextInt R (k + d) mod length names) \<notin> set ts" (is "?x \<notin> _")
    and old: "\<And>l. k \<le> l \<Longrightarrow> l < k + d \<Longrightarrow> names ! (NextInt R l mod length names) \<in> set ts"
    by blast
  have "wanted - length (?x # ts) = m" "distinct (?x # ts)" "length (?x # ts) \<le> wanted"
    using Suc.hyps(2) Suc.prems new less by simp_all
  then obtain F where F: "\<forall>fuel \<ge> F. killLoop R names wanted fuel (?x # ts) (Suc (k + d)) \<noteq> Stuck"
    using Suc.hyps(1) [of "?x # ts" "Suc (k + d)"] by blast
  have step: "killLoop R names wanted (d + Suc fuel) ts k = killLoop R names wanted fuel (?x # ts) (Suc (k + d))" for fuel
  proof -
    have "killLoop R names wanted (Suc fuel) ts (k + d) = killLoop R names wanted fuel (?x # ts) (Suc (k + d))"
      using less new assms(2) by (subst killLoop.simps) (simp add: Intn_def List.insert_def)
    moreover have "killLoop R names wanted (d + Suc fuel) ts k = killLoop R names wanted (Suc fuel) ts (k + d)"
      by (rule killLoop_skip [OF assms(2) less]) (rule old)
    ultimately show ?thesis by simp
  qed
  have "killLoop R names wanted fuel ts k \<noteq> Stuck" if "d + Suc F \<le> fuel" for fuel
  proof -
    from that have g: "fuel = d + Suc (fuel - Suc d)" and F': "F \<le> fuel - Suc d" by simp_all
    from F F' have "killLoop R names wanted (d + Suc (fuel - Suc d)) ts k \<noteq> Stuck" unfolding step by blast
    with g show ?thesis by metis
  qed
  then show ?case by blast
qed

lemma deletePods_trace: "deletePods E ns ts h = h @ map (EPodDelete ns) ts"
  by (induction ts arbitrary: h) (auto split: option.splits)

text \<open>The pods a round may kill: what the API lists for the selector at that moment.\<close>

definition killable :: "kube \<Rightarrow> crashconfig \<Rightarrow> chaosstate \<Rightarrow> string list" where
  "killable E c s =
     (case pod_list E (ChaosTrace s) (CrashNamespace c) (selectorString (CrashSelector c)) of
        Inl _ \<Rightarrow> [] | Inr pods \<Rightarrow> map (\<lambda>p. ObjName (PodMeta p)) pods)"

text \<open>The requests of one round, and the pods it kills.\<close>

definition roundKills :: "kube \<Rightarrow> crashconfig \<Rightarrow> chaosstate \<Rightarrow> chaosstate \<Rightarrow> string list \<Rightarrow> bool" where
  "roundKills E c s s' ts \<longleftrightarrow>
     ChaosTrace s' = ChaosTrace s @ EPodList (CrashNamespace c) (selectorString (CrashSelector c)) #
       map (EPodDelete (CrashNamespace c)) ts"

lemma few_kills:
  fixes ts :: "string list"
  assumes "0 < KillMax c" and "length ts \<le> NextInt R k mod nat (KillMax c) + 1"
  shows "int (length ts) \<le> KillMax c"
proof -
  have "NextInt R k mod nat (KillMax c) < nat (KillMax c)" using assms(1) by simp
  with assms(2) show ?thesis by linarith
qed

lemma killSome_kills:
  assumes "fair R" and "0 < KillMax c" and "pods \<noteq> []" and "distinct (map (\<lambda>p. ObjName (PodMeta p)) pods)"
  shows "\<exists>F. \<forall>fuel \<ge> F. go_ok (\<lambda>s'. \<exists>ts. ChaosTrace s' = ChaosTrace s @ map (EPodDelete (CrashNamespace c)) ts \<and>
           distinct ts \<and> set ts \<subseteq> (\<lambda>p. ObjName (PodMeta p)) ` set pods \<and>
           length ts = min (length pods) (NextInt R (Draws s) mod nat (KillMax c) + 1)) (killSome E R fuel c pods s)"
proof -
  let ?names = "map (\<lambda>p. ObjName (PodMeta p)) pods"
  let ?wanted = "min (length pods) (NextInt R (Draws s) mod nat (KillMax c) + 1)"
  let ?loop = "\<lambda>fuel. killLoop R ?names ?wanted fuel [] (Suc (Draws s))"
  have "?wanted \<le> card (set ?names)" using distinct_card [OF assms(4)] by simp
  then obtain F where F: "\<forall>fuel \<ge> F. ?loop fuel \<noteq> Stuck"
    using killLoop_returns [OF assms(1), of ?names ?wanted "[]" "Suc (Draws s)"] assms(3) by auto
  have unfold: "killSome E R fuel c pods s = go_bind (?loop fuel) (\<lambda>(tokills, k').
      Ret (s\<lparr>Draws := k', ChaosTrace := deletePods E (CrashNamespace c)
        (range_keys (map_order E (ChaosTrace s) ''CrushPods'') tokills) (ChaosTrace s)\<rparr>))" for fuel
    using assms(2) by (simp add: killSome_def Intn_def Let_def min_def not_less)
  have "go_safe (\<lambda>(ts', k'). distinct ts' \<and> set ts' \<subseteq> set ?names \<and> length ts' = ?wanted) (?loop fuel)" for fuel
    using assms(3) by (intro killLoop_result) auto
  with F have loop: "go_ok (\<lambda>(ts', k'). distinct ts' \<and> set ts' \<subseteq> set ?names \<and> length ts' = ?wanted) (?loop fuel)"
    if "F \<le> fuel" for fuel
    using that by (blast intro: go_safe_returns)
  have len: "length (range_keys p ts) = length ts" if "distinct ts" for p ts
    using that by (metis distinct_card distinct_range_keys set_range_keys)
  show ?thesis
    unfolding unfold
  proof (intro exI [of _ F] allI impI)
    fix fuel
    assume "F \<le> fuel"
    then show "go_ok (\<lambda>s'. \<exists>ts. ChaosTrace s' = ChaosTrace s @ map (EPodDelete (CrashNamespace c)) ts \<and>
        distinct ts \<and> set ts \<subseteq> (\<lambda>p. ObjName (PodMeta p)) ` set pods \<and> length ts = ?wanted)
        (go_bind (?loop fuel) (\<lambda>(tokills, k'). Ret (s\<lparr>Draws := k', ChaosTrace := deletePods E (CrashNamespace c)
          (range_keys (map_order E (ChaosTrace s) ''CrushPods'') tokills) (ChaosTrace s)\<rparr>)))"
    proof (rule go_ok_bind [OF loop], clarsimp simp: deletePods_trace)
      fix a
      assume "distinct a" "set a \<subseteq> (\<lambda>p. ObjName (PodMeta p)) ` set pods"
        "length a = min (length pods) (Suc (NextInt R (Draws s) mod nat (KillMax c)))"
      then show "\<exists>ts. map (EPodDelete (CrashNamespace c)) (range_keys (map_order E (ChaosTrace s) ''CrushPods'') a) =
          map (EPodDelete (CrashNamespace c)) ts \<and> distinct ts \<and> set ts \<subseteq> (\<lambda>p. ObjName (PodMeta p)) ` set pods \<and>
          length ts = min (length pods) (Suc (NextInt R (Draws s) mod nat (KillMax c)))"
        by (intro exI [of _ "range_keys (map_order E (ChaosTrace s) ''CrushPods'') a"]) (simp add: len)
    qed
  qed
qed

section \<open>Properties\<close>

text \<open>
  C33. With a positive maximum and pods of different names, a round of the chaos monkey ends, for every
  source of chance that never stops producing any number. Either it does nothing, because of the
  probability; or it lists the pods once and then deletes pods of that list, each once, at most the
  maximum and at least one when there are any.
\<close>

theorem crushRound_kills:
  assumes "fair R" and "0 < KillMax c" and "distinct (killable E c s)"
  shows "\<exists>F. \<forall>fuel \<ge> F. go_ok (\<lambda>s'.
           if NextFloat R (Draws s) > KillProbability c then ChaosTrace s' = ChaosTrace s
           else \<exists>ts. roundKills E c s s' ts \<and> distinct ts \<and> set ts \<subseteq> set (killable E c s) \<and>
                  int (length ts) \<le> KillMax c \<and> (killable E c s \<noteq> [] \<longrightarrow> ts \<noteq> [])) (crushRound E R fuel c s)"
proof -
  let ?ls = "selectorString (CrashSelector c)" and ?ns = "CrashNamespace c"
  let ?s1 = "s\<lparr>Draws := Suc (Draws s)\<rparr>"
  let ?s2 = "?s1\<lparr>ChaosTrace := ChaosTrace s @ [EPodList ?ns ?ls]\<rparr>"
  show ?thesis
  proof (cases "NextFloat R (Draws s) > KillProbability c \<or> killable E c s = []")
    case True
    then show ?thesis using assms(2)
      by (auto simp: crushRound_def roundKills_def killable_def Let_def split: sum.splits)
  next
    case False
    then obtain pods where pods: "pod_list E (ChaosTrace s) ?ns ?ls = Inr pods" "pods \<noteq> []"
      and names: "killable E c s = map (\<lambda>p. ObjName (PodMeta p)) pods"
      by (auto simp: killable_def split: sum.splits)
    then have round: "crushRound E R fuel c s = killSome E R fuel c pods ?s2" for fuel
      using False by (simp add: crushRound_def Let_def)
    obtain F where F: "\<And>fuel. F \<le> fuel \<Longrightarrow> go_ok (\<lambda>s'. \<exists>ts. ChaosTrace s' = ChaosTrace ?s2 @ map (EPodDelete ?ns) ts \<and>
           distinct ts \<and> set ts \<subseteq> (\<lambda>p. ObjName (PodMeta p)) ` set pods \<and>
           length ts = min (length pods) (NextInt R (Draws ?s2) mod nat (KillMax c) + 1)) (killSome E R fuel c pods ?s2)"
      using killSome_kills [OF assms(1,2) pods(2), of ?s2 E] assms(3) names by auto
    have "go_ok (\<lambda>s'. \<exists>ts. roundKills E c s s' ts \<and> distinct ts \<and> set ts \<subseteq> set (killable E c s) \<and>
        int (length ts) \<le> KillMax c \<and> (killable E c s \<noteq> [] \<longrightarrow> ts \<noteq> [])) (crushRound E R fuel c s)" if "F \<le> fuel" for fuel
      unfolding round
    proof (rule go_ok_mono [OF F [OF that]], elim exE conjE)
      fix s' :: chaosstate and ts
      assume ts: "ChaosTrace s' = ChaosTrace ?s2 @ map (EPodDelete ?ns) ts" "distinct ts"
        "set ts \<subseteq> (\<lambda>p. ObjName (PodMeta p)) ` set pods"
        "length ts = min (length pods) (NextInt R (Draws ?s2) mod nat (KillMax c) + 1)"
      have "int (length ts) \<le> KillMax c" by (rule few_kills [OF assms(2), of ts R "Draws ?s2"]) (simp add: ts(4))
      moreover have "0 < length ts" unfolding ts(4) using pods(2) by simp
      ultimately show "\<exists>ts. roundKills E c s s' ts \<and> distinct ts \<and> set ts \<subseteq> set (killable E c s) \<and>
          int (length ts) \<le> KillMax c \<and> (killable E c s \<noteq> [] \<longrightarrow> ts \<noteq> [])"
        using ts(1-3) by (intro exI [of _ ts]) (simp add: roundKills_def names)
    qed
    with False show ?thesis by auto
  qed
qed

text \<open>Chaos level 2 and two pods, with a source that produces the first halves of all pairs of numbers.\<close>

definition samplechance :: chance where
  "samplechance = \<lparr>NextFloat = (\<lambda>k. 0), NextInt = (\<lambda>k. fst (prod_decode k))\<rparr>"

lemma fair_samplechance: "fair samplechance"
  unfolding fair_def
proof (intro allI)
  fix i k
  show "\<exists>j \<ge> k. NextInt samplechance j = i"
    by (intro exI [of _ "prod_encode (i, k)"]) (simp add: samplechance_def le_prod_encode_2)
qed

definition twoPods :: kube where
  "twoPods = (sample_kube (\<lambda>n. []) (\<lambda>n. None))\<lparr>pod_list := (\<lambda>h ns sel. Inr [sample_pod ns ''a'', sample_pod ns ''b''])\<rparr>"

theorem crushRound_kills_witness:
  "\<exists>F. \<forall>fuel \<ge> F. go_ok (\<lambda>s'. \<exists>ts. roundKills twoPods (snd (the (startChaos ''ns'' 2))) \<lparr>Draws = 0, ChaosTrace = []\<rparr> s' ts \<and>
       distinct ts \<and> set ts \<subseteq> {''a'', ''b''} \<and> ts \<noteq> [])
     (crushRound twoPods samplechance fuel (snd (the (startChaos ''ns'' 2))) \<lparr>Draws = 0, ChaosTrace = []\<rparr>)"
proof -
  let ?c = "snd (the (startChaos ''ns'' 2))" and ?s = "\<lparr>Draws = 0, ChaosTrace = []\<rparr>"
  have k: "killable twoPods ?c ?s = [''a'', ''b'']"
    by (simp add: killable_def twoPods_def sample_pod_def startChaos_def Let_def)
  have "0 < KillMax ?c" and "\<not> NextFloat samplechance (Draws ?s) > KillProbability ?c"
    by (simp_all add: startChaos_def Let_def samplechance_def)
  then obtain F where F: "\<And>fuel. F \<le> fuel \<Longrightarrow> go_ok (\<lambda>s'. \<exists>ts. roundKills twoPods ?c ?s s' ts \<and> distinct ts \<and>
      set ts \<subseteq> set (killable twoPods ?c ?s) \<and> int (length ts) \<le> KillMax ?c \<and> (killable twoPods ?c ?s \<noteq> [] \<longrightarrow> ts \<noteq> []))
      (crushRound twoPods samplechance fuel ?c ?s)"
    using crushRound_kills [OF fair_samplechance, of ?c twoPods ?s] k by auto
  show ?thesis
    by (intro exI [of _ F] allI impI, rule go_ok_mono [OF F], assumption) (auto simp: k)
qed

end
