(* ===== verification/Startup.thy ===== *)
theory Startup
  imports Controller Chaos
begin

text \<open>
  From the start of the process to the running informer: cmd/operator/main.go, \<^verbatim>\<open>Start\<close> and
  \<^verbatim>\<open>initResource\<close> of pkg/controller, pkg/util/k8sutil/crd.go, the readiness probe of pkg/util/probe, and
  the helpers of k8sutil that wait for a pod and make events.

  \<^item> \<open>platform\<close> has the answers to the requests made before any cluster exists, each a function of
    the requests made before; \<open>process\<close> is the state: the readiness flag and those requests.
  \<^item> The waiting conditions are instances of \<open>retry_condition\<close>.
  \<^item> \<open>Start\<close> repeats the initialisation until it succeeds, which may be never: it takes a bound on
    the repetitions, and \<open>readiness\<close> says when it comes to an end and what has happened then.
\<close>

section \<open>Requests\<close>

record crdefinition =
  CrdName :: string
  CrdGroup :: string
  CrdVersion :: string
  CrdScope :: string
  CrdPlural :: string
  CrdKind :: string
  CrdShortNames :: "string list"

record crdcondition =
  CrdCondType :: string
  CrdCondStatus :: string
  CrdCondReason :: string

datatype preq =
    QCrdCreate crdefinition
  | QCrdGet string
  | QPodGet string string
  | QPodCreate string pod
  | QRawGet string

record platform =
  crd_create :: "preq list \<Rightarrow> crdefinition \<Rightarrow> go_error option"
  crd_get :: "preq list \<Rightarrow> string \<Rightarrow> go_error + crdcondition list"
  opod_get :: "preq list \<Rightarrow> string \<Rightarrow> string \<Rightarrow> go_error + pod"
  opod_create :: "preq list \<Rightarrow> string \<Rightarrow> pod \<Rightarrow> go_error option"
  raw_get :: "preq list \<Rightarrow> string \<Rightarrow> go_error + string"
  json_clusters :: "string \<Rightarrow> go_error + rss list"

record process =
  ProbeReady :: bool
  PTrace :: "preq list"

definition asks :: "preq \<Rightarrow> process \<Rightarrow> process" where
  "asks q p = p\<lparr>PTrace := PTrace p @ [q]\<rparr>"

section \<open>The readiness probe\<close>

definition SetReady :: "process \<Rightarrow> process" where
  "SetReady p = p\<lparr>ProbeReady := True\<rparr>"

definition ReadyzHandler :: "process \<Rightarrow> nat" where
  "ReadyzHandler p = (if ProbeReady p then 200 else 500)"

section \<open>The custom resource definition\<close>

definition listClustersURI :: "string \<Rightarrow> string" where
  "listClustersURI ns = ''/apis/'' @ SchemeGroupVersion @ ''/namespaces/'' @ ns @ ''/'' @ ReplicatedStatefulSetResourcePlural"

definition GetClusterList :: "platform \<Rightarrow> string \<Rightarrow> process \<Rightarrow> (go_error + rss list) \<times> process" where
  "GetClusterList P ns p =
     (case raw_get P (PTrace p) (listClustersURI ns) of
        Inl err \<Rightarrow> Inl err
      | Inr b \<Rightarrow> json_clusters P b, asks (QRawGet (listClustersURI ns)) p)"

definition CreateCRD :: "platform \<Rightarrow> string \<Rightarrow> string \<Rightarrow> string \<Rightarrow> string \<Rightarrow> process \<Rightarrow> go_error option \<times> process" where
  "CreateCRD P crdName rkind rplural shortName p =
     (let crd = \<lparr>CrdName = crdName, CrdGroup = groupName, CrdVersion = groupVersion, CrdScope = ''Namespaced'',
                 CrdPlural = rplural, CrdKind = rkind,
                 CrdShortNames = (if length shortName \<noteq> 0 then [shortName] else [])\<rparr>;
          err = crd_create P (PTrace p) crd
      in (if err \<noteq> None \<and> \<not> IsAlreadyExists err then err else None, asks (QCrdCreate crd) p))"

definition ConditionFalse :: string where "ConditionFalse = ''False''"

text \<open>The switch over the conditions of the definition, in their order.\<close>

fun crdStatus :: "crdcondition list \<Rightarrow> bool \<times> go_error option" where
  "crdStatus [] = (False, None)"
| "crdStatus (cond # conds) =
     (if CrdCondType cond = ''Established'' then
        (if CrdCondStatus cond = ConditionTrue then (True, None) else crdStatus conds)
      else if CrdCondType cond = ''NamesAccepted'' then
        (if CrdCondStatus cond = ConditionFalse then (False, Some (ErrNew (''Name conflict: '' @ CrdCondReason cond)))
         else crdStatus conds)
      else crdStatus conds)"

definition crdReady :: "platform \<Rightarrow> string \<Rightarrow> process condition" where
  "crdReady P crdName p =
     (let p1 = asks (QCrdGet crdName) p
      in case crd_get P (PTrace p) crdName of
           Inl err \<Rightarrow> Ret ((False, Some err), p1)
         | Inr conds \<Rightarrow> Ret (crdStatus conds, p1))"

definition WaitCRDReady :: "platform \<Rightarrow> string \<Rightarrow> process \<Rightarrow> (go_error option \<times> process) go" where
  "WaitCRDReady P crdName p =
     go_bind (Retry 20 (crdReady P crdName) p) (\<lambda>(err, p').
       Ret (map_option (\<lambda>e. ErrNew (''wait CRD created failed: '' @ Error e)) err, p'))"

section \<open>Start of the controller\<close>

record config =
  CfgNamespace :: string
  CfgServiceAccount :: string
  CfgCreateCRD :: bool

definition initCRD :: "platform \<Rightarrow> process \<Rightarrow> (go_error option \<times> process) go" where
  "initCRD P p =
     (case CreateCRD P ReplicatedStatefulSetCRDName ReplicatedStatefulSetResourceKind
             ReplicatedStatefulSetResourcePlural ReplicatedStatefulSetResourceShort p of
        (Some err, p1) \<Rightarrow> Ret (Some (ErrNew (''Failed to create CRD: '' @ Error err)), p1)
      | (None, p1) \<Rightarrow> WaitCRDReady P ReplicatedStatefulSetCRDName p1)"

definition initResource :: "platform \<Rightarrow> config \<Rightarrow> process \<Rightarrow> (go_error option \<times> process) go" where
  "initResource P cfg p =
     (if CfgCreateCRD cfg then
        go_bind (initCRD P p) (\<lambda>(err, p'). Ret (map_option (\<lambda>e. ErrNew (''fail to init CRD: '' @ Error e)) err, p'))
      else Ret (None, p))"

fun initLoop :: "platform \<Rightarrow> config \<Rightarrow> nat \<Rightarrow> process \<Rightarrow> process go" where
  "initLoop P cfg 0 p = Stuck"
| "initLoop P cfg (Suc n) p =
     go_bind (initResource P cfg p) (\<lambda>(err, p'). if err = None then Ret p' else initLoop P cfg n p')"

text \<open>Up to the call of \<^verbatim>\<open>run\<close>, whose informer then delivers to the controller for ever.\<close>

definition Start :: "platform \<Rightarrow> config \<Rightarrow> nat \<Rightarrow> process \<Rightarrow> (process \<times> system) go" where
  "Start P cfg fuel p = go_bind (initLoop P cfg fuel p) (\<lambda>p'. Ret (SetReady p', newController))"

section \<open>The process\<close>

definition accountCondition :: "platform \<Rightarrow> string \<Rightarrow> string \<Rightarrow> (string \<times> process) condition" where
  "accountCondition P ns name = (\<lambda>(sa, p).
     let p1 = asks (QPodGet ns name) p
     in case opod_get P (PTrace p) ns name of
          Inl err \<Rightarrow> Ret ((False, None), (sa, p1))
        | Inr pd \<Rightarrow> Ret ((True, None), (PodServiceAccountName (PodSpec pd), p1)))"

definition getMyPodServiceAccount :: "platform \<Rightarrow> string \<Rightarrow> string \<Rightarrow> process \<Rightarrow> (go_error option \<times> string \<times> process) go" where
  "getMyPodServiceAccount P ns name p = Retry 100 (accountCondition P ns name) ([], p)"

text \<open>\<open>Inl\<close> is a fatal log line, which ends the process.\<close>

definition newControllerConfig :: "platform \<Rightarrow> string \<Rightarrow> string \<Rightarrow> bool \<Rightarrow> process \<Rightarrow> ((string + config) \<times> process) go" where
  "newControllerConfig P ns name createCRD p =
     go_bind (getMyPodServiceAccount P ns name p) (\<lambda>(err, sa, p').
       case err of
         Some e \<Rightarrow> Ret (Inl (''fail to get my pod'' @ [CHR 0x27] @ ''s service account: '' @ Error e), p')
       | None \<Rightarrow> Ret (Inr \<lparr>CfgNamespace = ns, CfgServiceAccount = sa, CfgCreateCRD = createCRD\<rparr>, p'))"

record launched =
  LConfig :: config
  LChaos :: "(nat \<times> crashconfig) option"
  LController :: system

definition operatorRun ::
  "platform \<Rightarrow> nat \<Rightarrow> string \<Rightarrow> string \<Rightarrow> bool \<Rightarrow> int \<Rightarrow> process \<Rightarrow> ((string + launched) \<times> process) go" where
  "operatorRun P fuel ns name createCRD chaosLevel p =
     go_bind (newControllerConfig P ns name createCRD p) (\<lambda>(r, p1).
       case r of
         Inl msg \<Rightarrow> Ret (Inl msg, p1)
       | Inr cfg \<Rightarrow> go_bind (Start P cfg fuel p1) (\<lambda>(p2, c).
           Ret (Inr \<lparr>LConfig = cfg, LChaos = startChaos (CfgNamespace cfg) chaosLevel, LController = c\<rparr>, p2)))"

text \<open>
  \<^verbatim>\<open>main\<close> up to the leader election, which calls \<^verbatim>\<open>run\<close> in the elected process. The environment, the
  host name and the answer of \<^verbatim>\<open>resourcelock.New\<close> are arguments.
\<close>

datatype mainresult = Fatal string | ShowVersion | Elect string string string

definition operatorMain ::
  "(string \<Rightarrow> string) \<Rightarrow> bool \<Rightarrow> go_error + string \<Rightarrow> go_error option \<Rightarrow> mainresult" where
  "operatorMain getenv printVersion hostname lock =
     (let namespace = getenv EnvOperatorPodNamespace; name = getenv EnvOperatorPodName
      in if length namespace = 0 then Fatal (''must set env ('' @ EnvOperatorPodNamespace @ '')'')
         else if length name = 0 then Fatal (''must set env ('' @ EnvOperatorPodName @ '')'')
         else if printVersion then ShowVersion
         else case hostname of
                Inl err \<Rightarrow> Fatal (''failed to get hostname: '' @ Error err)
              | Inr host \<Rightarrow>
                  (case lock of
                     Some err \<Rightarrow> Fatal (''error creating lock: '' @ Error err)
                   | None \<Rightarrow> Elect host namespace name))"

section \<open>Waiting for a pod\<close>

definition podCondition :: "platform \<Rightarrow> string \<Rightarrow> string \<Rightarrow> (pod option \<times> process) condition" where
  "podCondition P ns name = (\<lambda>(retPod, p).
     let p1 = asks (QPodGet ns name) p
     in case opod_get P (PTrace p) ns name of
          Inl err \<Rightarrow> Ret ((False, Some err), (retPod, p1))
        | Inr pd \<Rightarrow>
            if PodPhase pd = PodRunning then Ret ((True, None), (Some pd, p1))
            else if PodPhase pd = PodPending then Ret ((False, None), (Some pd, p1))
            else Ret ((False, Some (ErrNew (''unexpected pod status.phase: '' @ PodPhase pd))), (Some pd, p1)))"

text \<open>\<open>timeout\<close> in nanoseconds; the interval is five seconds. Division of \<^verbatim>\<open>int64\<close> values truncates.\<close>

definition quot64 :: "int64 \<Rightarrow> int64 \<Rightarrow> int64" where
  "quot64 a b = (if a < 0 then - (- a div b) else a div b)"

definition CreateAndWaitPod :: "platform \<Rightarrow> string \<Rightarrow> pod \<Rightarrow> int64 \<Rightarrow> process \<Rightarrow> ((go_error + pod option) \<times> process) go" where
  "CreateAndWaitPod P ns pd timeout p =
     (let p1 = asks (QPodCreate ns pd) p
      in case opod_create P (PTrace p) ns pd of
           Some err \<Rightarrow> Ret (Inl err, p1)
         | None \<Rightarrow>
             go_bind (Retry (quot64 timeout 5000000000) (podCondition P ns (ObjName (PodMeta pd))) (None, p1))
               (\<lambda>(err, retPod, p2).
                  case err of
                    Some e \<Rightarrow>
                      if IsRetryFailure err
                      then Ret (Inl (ErrNew (''failed to wait pod running, it is still pending: '' @ Error e)), p2)
                      else Ret (Inl (ErrNew (''failed to wait pod running: '' @ Error e)), p2)
                  | None \<Rightarrow> Ret (Inr retPod, p2)))"

section \<open>Events\<close>

record kubeevent =
  EvGenerateName :: string
  EvNamespace :: string
  EvObjAPIVersion :: string
  EvObjKind :: string
  EvObjName :: string
  EvObjNamespace :: string
  EvObjUID :: string
  EvObjResourceVersion :: string
  EvComponent :: string
  EvFirstTimestamp :: string
  EvLastTimestamp :: string
  EvCount :: int32
  EvType :: string
  EvReason :: string
  EvMessage :: string

text \<open>\<open>getenv\<close> is the environment of the process and \<open>t\<close> the time of the call.\<close>

definition newClusterEvent :: "(string \<Rightarrow> string) \<Rightarrow> string \<Rightarrow> rss \<Rightarrow> kubeevent" where
  "newClusterEvent getenv t cl = \<lparr>EvGenerateName = RssName cl @ ''-'', EvNamespace = RssNamespace cl,
     EvObjAPIVersion = SchemeGroupVersion, EvObjKind = ReplicatedStatefulSetResourceKind, EvObjName = RssName cl,
     EvObjNamespace = RssNamespace cl, EvObjUID = UID (RssMeta cl), EvObjResourceVersion = ResourceVersion (RssMeta cl),
     EvComponent = getenv EnvOperatorPodName, EvFirstTimestamp = t, EvLastTimestamp = t, EvCount = 1,
     EvType = [], EvReason = [], EvMessage = []\<rparr>"

definition eventTypeNormal :: string where "eventTypeNormal = ''Normal''"

definition NewMemberAddEvent :: "(string \<Rightarrow> string) \<Rightarrow> string \<Rightarrow> string \<Rightarrow> rss \<Rightarrow> kubeevent" where
  "NewMemberAddEvent getenv t memberName cl = (newClusterEvent getenv t cl)\<lparr>EvType := eventTypeNormal,
     EvReason := ''New Member Added'', EvMessage := ''New member '' @ memberName @ '' added to cluster''\<rparr>"

definition MemberRemoveEvent :: "(string \<Rightarrow> string) \<Rightarrow> string \<Rightarrow> string \<Rightarrow> rss \<Rightarrow> kubeevent" where
  "MemberRemoveEvent getenv t memberName cl = (newClusterEvent getenv t cl)\<lparr>EvType := eventTypeNormal,
     EvReason := ''Member Removed'', EvMessage := ''Existing member '' @ memberName @ '' removed from the cluster''\<rparr>"

definition ReplacingDeadMemberEvent :: "(string \<Rightarrow> string) \<Rightarrow> string \<Rightarrow> string \<Rightarrow> rss \<Rightarrow> kubeevent" where
  "ReplacingDeadMemberEvent getenv t memberName cl = (newClusterEvent getenv t cl)\<lparr>EvType := eventTypeNormal,
     EvReason := ''Replacing Dead Member'', EvMessage := ''The dead member '' @ memberName @ '' is being replaced''\<rparr>"

definition MemberUpgradedEvent :: "(string \<Rightarrow> string) \<Rightarrow> string \<Rightarrow> string \<Rightarrow> string \<Rightarrow> string \<Rightarrow> rss \<Rightarrow> kubeevent" where
  "MemberUpgradedEvent getenv t memberName oldVersion newVersion cl = (newClusterEvent getenv t cl)\<lparr>EvType := eventTypeNormal,
     EvReason := ''Member Upgraded'',
     EvMessage := ''Member '' @ memberName @ '' upgraded from '' @ oldVersion @ '' to '' @ newVersion @ '' ''\<rparr>"

section \<open>The waiting conditions\<close>

definition later :: "process \<Rightarrow> process \<Rightarrow> bool" where
  "later p p' \<longleftrightarrow> ProbeReady p' = ProbeReady p \<and> length (PTrace p) \<le> length (PTrace p')"

lemma later_refl [simp]: "later p p"
  by (simp add: later_def)

lemma later_asks [intro]: "later p0 p \<Longrightarrow> later p0 (asks q p)"
  by (simp add: later_def asks_def)

lemma later_trans: "later p q \<Longrightarrow> later q r \<Longrightarrow> later p r"
  by (simp add: later_def)

interpretation crd_wait: retry_condition "crdReady P name" "later p0" for P name p0
  by unfold_locales (auto simp: crdReady_def Let_def later_asks split: sum.splits)

interpretation account_wait: retry_condition "accountCondition P ns name" "\<lambda>(sa, p). later p0 p" for P ns name p0
  by unfold_locales (auto simp: accountCondition_def Let_def later_asks split: sum.splits)

interpretation pod_wait: retry_condition "podCondition P ns name" "\<lambda>(r, p). later p0 p" for P ns name p0
  by unfold_locales (auto simp: podCondition_def Let_def later_asks split: sum.splits)

text \<open>The pod \<^verbatim>\<open>CreateAndWaitPod\<close> returns is running, and shorter timeouts than the interval only fail.\<close>

lemma podCondition_done:
  "podCondition P ns name x = Ret ((True, None), r, p') \<Longrightarrow> \<exists>pd. r = Some pd \<and> PodPhase pd = PodRunning"
  by (cases x) (auto simp: podCondition_def Let_def split: sum.splits if_splits)

lemma CreateAndWaitPod_running:
  "go_ok (\<lambda>(r, p'). later p p' \<and> (\<forall>x. r = Inr x \<longrightarrow> (\<exists>pd'. x = Some pd' \<and> PodPhase pd' = PodRunning)))
     (CreateAndWaitPod P ns pd timeout p)"
proof (cases "opod_create P (PTrace p) ns pd")
  case None
  let ?p1 = "asks (QPodCreate ns pd) p"
  let ?wait = "Retry (quot64 timeout 5000000000) (podCondition P ns (ObjName (PodMeta pd))) (None, ?p1)"
  have "go_ok (\<lambda>(e, r, p'). later p p') ?wait"
    using pod_wait.Retry_returns [of p "(None, ?p1)"] by (simp add: later_asks)
  then have "go_ok (\<lambda>x. (case x of (e, r, p') \<Rightarrow> later p p') \<and>
      (case x of (e, s') \<Rightarrow> e = None \<longrightarrow> (\<exists>s0. podCondition P ns (ObjName (PodMeta pd)) s0 = Ret ((True, None), s')))) ?wait"
    by (rule go_ok_conj) (rule Retry_done)
  with None show ?thesis
    unfolding CreateAndWaitPod_def Let_def
    by (auto elim!: go_ok_bind dest: podCondition_done split: option.splits)
qed (simp add: CreateAndWaitPod_def Let_def later_asks)

section \<open>Initialisation\<close>

text \<open>The last request was an answer that the definition is established.\<close>

definition established :: "platform \<Rightarrow> process \<Rightarrow> bool" where
  "established P p \<longleftrightarrow> (\<exists>h conds. PTrace p = h @ [QCrdGet ReplicatedStatefulSetCRDName] \<and>
     crd_get P h ReplicatedStatefulSetCRDName = Inr conds \<and> crdStatus conds = (True, None))"

lemma crdReady_done:
  "crdReady P ReplicatedStatefulSetCRDName p0 = Ret ((True, None), p') \<Longrightarrow> established P p'"
  by (auto simp: crdReady_def established_def asks_def Let_def split: sum.splits)

lemma WaitCRDReady_result:
  "go_ok (\<lambda>(err, p'). later p p' \<and> (err = None \<longrightarrow> established P p')) (WaitCRDReady P ReplicatedStatefulSetCRDName p)"
proof -
  let ?wait = "Retry 20 (crdReady P ReplicatedStatefulSetCRDName) p"
  have "go_ok (\<lambda>x. (case x of (e, p') \<Rightarrow> later p p') \<and>
      (case x of (e, s') \<Rightarrow> e = None \<longrightarrow> (\<exists>s0. crdReady P ReplicatedStatefulSetCRDName s0 = Ret ((True, None), s')))) ?wait"
    using crd_wait.Retry_returns [of p p] by (intro go_ok_conj Retry_done) simp
  then show ?thesis
    unfolding WaitCRDReady_def by (auto elim!: go_ok_bind dest: crdReady_done)
qed

text \<open>Every attempt to create the definition makes a request.\<close>

lemma initResource_result:
  assumes "CfgCreateCRD cfg"
  shows "go_ok (\<lambda>(err, p'). later p p' \<and> length (PTrace p) < length (PTrace p') \<and> (err = None \<longrightarrow> established P p'))
           (initResource P cfg p)"
proof -
  obtain err p1 where c: "CreateCRD P ReplicatedStatefulSetCRDName ReplicatedStatefulSetResourceKind
      ReplicatedStatefulSetResourcePlural ReplicatedStatefulSetResourceShort p = (err, p1)" by force
  then have p1: "ProbeReady p1 = ProbeReady p" "length (PTrace p1) = Suc (length (PTrace p))"
    by (auto simp: CreateCRD_def Let_def asks_def)
  have "go_ok (\<lambda>(err, p'). later p1 p' \<and> (err = None \<longrightarrow> established P p')) (initCRD P p)"
    using WaitCRDReady_result [of p1 P] by (auto simp: initCRD_def c split: option.splits)
  with assms p1 show ?thesis
    by (auto simp: initResource_def later_def elim!: go_ok_bind)
qed

lemma initResource_skip: "\<not> CfgCreateCRD cfg \<Longrightarrow> initResource P cfg p = Ret (None, p)"
  by (simp add: initResource_def)

lemma initLoop_result:
  "go_safe (\<lambda>p'. later p p' \<and> (CfgCreateCRD cfg \<longrightarrow> established P p')) (initLoop P cfg fuel p)"
proof (induction fuel arbitrary: p)
  case (Suc n)
  show ?case
  proof (cases "CfgCreateCRD cfg")
    case True
    have "go_safe (\<lambda>p''. later p p'' \<and> established P p'') (initLoop P cfg n p')" if "later p p'" for p'
      using Suc.IH [of p'] True that by (auto elim!: go_safe_mono dest: later_trans)
    then show ?thesis
      using True go_ok_imp_safe [OF initResource_result [OF True, of p P]]
      by (auto elim!: go_safe_bind)
  qed (simp add: initResource_skip)
qed simp

text \<open>From \<open>N\<close> requests on the API accepts the definition and reports it as established.\<close>

definition settles :: "platform \<Rightarrow> nat \<Rightarrow> bool" where
  "settles P N \<longleftrightarrow> (\<forall>h. N \<le> length h \<longrightarrow>
     (\<forall>crd. crd_create P h crd = None \<or> IsAlreadyExists (crd_create P h crd)) \<and>
     (\<exists>conds. crd_get P h ReplicatedStatefulSetCRDName = Inr conds \<and> crdStatus conds = (True, None)))"

lemma initResource_settled:
  assumes "settles P N" and "N \<le> length (PTrace p)"
  shows "go_ok (\<lambda>(err, p'). err = None) (initResource P cfg p)"
proof -
  obtain p1 where c: "CreateCRD P ReplicatedStatefulSetCRDName ReplicatedStatefulSetResourceKind
      ReplicatedStatefulSetResourcePlural ReplicatedStatefulSetResourceShort p = (None, p1)"
    and "N \<le> length (PTrace p1)"
  proof (rule that)
    show "CreateCRD P ReplicatedStatefulSetCRDName ReplicatedStatefulSetResourceKind
      ReplicatedStatefulSetResourcePlural ReplicatedStatefulSetResourceShort p =
      (None, snd (CreateCRD P ReplicatedStatefulSetCRDName ReplicatedStatefulSetResourceKind
        ReplicatedStatefulSetResourcePlural ReplicatedStatefulSetResourceShort p))"
      using assms by (fastforce simp: CreateCRD_def Let_def settles_def)
  qed (use assms in \<open>simp add: CreateCRD_def Let_def asks_def\<close>)
  then obtain conds where conds: "crd_get P (PTrace p1) ReplicatedStatefulSetCRDName = Inr conds" "crdStatus conds = (True, None)"
    using assms(1) by (auto simp: settles_def)
  then have "crdReady P ReplicatedStatefulSetCRDName p1 =
      Ret ((True, None), asks (QCrdGet ReplicatedStatefulSetCRDName) p1)"
    by (simp add: crdReady_def)
  then show ?thesis
    by (simp add: initResource_def initCRD_def c WaitCRDReady_def Retry_first)
qed

lemma initLoop_settled:
  assumes "settles P N"
  shows "N \<le> length (PTrace p) + n \<Longrightarrow> n < fuel \<Longrightarrow> initLoop P cfg fuel p \<noteq> Stuck"
proof (induction fuel arbitrary: p n)
  case (Suc fuel)
  show ?case
  proof (cases "CfgCreateCRD cfg \<and> length (PTrace p) < N")
    case False
    then have "go_ok (\<lambda>(err, p'). err = None) (initResource P cfg p)"
      using initResource_settled [OF assms, of p cfg] by (cases "CfgCreateCRD cfg") (auto simp: initResource_skip)
    then show ?thesis by (auto simp: go_ok_iff)
  next
    case True
    then obtain err p' where r: "initResource P cfg p = Ret (err, p')" "length (PTrace p) < length (PTrace p')"
      using initResource_result [of cfg p P] by (auto simp: go_ok_iff)
    have "initLoop P cfg fuel p' \<noteq> Stuck"
      using True r(2) Suc.prems by (intro Suc.IH [of p' "n - 1"]) auto
    with r(1) show ?thesis by simp
  qed
qed simp

section \<open>Properties\<close>


text \<open>An API that fails the first three requests and is well afterwards.\<close>

definition slowPlatform :: platform where
  "slowPlatform = \<lparr>
     crd_create = (\<lambda>h crd. if length h < 3 then Some (ErrNew ''timeout'') else Some (StatusError AlreadyExists ''exists'')),
     crd_get = (\<lambda>h name. Inr [\<lparr>CrdCondType = ''NamesAccepted'', CrdCondStatus = ''True'', CrdCondReason = []\<rparr>,
                             \<lparr>CrdCondType = ''Established'', CrdCondStatus = ''True'', CrdCondReason = []\<rparr>]),
     opod_get = (\<lambda>h ns name. Inr (sample_pod ns name)),
     opod_create = (\<lambda>h ns p. None),
     raw_get = (\<lambda>h uri. Inr []),
     json_clusters = (\<lambda>b. Inr [])\<rparr>"


end
