(* ===== verification/Logging.thy ===== *)
theory Logging
  imports GoStrings
begin

text \<open>
  pkg/util/logging.go: the loggers of the components and the formatter of log lines.

  \<^item> A logger is the set of fields it adds to each line and the logrus logger behind it. What the
    operator logs is the list of the lines handed to logrus, each with its level, fields and message.
  \<^item> \<open>Format\<close> turns one such entry into text. The colour escape of a style is library code and an
    argument; so are the answer whether the output is a terminal, the seconds since the start, and the
    order in which the fields are ranged over. The time of an entry is its rendering in each layout.
  \<^item> Field values are kept by the cases of the type switch in \<^verbatim>\<open>appendValue\<close>: texts, errors by
    their message, and everything else by what \<^verbatim>\<open>fmt\<close> prints for it.

  Main results: when a line can be formatted at all (\<open>Format_panics_iff\<close>) and that the text does
  not depend on the order of the fields (\<open>Format_deterministic\<close>).
\<close>

section \<open>Levels, fields and loggers\<close>

datatype level = PanicLevel | FatalLevel | ErrorLevel | WarnLevel | InfoLevel | DebugLevel | UnknownLevel

fun levelString :: "level \<Rightarrow> string" where
  "levelString DebugLevel = ''debug''"
| "levelString InfoLevel = ''info''"
| "levelString WarnLevel = ''warning''"
| "levelString ErrorLevel = ''error''"
| "levelString FatalLevel = ''fatal''"
| "levelString PanicLevel = ''panic''"
| "levelString UnknownLevel = ''unknown''"

fun levelRank :: "level \<Rightarrow> nat" where
  "levelRank PanicLevel = 0"
| "levelRank FatalLevel = 1"
| "levelRank ErrorLevel = 2"
| "levelRank WarnLevel = 3"
| "levelRank InfoLevel = 4"
| "levelRank DebugLevel = 5"
| "levelRank UnknownLevel = 6"

datatype fieldvalue = VString string | VError string | VOther string

fun renderValue :: "fieldvalue \<Rightarrow> string" where
  "renderValue (VString s) = s"
| "renderValue (VError s) = s"
| "renderValue (VOther s) = s"

type_synonym fields = "(string \<times> fieldvalue) list"

text \<open>
  \<^verbatim>\<open>RssLogger\<close>: the entry's fields and the level of the logger it writes to. \<^verbatim>\<open>GetLogger\<close> sets the
  level of the root logger; the logger behind \<^verbatim>\<open>dummyLogger\<close> keeps the level of \<^verbatim>\<open>logrus.New\<close>.
\<close>

record rsslogger =
  LogData :: fields
  LoggerLevel :: level

definition GetLogger :: "string \<Rightarrow> rsslogger" where
  "GetLogger component = \<lparr>LogData = [(''c'', VString component)], LoggerLevel = DebugLevel\<rparr>"

definition dummyLogger :: rsslogger where
  "dummyLogger = \<lparr>LogData = [(''c'', VString ''default'')], LoggerLevel = InfoLevel\<rparr>"

definition WithField :: "rsslogger \<Rightarrow> string \<Rightarrow> string \<Rightarrow> rsslogger" where
  "WithField lg name value = lg\<lparr>LogData := AList.update name (VString value) (LogData lg)\<rparr>"

text \<open>\<open>glogV\<close> is the verbosity test of glog, once the flags have been parsed.\<close>

definition V :: "(int \<Rightarrow> bool) \<Rightarrow> rsslogger \<Rightarrow> int \<Rightarrow> rsslogger" where
  "V glogV lg lvl = (if glogV lvl then lg else dummyLogger)"

record logline =
  LineLevel :: level
  LineData :: fields
  LineMsg :: string

text \<open>The logrus methods: a line is written when the logger's level admits it.\<close>

definition entryLog :: "rsslogger \<Rightarrow> level \<Rightarrow> string \<Rightarrow> logline list" where
  "entryLog lg lvl msg =
     (if levelRank lvl \<le> levelRank (LoggerLevel lg)
      then [\<lparr>LineLevel = lvl, LineData = LogData lg, LineMsg = msg\<rparr>] else [])"

definition Debug :: "(int \<Rightarrow> bool) \<Rightarrow> rsslogger \<Rightarrow> string \<Rightarrow> logline list" where
  "Debug glogV lg msg =
     (if map_of (LogData lg) ''c'' = Some (VString ''default'') then []
      else entryLog (V glogV lg 1) DebugLevel msg)"

section \<open>Logging the output of a command\<close>

text \<open>A fatal line ends the process and a panic line panics, after the line has been written.\<close>

datatype logged = Logged "logline list" | Exits "logline list" | Panics "logline list"

definition numberedLine :: "nat \<Rightarrow> string \<Rightarrow> string" where
  "numberedLine n l = ''['' @ show_nat n @ ''][''  @ l @ '']''"

fun logLines :: "(int \<Rightarrow> bool) \<Rightarrow> rsslogger \<Rightarrow> level \<Rightarrow> string \<Rightarrow> nat \<Rightarrow> string list \<Rightarrow> logline list \<Rightarrow> logged" where
  "logLines glogV lg lvl i n [] out = Logged out"
| "logLines glogV lg lvl i n (l # ls) out =
     (let lg' = WithField lg ''pod'' i; msg = numberedLine n l
      in case lvl of
           DebugLevel \<Rightarrow> logLines glogV lg lvl i (Suc n) ls (out @ Debug glogV lg' msg)
         | InfoLevel \<Rightarrow> logLines glogV lg lvl i (Suc n) ls (out @ entryLog lg' lvl msg)
         | WarnLevel \<Rightarrow> logLines glogV lg lvl i (Suc n) ls (out @ entryLog lg' lvl msg)
         | ErrorLevel \<Rightarrow> logLines glogV lg lvl i (Suc n) ls (out @ entryLog lg' lvl msg)
         | FatalLevel \<Rightarrow> Exits (out @ entryLog lg' lvl msg)
         | PanicLevel \<Rightarrow> Panics (out @ entryLog lg' lvl msg)
         | UnknownLevel \<Rightarrow> logLines glogV lg lvl i (Suc n) ls out)"

definition LogOutput :: "(int \<Rightarrow> bool) \<Rightarrow> rsslogger \<Rightarrow> level \<Rightarrow> string \<Rightarrow> string \<Rightarrow> logged" where
  "LogOutput glogV lg lvl i result =
     (if result \<noteq> [] then logLines glogV lg lvl i 0 (Split CHR 0x0A result) [] else Logged [])"

text \<open>\<open>marshalled\<close> is the answer of the JSON encoder: the text, empty on an error, and the error.\<close>

definition JsonLogObject :: "(int \<Rightarrow> bool) \<Rightarrow> rsslogger \<Rightarrow> string \<times> go_error option \<Rightarrow> string \<Rightarrow> logline list" where
  "JsonLogObject glogV lg marshalled txt =
     (case snd marshalled of
        Some err \<Rightarrow> entryLog lg ErrorLevel (''failed to marshal spec for '' @ quoted txt @ '': '' @ Error err)
      | None \<Rightarrow> []) @
     Debug glogV lg txt @ concat (map (Debug glogV lg) (Split CHR 0x0A (fst marshalled)))"

section \<open>Text widths\<close>

text \<open>
  \<^verbatim>\<open>fmt\<close> pads to a width in runes. \<open>runeLen\<close> is the number of bytes of the first rune of a text,
  one for a byte that does not start a valid UTF-8 sequence.
\<close>

definition isCont :: "char \<Rightarrow> bool" where
  "isCont c = (let n = (of_char c :: nat) in 128 \<le> n \<and> n \<le> 191)"

definition between :: "nat \<Rightarrow> nat \<Rightarrow> char \<Rightarrow> bool" where
  "between lo hi c = (let n = (of_char c :: nat) in lo \<le> n \<and> n \<le> hi)"

definition secondOk :: "char \<Rightarrow> char \<Rightarrow> bool" where
  "secondOk c d =
     (if of_char c = (224::nat) then between 160 191 d
      else if of_char c = (237::nat) then between 128 159 d
      else if of_char c = (240::nat) then between 144 191 d
      else if of_char c = (244::nat) then between 128 143 d
      else isCont d)"

fun runeLen :: "string \<Rightarrow> nat" where
  "runeLen (c # d # e # f # _) =
     (if between 194 223 c \<and> isCont d then 2
      else if between 224 239 c \<and> secondOk c d \<and> isCont e then 3
      else if between 240 244 c \<and> secondOk c d \<and> isCont e \<and> isCont f then 4 else 1)"
| "runeLen [c, d, e] =
     (if between 194 223 c \<and> isCont d then 2
      else if between 224 239 c \<and> secondOk c d \<and> isCont e then 3 else 1)"
| "runeLen [c, d] = (if between 194 223 c \<and> isCont d then 2 else 1)"
| "runeLen _ = 1"

lemma runeLen_pos: "0 < runeLen s"
  by (cases s rule: runeLen.cases) simp_all

function RuneCount :: "string \<Rightarrow> nat" where
  "RuneCount s = (if s = [] then 0 else Suc (RuneCount (drop (runeLen s) s)))"
  by pat_completeness auto
termination by (relation "measure length") (auto simp: runeLen_pos)

declare RuneCount.simps [simp del]

definition padLeft :: "nat \<Rightarrow> string \<Rightarrow> string" where
  "padLeft w s = replicate (w - RuneCount s) CHR '' '' @ s"

definition padRight :: "nat \<Rightarrow> string \<Rightarrow> string" where
  "padRight w s = s @ replicate (w - RuneCount s) CHR '' ''"

text \<open>\<^verbatim>\<open>strings.ToUpper\<close> on ASCII text: it is applied to the names of the levels.\<close>

definition ToUpper :: "string \<Rightarrow> string" where
  "ToUpper s = map (\<lambda>c. if between 97 122 c then char_of ((of_char c :: nat) - 32) else c) s"

section \<open>Colour schemes\<close>

record colorscheme =
  InfoLevelStyle :: string
  WarnLevelStyle :: string
  ErrorLevelStyle :: string
  FatalLevelStyle :: string
  PanicLevelStyle :: string
  DebugLevelStyle :: string
  PrefixStyle :: string
  TimestampStyle :: string

record compiledscheme =
  InfoLevelColor :: "string \<Rightarrow> string"
  WarnLevelColor :: "string \<Rightarrow> string"
  ErrorLevelColor :: "string \<Rightarrow> string"
  FatalLevelColor :: "string \<Rightarrow> string"
  PanicLevelColor :: "string \<Rightarrow> string"
  DebugLevelColor :: "string \<Rightarrow> string"
  PrefixColor :: "string \<Rightarrow> string"
  TimestampColor :: "string \<Rightarrow> string"

definition defaultColorScheme :: colorscheme where
  "defaultColorScheme = \<lparr>InfoLevelStyle = [], WarnLevelStyle = ''yellow'', ErrorLevelStyle = ''red'',
     FatalLevelStyle = ''red'', PanicLevelStyle = ''red'', DebugLevelStyle = ''blue'',
     PrefixStyle = ''cyan'', TimestampStyle = ''grey+h''\<rparr>"

text \<open>\<open>ansi\<close> is \<^verbatim>\<open>ansi.ColorFunc\<close>: the text in a style.\<close>

type_synonym ansi = "string \<Rightarrow> string \<Rightarrow> string"

definition noColorsColorScheme :: "ansi \<Rightarrow> compiledscheme" where
  "noColorsColorScheme ansi = \<lparr>InfoLevelColor = ansi [], WarnLevelColor = ansi [], ErrorLevelColor = ansi [],
     FatalLevelColor = ansi [], PanicLevelColor = ansi [], DebugLevelColor = ansi [],
     PrefixColor = ansi [], TimestampColor = ansi []\<rparr>"

definition getCompiledColor :: "ansi \<Rightarrow> string \<Rightarrow> string \<Rightarrow> string \<Rightarrow> string" where
  "getCompiledColor ansi main fallback = ansi (if main \<noteq> [] then main else fallback)"

definition compileColorScheme :: "ansi \<Rightarrow> colorscheme \<Rightarrow> compiledscheme" where
  "compileColorScheme ansi s = \<lparr>
     InfoLevelColor = getCompiledColor ansi (InfoLevelStyle s) (InfoLevelStyle defaultColorScheme),
     WarnLevelColor = getCompiledColor ansi (WarnLevelStyle s) (WarnLevelStyle defaultColorScheme),
     ErrorLevelColor = getCompiledColor ansi (ErrorLevelStyle s) (ErrorLevelStyle defaultColorScheme),
     FatalLevelColor = getCompiledColor ansi (FatalLevelStyle s) (FatalLevelStyle defaultColorScheme),
     PanicLevelColor = getCompiledColor ansi (PanicLevelStyle s) (PanicLevelStyle defaultColorScheme),
     DebugLevelColor = getCompiledColor ansi (DebugLevelStyle s) (DebugLevelStyle defaultColorScheme),
     PrefixColor = getCompiledColor ansi (PrefixStyle s) (PrefixStyle defaultColorScheme),
     TimestampColor = getCompiledColor ansi (TimestampStyle s) (TimestampStyle defaultColorScheme)\<rparr>"

section \<open>The formatter\<close>

record textformatter =
  ForceColors :: bool
  DisableColors :: bool
  ForceFormatting :: bool
  DisableTimestamp :: bool
  DisableUppercase :: bool
  FullTimestamp :: bool
  TimestampFormat :: string
  DisableSorting :: bool
  QuoteEmptyFields :: bool
  QuoteCharacter :: string
  SpacePadding :: int
  FormatterScheme :: "compiledscheme option"
  IsTerminal :: bool
  OnceDone :: bool

definition zero_formatter :: textformatter where
  "zero_formatter = \<lparr>ForceColors = False, DisableColors = False, ForceFormatting = False,
     DisableTimestamp = False, DisableUppercase = False, FullTimestamp = False, TimestampFormat = [],
     DisableSorting = False, QuoteEmptyFields = False, QuoteCharacter = [], SpacePadding = 0,
     FormatterScheme = None, IsTerminal = False, OnceDone = False\<rparr>"

text \<open>The formatter \<^verbatim>\<open>GetLogger\<close> installs.\<close>

definition rootFormatter :: textformatter where
  "rootFormatter = zero_formatter\<lparr>ForceFormatting := True, FullTimestamp := True, ForceColors := True\<rparr>"

definition SetColorScheme :: "ansi \<Rightarrow> colorscheme \<Rightarrow> textformatter \<Rightarrow> textformatter" where
  "SetColorScheme ansi s f = f\<lparr>FormatterScheme := Some (compileColorScheme ansi s)\<rparr>"

text \<open>
  An entry: its fields, the rendering of its time, its level and message, whether the output of its
  logger is a terminal (\<open>None\<close> without a logger) and the buffer it brings along.
\<close>

record entry =
  EData :: fields
  ETime :: "string \<Rightarrow> string"
  ELevel :: level
  EMessage :: string
  ELoggerTty :: "bool option"
  EBuffer :: "string option"

definition formatterInit :: "entry \<Rightarrow> textformatter \<Rightarrow> textformatter" where
  "formatterInit e f =
     (let f1 = (if QuoteCharacter f = [] then f\<lparr>QuoteCharacter := [CHR 0x22]\<rparr> else f)
      in case ELoggerTty e of None \<Rightarrow> f1 | Some tty \<Rightarrow> f1\<lparr>IsTerminal := tty\<rparr>)"

definition formatterDo :: "entry \<Rightarrow> textformatter \<Rightarrow> textformatter" where
  "formatterDo e f = (if OnceDone f then f else (formatterInit e f)\<lparr>OnceDone := True\<rparr>)"

definition needsQuoting :: "textformatter \<Rightarrow> string \<Rightarrow> bool" where
  "needsQuoting f t =
     (QuoteEmptyFields f \<and> t = [] \<or>
      list_ex (\<lambda>ch. \<not> (between 97 122 ch \<or> between 65 90 ch \<or> between 48 57 ch \<or> ch = CHR ''-'' \<or> ch = CHR ''.'')) t)"

fun appendValue :: "textformatter \<Rightarrow> fieldvalue \<Rightarrow> string" where
  "appendValue f (VString s) = (if \<not> needsQuoting f s then s else QuoteCharacter f @ s @ QuoteCharacter f)"
| "appendValue f (VError s) = (if \<not> needsQuoting f s then s else QuoteCharacter f @ s @ QuoteCharacter f)"
| "appendValue f (VOther s) = s"

definition appendKeyValue :: "textformatter \<Rightarrow> string \<Rightarrow> fieldvalue \<Rightarrow> bool \<Rightarrow> string" where
  "appendKeyValue f key v appendSpace = key @ ''='' @ appendValue f v @ (if appendSpace then '' '' else [])"

definition clashField :: "string \<Rightarrow> fields \<Rightarrow> fields" where
  "clashField k d = (case map_of d k of Some v \<Rightarrow> AList.update (''fields.'' @ k) v d | None \<Rightarrow> d)"

definition prefixFieldClashes :: "fields \<Rightarrow> fields" where
  "prefixFieldClashes d = clashField ''level'' (clashField ''msg'' (clashField ''time'' d))"

definition fieldAt :: "fields \<Rightarrow> string \<Rightarrow> fieldvalue" where
  "fieldAt d k = (case map_of d k of Some v \<Rightarrow> v | None \<Rightarrow> VOther ''<nil>'')"

text \<open>
  \<^verbatim>\<open>extractPrefix\<close>. The pattern \<^verbatim>\<open>^[(.*?)]\<close> is a character class: it matches one of the characters
  \<^verbatim>\<open>( . * ? )\<close> at the start of the message. The slice \<^verbatim>\<open>match[1:len(match)-1]\<close> of a match of
  length one has its bounds the wrong way round.
\<close>

definition prefixClass :: "char \<Rightarrow> bool" where
  "prefixClass c = (c \<in> set ''(.*?)'')"

definition subSlice :: "string \<Rightarrow> int \<Rightarrow> int \<Rightarrow> string go" where
  "subSlice s lo hi =
     (if 0 \<le> lo \<and> lo \<le> hi \<and> hi \<le> int (length s) then Ret (take (nat (hi - lo)) (drop (nat lo) s))
      else Panic ''slice bounds out of range'')"

definition prefixMatch :: "string \<Rightarrow> string option" where
  "prefixMatch msg = (case msg of [] \<Rightarrow> None | c # _ \<Rightarrow> if prefixClass c then Some [c] else None)"

definition extractPrefix :: "string \<Rightarrow> (string \<times> string) go" where
  "extractPrefix msg =
     (case prefixMatch msg of
        None \<Rightarrow> Ret ([], msg)
      | Some m \<Rightarrow> go_bind (subSlice m 1 (int (length m) - 1)) (\<lambda>p.
          Ret (p, TrimSpace (drop (length m) msg))))"

definition levelColorOf :: "compiledscheme \<Rightarrow> level \<Rightarrow> string \<Rightarrow> string" where
  "levelColorOf cs lvl =
     (case lvl of
        InfoLevel \<Rightarrow> InfoLevelColor cs
      | WarnLevel \<Rightarrow> WarnLevelColor cs
      | ErrorLevel \<Rightarrow> ErrorLevelColor cs
      | FatalLevel \<Rightarrow> FatalLevelColor cs
      | PanicLevel \<Rightarrow> PanicLevelColor cs
      | _ \<Rightarrow> DebugLevelColor cs)"

definition levelTextOf :: "textformatter \<Rightarrow> level \<Rightarrow> string" where
  "levelTextOf f lvl =
     (let t = (if lvl \<noteq> WarnLevel then levelString lvl else ''warn'')
      in if \<not> DisableUppercase f then ToUpper t else t)"

text \<open>The prefix of the line and the message without it.\<close>

definition linePrefix :: "compiledscheme \<Rightarrow> fields \<Rightarrow> string \<Rightarrow> (string \<times> string) go" where
  "linePrefix cs d msg =
     (case map_of d ''prefix'' of
        Some (VString p) \<Rightarrow> Ret (PrefixColor cs ('' '' @ p @ '':''), msg)
      | Some _ \<Rightarrow> Panic ''interface conversion: interface {} is not string''
      | None \<Rightarrow> go_bind (extractPrefix msg) (\<lambda>(p, trimmed).
          if p \<noteq> [] then Ret (PrefixColor cs ('' '' @ p @ '':''), trimmed) else Ret ([], msg)))"

text \<open>
  The width \<^verbatim>\<open>SpacePadding\<close> of the message. A negative one is written after the minus flag of the
  format and read as a second flag, so its absolute value counts. The format is modelled for widths up
  to a million, above which \<^verbatim>\<open>fmt\<close> rejects it.
\<close>

definition paddedMessage :: "textformatter \<Rightarrow> string \<Rightarrow> string" where
  "paddedMessage f msg = (if SpacePadding f \<noteq> 0 then padRight (nat \<bar>SpacePadding f\<bar>) msg else msg)"

definition printColored ::
  "textformatter \<Rightarrow> int \<Rightarrow> entry \<Rightarrow> string list \<Rightarrow> string \<Rightarrow> compiledscheme \<Rightarrow> string go" where
  "printColored f miniTS e ks timestampFormat cs =
     (let color = levelColorOf cs (ELevel e); lvl = color (padLeft 5 (levelTextOf f (ELevel e)))
      in go_bind (linePrefix cs (EData e) (EMessage e)) (\<lambda>(pre, msg).
           let timestamp = (if \<not> FullTimestamp f then ''['' @ show_int04 miniTS @ '']''
                            else ''['' @ ETime e timestampFormat @ '']'')
           in Ret ((if DisableTimestamp f then lvl @ pre @ '' '' @ paddedMessage f msg
                    else TimestampColor cs timestamp @ '' '' @ lvl @ pre @ '' '') @
                   concat (map (\<lambda>k. '' '' @ k @ ''='' @ color (renderValue (fieldAt (EData e) k)))
                     (filter (\<lambda>k. k \<noteq> ''prefix'') ks)) @
                   '':'' @ [CHR 0x09] @ '' '' @ color (paddedMessage f msg))))"

definition plainLine :: "textformatter \<Rightarrow> entry \<Rightarrow> string list \<Rightarrow> string \<Rightarrow> string" where
  "plainLine f e ks timestampFormat =
     (let lastKeyIdx = int (length ks) - 1
      in (if \<not> DisableTimestamp f then appendKeyValue f ''time'' (VString (ETime e timestampFormat)) True else []) @
         appendKeyValue f ''level'' (VString (levelString (ELevel e))) True @
         concat (map (\<lambda>(i, k). appendKeyValue f k (fieldAt (EData e) k) (lastKeyIdx \<noteq> int i)) (enumerate 0 ks)) @
         (if EMessage e \<noteq> [] then appendKeyValue f ''msg'' (VString (EMessage e)) (0 \<le> lastKeyIdx) else []))"

definition defaultTimestampFormat :: string where
  "defaultTimestampFormat = ''2006-01-02T15:04:05Z07:00''"

definition schemeOf :: "ansi \<Rightarrow> textformatter \<Rightarrow> compiledscheme" where
  "schemeOf ansi f =
     (if (ForceColors f \<or> IsTerminal f) \<and> \<not> DisableColors f
      then (case FormatterScheme f of None \<Rightarrow> compileColorScheme ansi defaultColorScheme | Some cs \<Rightarrow> cs)
      else noColorsColorScheme ansi)"

definition formatKeys :: "textformatter \<Rightarrow> string list \<Rightarrow> fields \<Rightarrow> string list" where
  "formatKeys f order d =
     (let ks = range_keys order (map fst d) in if \<not> DisableSorting f then sort ks else ks)"

text \<open>
  \<^verbatim>\<open>Format\<close>: the text of the line, with the buffer of the entry before it, and the formatter and
  the entry as they are left behind.
\<close>

definition Format ::
  "ansi \<Rightarrow> int \<Rightarrow> string list \<Rightarrow> textformatter \<Rightarrow> entry \<Rightarrow> (string \<times> textformatter \<times> entry) go" where
  "Format ansi miniTS order f e =
     (let ks = formatKeys f order (EData e);
          b = (case EBuffer e of Some buf \<Rightarrow> buf | None \<Rightarrow> []);
          e' = e\<lparr>EData := prefixFieldClashes (EData e)\<rparr>;
          f' = formatterDo e f;
          timestampFormat = (if TimestampFormat f' = [] then defaultTimestampFormat else TimestampFormat f')
      in go_bind
           (if ForceFormatting f' \<or> IsTerminal f' then printColored f' miniTS e' ks timestampFormat (schemeOf ansi f')
            else Ret (plainLine f' e' ks timestampFormat))
           (\<lambda>line. Ret (b @ line @ [CHR 0x0A], f', e')))"

section \<open>Fields\<close>

lemma map_of_clashField:
  "map_of (clashField k d) k' = (if k' = ''fields.'' @ k \<and> map_of d k \<noteq> None then map_of d k else map_of d k')"
  by (auto simp: clashField_def update_conv' split: option.splits)

lemma map_of_clashes:
  "\<not> HasPrefix k ''fields.'' \<Longrightarrow> map_of (prefixFieldClashes d) k = map_of d k"
  by (auto simp: prefixFieldClashes_def map_of_clashField HasPrefix_def)

lemma map_of_clashes_prefix [simp]: "map_of (prefixFieldClashes d) ''prefix'' = map_of d ''prefix''"
  by (rule map_of_clashes) (simp add: HasPrefix_def)

text \<open>The fields of an entry are printed in the order of their names, however they are ranged over.\<close>

lemma Format_deterministic:
  assumes "distinct (map fst (EData e))" and "\<not> DisableSorting f"
  shows "Format ansi ts o1 f e = Format ansi ts o2 f e"
  using assms by (simp add: Format_def formatKeys_def sort_range_keys)

text \<open>
  The copies \<^verbatim>\<open>fields.time\<close>, \<^verbatim>\<open>fields.msg\<close> and \<^verbatim>\<open>fields.level\<close> are made after the keys have been
  collected: they are never printed, and the clashing field is printed under its own name.
\<close>

lemma clashes_not_printed:
  assumes "\<And>k. k \<in> fst ` set (EData e) \<Longrightarrow> \<not> HasPrefix k ''fields.''"
  shows "plainLine f (e\<lparr>EData := prefixFieldClashes (EData e)\<rparr>) (formatKeys f order (EData e)) tf =
         plainLine f e (formatKeys f order (EData e)) tf"
proof -
  have "k \<in> set (formatKeys f order (EData e)) \<Longrightarrow> fieldAt (prefixFieldClashes (EData e)) k = fieldAt (EData e) k" for k
    using assms by (auto simp: fieldAt_def map_of_clashes formatKeys_def Let_def split: if_splits)
  then show ?thesis
    by (auto simp: plainLine_def Let_def in_set_enumerate_eq split: prod.splits
        intro!: arg_cong [where f = concat] map_cong)
qed

section \<open>Formatting a line\<close>

text \<open>What cannot be printed in the formatted layout.\<close>

definition unprintable :: "entry \<Rightarrow> bool" where
  "unprintable e =
     (case map_of (EData e) ''prefix'' of
        Some (VString _) \<Rightarrow> False
      | Some _ \<Rightarrow> True
      | None \<Rightarrow> (case EMessage e of [] \<Rightarrow> False | c # _ \<Rightarrow> prefixClass c))"

definition formatted :: "textformatter \<Rightarrow> entry \<Rightarrow> bool" where
  "formatted f e = (ForceFormatting (formatterDo e f) \<or> IsTerminal (formatterDo e f))"

lemma extractPrefix_cases:
  "extractPrefix msg =
     (case msg of c # _ \<Rightarrow> if prefixClass c then Panic ''slice bounds out of range'' else Ret ([], msg)
      | [] \<Rightarrow> Ret ([], msg))"
  by (simp add: extractPrefix_def prefixMatch_def subSlice_def split: list.splits)

lemma linePrefix_cases:
  "go_inv (\<lambda>_. \<not> unprintable e) (linePrefix cs (EData e) (EMessage e)) \<and>
   linePrefix cs (EData e) (EMessage e) \<noteq> Stuck \<and>
   ((\<exists>m. linePrefix cs (EData e) (EMessage e) = Panic m) \<longrightarrow> unprintable e)"
  by (auto simp: linePrefix_def unprintable_def extractPrefix_cases split: option.splits fieldvalue.splits list.splits)

lemma printColored_outcome:
  "(if unprintable e then \<exists>m. printColored f ts e ks tf cs = Panic m
    else \<exists>l. printColored f ts e ks tf cs = Ret l)"
  using linePrefix_cases [of e cs]
  by (cases "linePrefix cs (EData e) (EMessage e)") (auto simp: printColored_def Let_def)

lemma unprintable_clashes [simp]: "unprintable (e\<lparr>EData := prefixFieldClashes (EData e)\<rparr>) = unprintable e"
  by (simp add: unprintable_def split: option.splits)

lemma Format_outcome:
  "(if formatted f e \<and> unprintable e then \<exists>m. Format ansi ts order f e = Panic m
    else go_ok (\<lambda>(l, f', e'). \<exists>t. l = t @ [CHR 0x0A]) (Format ansi ts order f e))"
proof (cases "formatted f e")
  case True
  let ?f = "formatterDo e f"
  let ?tf = "if TimestampFormat ?f = [] then defaultTimestampFormat else TimestampFormat ?f"
  have "if unprintable e then \<exists>m. printColored ?f ts (e\<lparr>EData := prefixFieldClashes (EData e)\<rparr>)
            (formatKeys f order (EData e)) ?tf (schemeOf ansi ?f) = Panic m
        else \<exists>l. printColored ?f ts (e\<lparr>EData := prefixFieldClashes (EData e)\<rparr>)
            (formatKeys f order (EData e)) ?tf (schemeOf ansi ?f) = Ret l"
    using printColored_outcome [of "e\<lparr>EData := prefixFieldClashes (EData e)\<rparr>"] by simp
  with True show ?thesis by (auto simp: Format_def Let_def formatted_def split: if_splits)
qed (simp add: Format_def Let_def formatted_def)

text \<open>
  Two lines as they are printed. In the plain layout the message follows the last field without a
  separator; without time stamps the formatted layout prints the message before and after the fields.
\<close>

definition sampleEntry :: "string \<Rightarrow> entry" where
  "sampleEntry msg = \<lparr>EData = [(''c'', VString ''x'')], ETime = (\<lambda>_. []), ELevel = InfoLevel,
     EMessage = msg, ELoggerTty = Some False, EBuffer = None\<rparr>"

lemma no_separator_before_msg:
  "plainLine (zero_formatter\<lparr>DisableTimestamp := True\<rparr>) (sampleEntry ''hi'') [''c''] [] = ''level=info c=xmsg=hi ''"
  by code_simp

lemma message_printed_twice:
  "printColored (zero_formatter\<lparr>DisableTimestamp := True\<rparr>) 0 (sampleEntry ''hi'') [''c''] []
     (noColorsColorScheme (\<lambda>style s. s)) = Ret ('' INFO hi c=x:'' @ [CHR 0x09] @ '' hi'')"
  by code_simp

section \<open>Logging a text\<close>

lemma logLines_levels:
  assumes "lvl \<in> {InfoLevel, WarnLevel, ErrorLevel}"
  shows "logLines g lg lvl i n ls out =
     Logged (out @ concat (map (\<lambda>(j, l). entryLog (WithField lg ''pod'' i) lvl (numberedLine j l)) (enumerate n ls)))"
  using assms by (induction ls arbitrary: n out) (auto simp: Let_def)

lemma concat_singletons: "concat (map (\<lambda>(j, l). [g j l]) xs) = map (\<lambda>(j, l). g j l) xs"
  by (induction xs) auto

lemma numberedLine_printable:
  "map_of (EData e) ''prefix'' = None \<Longrightarrow> EMessage e = numberedLine n l \<Longrightarrow> \<not> unprintable e"
  by (simp add: unprintable_def numberedLine_def prefixClass_def)

definition entryOf :: "logline \<Rightarrow> (string \<Rightarrow> string) \<Rightarrow> bool \<Rightarrow> entry" where
  "entryOf l tm tty = \<lparr>EData = LineData l, ETime = tm, ELevel = LineLevel l, EMessage = LineMsg l,
     ELoggerTty = Some tty, EBuffer = Some []\<rparr>"

section \<open>Properties\<close>

text \<open>
  C31. Formatting a line panics exactly when the formatted layout is used (it is forced, as in the
  operator, or the output is a terminal) and either the field \<^verbatim>\<open>prefix\<close> is there and not a text, or
  it is not there and the message starts with one of the characters \<^verbatim>\<open>( . * ? )\<close>. In every other
  case it returns a text that ends with a line break.
\<close>

theorem Format_panics_iff:
  "((\<exists>m. Format ansi ts order f e = Panic m) \<longleftrightarrow> formatted f e \<and> unprintable e) \<and>
   ((\<exists>t f' e'. Format ansi ts order f e = Ret (t @ [CHR 0x0A], f', e')) \<longleftrightarrow> \<not> (formatted f e \<and> unprintable e))"
  using Format_outcome [of f e ansi ts order]
  by (cases "Format ansi ts order f e") (auto split: if_splits)



end
