(* ===== verification/PeerFinder.thy ===== *)
theory PeerFinder
  imports GoStrings
begin

text \<open>
  apps/dummy/peer-finder.go (apps/galera has an identical copy): the helper in the application containers
  that polls the DNS records of a service and runs a script when the peers change.

  \<^item> The flags, the environment, the host name, the resolver configuration, the answers of the DNS and
    the outcome of a script are arguments; the answer of poll \<open>n\<close> is \<open>srv n\<close>.
  \<^item> A set of strings is the sorted list of its elements, which is what \<^verbatim>\<open>List\<close> returns.
  \<^item> The loop runs until its script is empty, which may be never. \<open>peerLoop\<close> does a given number of
    polls and returns how far it came, so a property of its result for every number of polls is a
    property of every moment of a run.
  \<^item> The regular expressions that find the domain are terms of a small matcher with the
    leftmost-first choice of Go's \<^verbatim>\<open>regexp\<close>.
\<close>

section \<open>Regular expressions\<close>

text \<open>
  \<open>Cls\<close> is one character of a class, \<open>Cat\<close> a sequence, \<open>Many\<close> a greedy star, \<open>Rep\<close> a greedy
  repetition with a lower and an upper bound (no upper bound is \<open>None\<close>), \<open>Goal\<close> the named group. A
  match is the remaining text and the text of the group; \<open>rmatch\<close> lists the matches in the order of
  preference.
\<close>

datatype regex =
    Cls "char \<Rightarrow> bool"
  | Cat regex regex
  | Many regex
  | Rep "char \<Rightarrow> bool" nat "nat option"
  | Goal regex

type_synonym rstate = "string \<times> string option"

text \<open>Repetition of a class: the lengths from the longest admissible one down.\<close>

fun spanLen :: "(char \<Rightarrow> bool) \<Rightarrow> string \<Rightarrow> nat" where
  "spanLen P [] = 0"
| "spanLen P (c # cs) = (if P c then Suc (spanLen P cs) else 0)"

definition repeats :: "(char \<Rightarrow> bool) \<Rightarrow> nat \<Rightarrow> nat option \<Rightarrow> rstate \<Rightarrow> rstate list" where
  "repeats P lo hi = (\<lambda>(s, g).
     let n = spanLen P s; top = (case hi of None \<Rightarrow> n | Some h \<Rightarrow> min h n)
     in map (\<lambda>k. (drop k s, g)) (rev [lo..<Suc top]))"

text \<open>The star of a matcher whose iterations consume text.\<close>

fun iter :: "(rstate \<Rightarrow> rstate list) \<Rightarrow> nat \<Rightarrow> rstate \<Rightarrow> rstate list" where
  "iter m 0 x = [x]"
| "iter m (Suc n) x = concat (map (\<lambda>y. if length (fst y) < length (fst x) then iter m n y else []) (m x)) @ [x]"

fun rmatch :: "regex \<Rightarrow> rstate \<Rightarrow> rstate list" where
  "rmatch (Cls P) (s, g) = (case s of [] \<Rightarrow> [] | c # cs \<Rightarrow> if P c then [(cs, g)] else [])"
| "rmatch (Cat r1 r2) x = concat (map (rmatch r2) (rmatch r1 x))"
| "rmatch (Many r) x = iter (rmatch r) (length (fst x)) x"
| "rmatch (Rep P lo hi) x = repeats P lo hi x"
| "rmatch (Goal r) (s, g) =
     map (\<lambda>(s', _). (s', Some (take (length s - length s') s))) (rmatch r (s, g))"

definition lit :: "char \<Rightarrow> char \<Rightarrow> bool" where "lit c d = (d = c)"
definition anyChar :: "char \<Rightarrow> bool" where "anyChar c = (c \<noteq> CHR 0x0A)"

text \<open>The class \<^verbatim>\<open>\s\<close> of \<^verbatim>\<open>regexp\<close>: tab, line feed, form feed, carriage return and space.\<close>

definition blank :: "char \<Rightarrow> bool" where "blank c = (c \<in> {CHR 0x09, CHR 0x0A, CHR 0x0C, CHR 0x0D, CHR 0x20})"

definition alnum :: "char \<Rightarrow> bool" where
  "alnum c = (let n = (of_char c :: nat) in 97 \<le> n \<and> n \<le> 122 \<or> 65 \<le> n \<and> n \<le> 90 \<or> 48 \<le> n \<and> n \<le> 57)"

definition alnumDash :: "char \<Rightarrow> bool" where "alnumDash c = (alnum c \<or> c = CHR ''-'')"

fun text_re :: "string \<Rightarrow> regex \<Rightarrow> regex" where
  "text_re [] r = r"
| "text_re (c # cs) r = Cat (Cls (lit c)) (text_re cs r)"

text \<open>\<^verbatim>\<open>([a-zA-Z0-9-]{1,63}\.)*[a-zA-Z0-9]{2,63}\<close>, the end of both patterns.\<close>

definition domainTail :: regex where
  "domainTail = Cat (Many (Cat (Rep alnumDash 1 (Some 63)) (Cls (lit CHR ''.'')))) (Rep alnum 2 (Some 63))"

text \<open>\<^verbatim>\<open>svc.\<close> with its unescaped dot.\<close>

definition svcTail :: regex where
  "svcTail = text_re ''svc'' (Cat (Cls anyChar) domainTail)"

definition goalPattern :: "string \<Rightarrow> regex" where
  "goalPattern ns =
     (if ns = [] then Cat (Rep alnumDash 1 (Some 63)) (Cat (Cls anyChar) svcTail) else svcTail)"

definition domainPattern :: "string \<Rightarrow> regex" where
  "domainPattern ns =
     Cat (Many (Cat (Rep anyChar 0 None) (Cls (lit CHR 0x0A))))
       (text_re ''search'' (Cat (Rep blank 1 None)
         (Cat (Many (Cat (Rep anyChar 0 None) (Rep blank 1 None))) (Goal (goalPattern ns)))))"

text \<open>The group of the preferred match of the whole pattern, which is anchored at the start.\<close>

definition findGoal :: "string \<Rightarrow> string \<Rightarrow> string option" where
  "findGoal ns conf = (case rmatch (domainPattern ns) (conf, None) of [] \<Rightarrow> None | (_, g) # _ \<Rightarrow> g)"

section \<open>Arguments\<close>

record pfflags =
  onChange :: string
  onStart :: string
  svcFlag :: string
  nsFlag :: string
  domainFlag :: string

record pfenv =
  PfGetenv :: "string \<Rightarrow> string"
  PfHostname :: "go_error + string"
  PfResolvConf :: "go_error + string"
  PfShell :: "string list \<Rightarrow> string \<Rightarrow> go_error option"

text \<open>The domain name; \<open>Inl\<close> is a fatal log line.\<close>

definition domainName :: "pfenv \<Rightarrow> pfflags \<Rightarrow> string \<Rightarrow> string + string" where
  "domainName G f ns =
     (if domainFlag f = [] then
        (case PfResolvConf G of
           Inl err \<Rightarrow> Inl ''Unable to read /etc/resolv.conf''
         | Inr conf \<Rightarrow>
             (case findGoal ns conf of
                None \<Rightarrow> Inr []
              | Some v \<Rightarrow> Inr (if ns = [] then v else ns @ ''.'' @ v)))
      else Inr (Join [ns, ''svc'', domainFlag f] ''.''))"

record pfargs =
  ArgService :: string
  ArgMyName :: string
  ArgFirstScript :: string
  ArgOnChange :: string

definition pfPrepare :: "pfenv \<Rightarrow> pfflags \<Rightarrow> string + pfargs" where
  "pfPrepare G f =
     (let ns = (if nsFlag f = [] then PfGetenv G ''POD_NAMESPACE'' else nsFlag f);
          service = (if svcFlag f = [] then PfGetenv G ''SERVICE_NAME'' else svcFlag f)
      in case PfHostname G of
           Inl err \<Rightarrow> Inl (''Failed to get hostname: '' @ Error err)
         | Inr hostname \<Rightarrow>
             (case domainName G f ns of
                Inl msg \<Rightarrow> Inl msg
              | Inr dn \<Rightarrow>
                  if service = [] \<or> dn = [] \<or> onChange f = [] \<and> onStart f = [] then
                    Inl ''Incomplete args, require -on-change and/or -on-start, -service and -ns or an env var for POD_NAMESPACE.''
                  else Inr \<lparr>ArgService = service, ArgMyName = Join [hostname, service, dn] ''.'',
                            ArgFirstScript = (if onStart f = [] then onChange f else onStart f),
                            ArgOnChange = onChange f\<rparr>))"

section \<open>Polling\<close>

text \<open>The name of a record without its last character, the dot of the root domain.\<close>

fun endpoints :: "string list \<Rightarrow> string list \<Rightarrow> string list go" where
  "endpoints [] acc = Ret (sort acc)"
| "endpoints (t # ts) acc =
     (if t = [] then Panic ''slice bounds out of range'' else endpoints ts (List.insert (butlast t) acc))"

definition lookup :: "go_error + string list \<Rightarrow> (go_error + string list) go" where
  "lookup answer =
     (case answer of
        Inl err \<Rightarrow> Ret (Inl err)
      | Inr targets \<Rightarrow> go_bind (endpoints targets []) (\<lambda>eps. Ret (Inr eps)))"

definition shellCommand :: "string \<Rightarrow> string \<Rightarrow> string" where
  "shellCommand sendStdin script = ''echo -e '' @ quoted sendStdin @ '' | '' @ script"

datatype pfstatus = Polling | Exited | Crash string

record pfstate =
  PfStatus :: pfstatus
  PfScript :: string
  PfPeers :: "string list"
  PfRuns :: "(string \<times> string list) list"

text \<open>The commands that have been executed, for the answer of the next one.\<close>

definition commands :: "pfstate \<Rightarrow> string list" where
  "commands s = map (\<lambda>(script, peers). shellCommand (Join peers [CHR 0x0A]) script) (PfRuns s)"

definition runScript :: "pfenv \<Rightarrow> pfargs \<Rightarrow> string list \<Rightarrow> pfstate \<Rightarrow> pfstate" where
  "runScript G a newPeers s =
     (let s1 = s\<lparr>PfRuns := PfRuns s @ [(PfScript s, newPeers)]\<rparr>
      in case PfShell G (commands s) (shellCommand (Join newPeers [CHR 0x0A]) (PfScript s)) of
           Some err \<Rightarrow> s1\<lparr>PfStatus := Crash (''Failed to execute '' @ PfScript s)\<rparr>
         | None \<Rightarrow> s1\<lparr>PfPeers := newPeers, PfScript := ArgOnChange a\<rparr>)"

text \<open>One round of the loop with its test.\<close>

definition pollOnce :: "pfenv \<Rightarrow> pfargs \<Rightarrow> go_error + string list \<Rightarrow> pfstate \<Rightarrow> pfstate" where
  "pollOnce G a answer s =
     (if PfStatus s \<noteq> Polling then s
      else if PfScript s = [] then s\<lparr>PfStatus := Exited\<rparr>
      else case lookup answer of
             Panic msg \<Rightarrow> s\<lparr>PfStatus := Crash msg\<rparr>
           | Stuck \<Rightarrow> s
           | Ret (Inl err) \<Rightarrow> s
           | Ret (Inr newPeers) \<Rightarrow>
               if ArgMyName a \<notin> set newPeers then s
               else if newPeers = PfPeers s then s
               else runScript G a newPeers s)"

fun peerLoop :: "pfenv \<Rightarrow> pfargs \<Rightarrow> (nat \<Rightarrow> go_error + string list) \<Rightarrow> nat \<Rightarrow> pfstate" where
  "peerLoop G a srv 0 = \<lparr>PfStatus = Polling, PfScript = ArgFirstScript a, PfPeers = [], PfRuns = []\<rparr>"
| "peerLoop G a srv (Suc n) = pollOnce G a (srv n) (peerLoop G a srv n)"

section \<open>The records of a service\<close>

lemma endpoints_result:
  "\<lbrakk>\<forall>t \<in> set ts. t \<noteq> []; distinct acc\<rbrakk> \<Longrightarrow>
   \<exists>eps. endpoints ts acc = Ret eps \<and> set eps = butlast ` set ts \<union> set acc \<and> sorted eps \<and> distinct eps"
  by (induction ts acc rule: endpoints.induct) auto

lemma endpoints_shape:
  "endpoints ts acc = Ret eps \<Longrightarrow> distinct acc \<Longrightarrow> sorted eps \<and> distinct eps"
  by (induction ts acc rule: endpoints.induct) (auto split: if_splits)

lemma lookup_shape: "lookup answer = Ret (Inr eps) \<Longrightarrow> sorted eps \<and> distinct eps"
  by (auto simp: lookup_def go_bind_Ret_iff split: sum.splits dest: endpoints_shape)

section \<open>The runs of the script\<close>

text \<open>
  The invariant of the loop: which script each run used, that it was given a sorted set of peers with
  the pod itself among them, and that the set differed from the one before.
\<close>

fun changes :: "string list list \<Rightarrow> bool" where
  "changes (x # y # ys) = (x \<noteq> y \<and> changes (y # ys))"
| "changes _ = True"

lemma changes_snoc: "changes (xs @ [x]) \<longleftrightarrow> changes xs \<and> (xs \<noteq> [] \<longrightarrow> last xs \<noteq> x)"
  by (induction xs rule: changes.induct) auto

fun scriptsOk :: "string \<Rightarrow> string \<Rightarrow> string list \<Rightarrow> bool" where
  "scriptsOk first later [] = True"
| "scriptsOk first later (x # xs) = (x = first \<and> (\<forall>y \<in> set xs. y = later))"

lemma scriptsOk_snoc:
  "scriptsOk x y xs \<Longrightarrow> z = (if xs = [] then x else y) \<Longrightarrow> scriptsOk x y (xs @ [z])"
  by (cases xs) auto

definition wellRun :: "pfargs \<Rightarrow> pfstate \<Rightarrow> bool" where
  "wellRun a s \<longleftrightarrow>
     scriptsOk (ArgFirstScript a) (ArgOnChange a) (map fst (PfRuns s)) \<and>
     (\<forall>r \<in> set (PfRuns s). ArgMyName a \<in> set (snd r) \<and> sorted (snd r) \<and> distinct (snd r)) \<and>
     changes (map snd (PfRuns s))"

definition loopInv :: "pfargs \<Rightarrow> pfstate \<Rightarrow> bool" where
  "loopInv a s \<longleftrightarrow> wellRun a s \<and>
     (PfStatus s \<noteq> Exited \<or> ArgOnChange a = [] \<and> PfRuns s \<noteq> []) \<and>
     (case PfStatus s of Crash _ \<Rightarrow> True
      | _ \<Rightarrow> PfScript s = (if PfRuns s = [] then ArgFirstScript a else ArgOnChange a) \<and>
            PfPeers s = (if PfRuns s = [] then [] else snd (last (PfRuns s)))) \<and>
     (ArgOnChange a = [] \<longrightarrow> length (PfRuns s) \<le> 1)"

lemma loopInv_start: "loopInv a (peerLoop G a srv 0)"
  by (simp add: loopInv_def wellRun_def)

lemma wellRun_snoc:
  assumes "wellRun a s" and "script = (if PfRuns s = [] then ArgFirstScript a else ArgOnChange a)"
    and "ArgMyName a \<in> set ps" and "sorted ps" and "distinct ps"
    and "PfRuns s \<noteq> [] \<longrightarrow> snd (last (PfRuns s)) \<noteq> ps" and "PfRuns s' = PfRuns s @ [(script, ps)]"
  shows "wellRun a s'"
proof -
  have "scriptsOk (ArgFirstScript a) (ArgOnChange a) (map fst (PfRuns s) @ [script])"
    using assms(1,2) by (intro scriptsOk_snoc) (simp_all add: wellRun_def)
  with assms show ?thesis by (auto simp: wellRun_def changes_snoc last_map)
qed

lemma loopInv_poll:
  assumes "loopInv a s" and "ArgFirstScript a \<noteq> []"
  shows "loopInv a (pollOnce G a answer s)"
proof (cases "PfStatus s")
  case Polling
  show ?thesis
  proof (cases "\<exists>ps. PfScript s \<noteq> [] \<and> lookup answer = Ret (Inr ps) \<and> ArgMyName a \<in> set ps \<and> ps \<noteq> PfPeers s")
    case True
    then obtain ps where ps: "PfScript s \<noteq> []" "lookup answer = Ret (Inr ps)" "ArgMyName a \<in> set ps" "ps \<noteq> PfPeers s"
      by blast
    let ?s' = "runScript G a ps s"
    have eq: "pollOnce G a answer s = ?s'" using Polling ps by (simp add: pollOnce_def)
    have runs: "PfRuns ?s' = PfRuns s @ [(PfScript s, ps)]"
      by (simp add: runScript_def Let_def split: option.splits)
    have state: "PfScript s = (if PfRuns s = [] then ArgFirstScript a else ArgOnChange a)"
      "PfPeers s = (if PfRuns s = [] then [] else snd (last (PfRuns s)))"
      using assms(1) Polling by (simp_all add: loopInv_def)
    have "wellRun a ?s'"
      using assms(1) state ps lookup_shape [OF ps(2)]
      by (intro wellRun_snoc [OF _ state(1) _ _ _ _ runs]) (auto simp: loopInv_def)
    moreover have "ArgOnChange a = [] \<longrightarrow> PfRuns s = []" using state(1) ps(1) by (auto split: if_splits)
    moreover have "PfStatus ?s' \<noteq> Exited" "PfStatus ?s' = Polling \<Longrightarrow> PfScript ?s' = ArgOnChange a \<and> PfPeers ?s' = ps"
      using Polling by (auto simp: runScript_def Let_def split: option.splits)
    ultimately show ?thesis unfolding eq by (auto simp: loopInv_def runs split: pfstatus.splits)
  next
    case False
    then have "pollOnce G a answer s = s \<or> (\<exists>msg. pollOnce G a answer s = s\<lparr>PfStatus := Crash msg\<rparr>) \<or>
        pollOnce G a answer s = s\<lparr>PfStatus := Exited\<rparr> \<and> PfScript s = []"
      using Polling by (auto simp: pollOnce_def split: go.splits sum.splits)
    then show ?thesis
      using assms Polling by (auto simp: loopInv_def wellRun_def split: if_splits)
  qed
qed (use assms in \<open>simp_all add: pollOnce_def\<close>)

lemma peerLoop_inv: "ArgFirstScript a \<noteq> [] \<Longrightarrow> loopInv a (peerLoop G a srv n)"
  by (induction n) (auto intro: loopInv_start loopInv_poll simp del: peerLoop.simps(1))

text \<open>The first answer with the pod in it starts the script.\<close>

lemma PfRuns_mono: "PfRuns s \<noteq> [] \<Longrightarrow> PfRuns (pollOnce G a answer s) \<noteq> []"
  by (auto simp: pollOnce_def runScript_def Let_def split: go.splits sum.splits option.splits)

lemma PfStatus_mono: "PfStatus s \<noteq> Polling \<Longrightarrow> pollOnce G a answer s = s"
  by (simp add: pollOnce_def)

lemma peerLoop_stays:
  "PfRuns (peerLoop G a srv k) \<noteq> [] \<or> PfStatus (peerLoop G a srv k) \<noteq> Polling \<Longrightarrow> k \<le> n \<Longrightarrow>
   PfRuns (peerLoop G a srv n) \<noteq> [] \<or> PfStatus (peerLoop G a srv n) \<noteq> Polling"
proof (induction n)
  case (Suc n)
  show ?case
  proof (cases "k = Suc n")
    case False
    with Suc have "PfRuns (peerLoop G a srv n) \<noteq> [] \<or> PfStatus (peerLoop G a srv n) \<noteq> Polling" by simp
    then show ?thesis using PfRuns_mono PfStatus_mono by auto
  qed (use Suc.prems in simp)
qed simp

text \<open>An answer that lists the pod itself.\<close>

definition listsMe :: "pfargs \<Rightarrow> go_error + string list \<Rightarrow> bool" where
  "listsMe a answer \<longleftrightarrow> (\<exists>ts. answer = Inr ts \<and> (\<forall>t \<in> set ts. t \<noteq> []) \<and> ArgMyName a @ ''.'' \<in> set ts)"

lemma lookup_me:
  assumes "listsMe a answer"
  shows "\<exists>ps. lookup answer = Ret (Inr ps) \<and> ArgMyName a \<in> set ps"
proof -
  from assms obtain ts where ts: "answer = Inr ts" "\<forall>t \<in> set ts. t \<noteq> []" "ArgMyName a @ ''.'' \<in> set ts"
    unfolding listsMe_def by blast
  then obtain eps where "endpoints ts [] = Ret eps" "set eps = butlast ` set ts"
    using endpoints_result [of ts "[]"] by auto
  moreover have "ArgMyName a \<in> butlast ` set ts" using ts(3) by (metis butlast_snoc image_eqI)
  ultimately show ?thesis using ts(1) by (simp add: lookup_def)
qed

lemma first_run:
  assumes "loopInv a s" and "ArgFirstScript a \<noteq> []" and "listsMe a answer"
  shows "PfRuns (pollOnce G a answer s) \<noteq> [] \<or> PfStatus (pollOnce G a answer s) \<noteq> Polling"
proof (cases "PfRuns s \<noteq> [] \<or> PfStatus s \<noteq> Polling")
  case True
  then show ?thesis using PfRuns_mono PfStatus_mono by auto
next
  case False
  with assms obtain ps where "PfScript s \<noteq> []" "PfPeers s = []" "lookup answer = Ret (Inr ps)" "ArgMyName a \<in> set ps"
    using lookup_me [OF assms(3)] by (auto simp: loopInv_def)
  with False show ?thesis by (auto simp: pollOnce_def runScript_def Let_def split: option.splits)
qed

lemma prepared_script: "pfPrepare G f = Inr a \<Longrightarrow> ArgFirstScript a \<noteq> [] \<and> ArgOnChange a = onChange f"
  by (auto simp: pfPrepare_def Let_def split: sum.splits if_splits)

section \<open>Properties\<close>

text \<open>
  C35. At every moment, the scripts have been run like this: the first run with the on-start script, or
  with the on-change script when there is none, and every other run with the on-change script; each with
  a sorted list of different peers that has the pod itself in it, and each with other peers than the run
  before. Without an on-change script there is at most one run, and only then and after it does the
  program exit. A poll that lists the pod has led to a run, unless the program has ended in an error.
\<close>

theorem peerfinder_runs:
  assumes "pfPrepare G f = Inr a"
  shows "wellRun a (peerLoop G a srv n) \<and>
         (onChange f = [] \<longrightarrow> length (PfRuns (peerLoop G a srv n)) \<le> 1) \<and>
         (PfStatus (peerLoop G a srv n) = Exited \<longrightarrow> onChange f = [] \<and> PfRuns (peerLoop G a srv n) \<noteq> []) \<and>
         (onChange f = [] \<and> PfRuns (peerLoop G a srv n) \<noteq> [] \<longrightarrow> PfStatus (peerLoop G a srv (Suc n)) \<noteq> Polling) \<and>
         (k < n \<and> listsMe a (srv k) \<longrightarrow>
            PfRuns (peerLoop G a srv n) \<noteq> [] \<or> (\<exists>msg. PfStatus (peerLoop G a srv n) = Crash msg))"
proof -
  note script = prepared_script [OF assms]
  have inv: "loopInv a (peerLoop G a srv m)" for m using peerLoop_inv script by blast
  have "PfStatus (peerLoop G a srv (Suc n)) \<noteq> Polling" if "onChange f = []" "PfRuns (peerLoop G a srv n) \<noteq> []"
    using inv [of n] that script by (cases "PfStatus (peerLoop G a srv n)") (auto simp: loopInv_def pollOnce_def)
  moreover have "PfRuns (peerLoop G a srv n) \<noteq> [] \<or> (\<exists>msg. PfStatus (peerLoop G a srv n) = Crash msg)"
    if "k < n" "listsMe a (srv k)"
  proof -
    have "PfRuns (peerLoop G a srv (Suc k)) \<noteq> [] \<or> PfStatus (peerLoop G a srv (Suc k)) \<noteq> Polling"
      using first_run [OF inv [of k] _ that(2)] script by simp
    then have "PfRuns (peerLoop G a srv n) \<noteq> [] \<or> PfStatus (peerLoop G a srv n) \<noteq> Polling"
      using peerLoop_stays that(1) by (metis Suc_leI)
    then show ?thesis using inv [of n] by (cases "PfStatus (peerLoop G a srv n)") (auto simp: loopInv_def)
  qed
  ultimately show ?thesis using inv [of n] script by (auto simp: loopInv_def)
qed

text \<open>Two peers that appear one after the other; the domain is read from a resolver configuration.\<close>

definition sampleFlags :: pfflags where
  "sampleFlags = \<lparr>onChange = ''change'', onStart = ''start'', svcFlag = ''db'', nsFlag = ''ns'', domainFlag = []\<rparr>"

definition samplePfEnv :: pfenv where
  "samplePfEnv = \<lparr>PfGetenv = (\<lambda>v. []), PfHostname = Inr ''h'',
     PfResolvConf = Inr (''search ns.svc.cc svc.cc'' @ [CHR 0x0A]), PfShell = (\<lambda>h c. None)\<rparr>"

definition sampleArgs :: pfargs where
  "sampleArgs = \<lparr>ArgService = ''db'', ArgMyName = ''h.db.ns.svc.cc'', ArgFirstScript = ''start'', ArgOnChange = ''change''\<rparr>"

definition sampleSrv :: "nat \<Rightarrow> go_error + string list" where
  "sampleSrv n = Inr (if n = 0 then [''h.db.ns.svc.cc.''] else [''h.db.ns.svc.cc.'', ''g.db.ns.svc.cc.''])"

lemma sample_prepared: "pfPrepare samplePfEnv sampleFlags = Inr sampleArgs"
  by code_simp

theorem peerfinder_runs_witness:
  "wellRun sampleArgs (peerLoop samplePfEnv sampleArgs sampleSrv 3) \<and>
   PfRuns (peerLoop samplePfEnv sampleArgs sampleSrv 3) =
     [(''start'', [''h.db.ns.svc.cc'']), (''change'', [''g.db.ns.svc.cc'', ''h.db.ns.svc.cc''])]"
proof -
  have "PfRuns (peerLoop samplePfEnv sampleArgs sampleSrv 3) =
     [(''start'', [''h.db.ns.svc.cc'']), (''change'', [''g.db.ns.svc.cc'', ''h.db.ns.svc.cc''])]"
    by code_simp
  with peerfinder_runs [OF sample_prepared, of sampleSrv 3 0] show ?thesis by blast
qed

end
