(* ===== verification/HeapViews.thy ===== *)
theory HeapViews
  imports Prelude
begin

text \<open>
  Data in memory, for the copy functions of the API types. A heap is the list of its cells, an address
  a position in it, and allocation appends; \<open>hm\<close> is the type of a computation on the heap.

  \<^item> \<open>builds h0 m R\<close>: started in an extension of \<open>h0\<close>, the computation only adds cells, and \<open>R\<close> holds
    of its result. There is one rule per way of composing computations.
  \<^item> A \<open>view\<close> of a type says when an object of it is intact, which value it stands for, and which
    addresses it owns. \<open>lawful\<close> views depend on the cells they own and on nothing else.
  \<^item> \<open>copies V m\<close>: the computation \<open>m\<close> makes a copy with respect to \<open>V\<close>: the same value, owning only
    new cells. The rules in \<open>copy_rules\<close> follow the types: pointers, slices, maps and structs.
\<close>

named_theorems copy_rules "the copy of a composed type is composed of copies"

section \<open>Computations on a heap\<close>

type_synonym 'c heap = "'c list"
type_synonym ('c, 'a) hm = "'c heap \<Rightarrow> 'a \<times> 'c heap"

definition hret :: "'a \<Rightarrow> ('c, 'a) hm" where
  "hret x = (\<lambda>h. (x, h))"

definition hbind :: "('c, 'a) hm \<Rightarrow> ('a \<Rightarrow> ('c, 'b) hm) \<Rightarrow> ('c, 'b) hm" where
  "hbind m f = (\<lambda>h. case m h of (x, h') \<Rightarrow> f x h')"

definition alloc :: "'c \<Rightarrow> ('c, nat) hm" where
  "alloc c = (\<lambda>h. (length h, h @ [c]))"

fun hmap :: "('a \<Rightarrow> ('c, 'b) hm) \<Rightarrow> 'a list \<Rightarrow> ('c, 'b list) hm" where
  "hmap m [] = hret []"
| "hmap m (x # xs) = hbind (m x) (\<lambda>y. hbind (hmap m xs) (\<lambda>ys. hret (y # ys)))"

lemma hbind_simps [simp]:
  "hbind (hret x) f = f x" "hbind m hret = m" "hbind (hbind m f) g = hbind m (\<lambda>x. hbind (f x) g)"
  by (auto simp: hbind_def hret_def fun_eq_iff split: prod.splits)

section \<open>Building\<close>

definition extends :: "'c heap \<Rightarrow> 'c heap \<Rightarrow> bool" where
  "extends h h' \<longleftrightarrow> take (length h) h' = h"

definition builds :: "'c heap \<Rightarrow> ('c, 'a) hm \<Rightarrow> ('a \<Rightarrow> 'c heap \<Rightarrow> bool) \<Rightarrow> bool" where
  "builds h0 m R \<longleftrightarrow> (\<forall>h. extends h0 h \<longrightarrow> extends h (snd (m h)) \<and> R (fst (m h)) (snd (m h)))"

definition stable :: "('c heap \<Rightarrow> bool) \<Rightarrow> bool" where
  "stable R \<longleftrightarrow> (\<forall>h h'. R h \<longrightarrow> extends h h' \<longrightarrow> R h')"

lemma extends_append [simp]: "extends h (h @ t)"
  by (simp add: extends_def)

lemma extends_refl [simp]: "extends h h"
  by (simp add: extends_def)

lemma extends_iff: "extends h h' \<longleftrightarrow> (\<exists>t. h' = h @ t)"
  unfolding extends_def by (metis append_take_drop_id append_eq_conv_conj)

lemma extends_trans: "extends h1 h2 \<Longrightarrow> extends h2 h3 \<Longrightarrow> extends h1 h3"
  by (auto simp: extends_iff)

lemma extends_length: "extends h h' \<Longrightarrow> length h \<le> length h'"
  by (auto simp: extends_iff)

lemma extends_nth: "extends h h' \<Longrightarrow> a < length h \<Longrightarrow> h' ! a = h ! a"
  by (auto simp: extends_iff nth_append)

lemma buildsD:
  "builds h0 m R \<Longrightarrow> extends h0 h \<Longrightarrow> extends h (snd (m h))"
  "builds h0 m R \<Longrightarrow> extends h0 h \<Longrightarrow> R (fst (m h)) (snd (m h))"
  by (simp_all add: builds_def)

lemma builds_mono:
  assumes "builds h0 m R" and "\<And>y h. R y h \<Longrightarrow> S y h"
  shows "builds h0 m S"
  using assms unfolding builds_def by simp

lemma builds_hret: "(\<And>h. extends h0 h \<Longrightarrow> R x h) \<Longrightarrow> builds h0 (hret x) R"
  by (simp add: builds_def hret_def)

lemma builds_alloc: "(\<And>h. extends h0 h \<Longrightarrow> R (length h) (h @ [c])) \<Longrightarrow> builds h0 (alloc c) R"
  by (simp add: builds_def alloc_def)

lemma builds_hbind:
  assumes "builds h0 m R" and "\<And>y. stable (R y)" and "\<And>y. builds h0 (f y) (S y)"
    and "\<And>y z h. extends h0 h \<Longrightarrow> R y h \<Longrightarrow> S y z h \<Longrightarrow> T z h"
  shows "builds h0 (hbind m f) T"
  unfolding builds_def
proof (intro allI impI)
  fix h
  assume h: "extends h0 h"
  obtain y h1 where m: "m h = (y, h1)" by (cases "m h")
  have 1: "extends h h1" "R y h1" using buildsD [OF assms(1) h] m by simp_all
  have h1: "extends h0 h1" by (rule extends_trans [OF h 1(1)])
  obtain z h2 where f: "f y h1 = (z, h2)" by (cases "f y h1")
  have 2: "extends h1 h2" "S y z h2" using buildsD [OF assms(3) h1, of y] f by simp_all
  have "R y h2" using assms(2) [of y] 1(2) 2(1) unfolding stable_def by blast
  then have "T z h2" using assms(4) extends_trans [OF h1 2(1)] 2(2) by blast
  then show "extends h (snd (hbind m f h)) \<and> T (fst (hbind m f h)) (snd (hbind m f h))"
    using m f extends_trans [OF 1(1) 2(1)] by (simp add: hbind_def)
qed

lemma stable_list_all2:
  assumes "\<And>x y. stable (R x y)"
  shows "stable (\<lambda>h. list_all2 (\<lambda>x y. R x y h) xs ys)"
  unfolding stable_def
proof (intro allI impI)
  fix h h'
  assume "list_all2 (\<lambda>x y. R x y h) xs ys" "extends h h'"
  then show "list_all2 (\<lambda>x y. R x y h') xs ys"
    by (elim list_all2_mono) (use assms in \<open>unfold stable_def, blast\<close>)
qed

lemma builds_hmap:
  assumes "\<And>x. x \<in> set xs \<Longrightarrow> builds h0 (m x) (R x)" and "\<And>x y. stable (R x y)"
  shows "builds h0 (hmap m xs) (\<lambda>ys h. list_all2 (\<lambda>x y. R x y h) xs ys)"
  using assms(1)
proof (induction xs)
  case Nil
  show ?case unfolding hmap.simps by (rule builds_hret) simp
next
  case (Cons x xs)
  have head: "builds h0 (m x) (R x)" using Cons.prems by simp
  have tail: "builds h0 (hmap m xs) (\<lambda>ys h. list_all2 (\<lambda>x y. R x y h) xs ys)" using Cons by simp
  have "builds h0 (hbind (hmap m xs) (\<lambda>ys. hret (y # ys)))
      (\<lambda>zs h. \<exists>ys. zs = y # ys \<and> list_all2 (\<lambda>x y. R x y h) xs ys)" for y
    by (rule builds_hbind [OF tail stable_list_all2 [OF assms(2)], where S = "\<lambda>ys zs h. zs = y # ys"])
      (auto intro: builds_hret)
  then show ?case
    unfolding hmap.simps
    by (rule builds_hbind [OF head assms(2)]) auto
qed

section \<open>Views\<close>

record ('c, 'a, 'v) view =
  okV :: "'c heap \<Rightarrow> 'a \<Rightarrow> bool"
  readV :: "'c heap \<Rightarrow> 'a \<Rightarrow> 'v"
  reachV :: "'c heap \<Rightarrow> 'a \<Rightarrow> nat set"

definition agree :: "nat set \<Rightarrow> 'c heap \<Rightarrow> 'c heap \<Rightarrow> bool" where
  "agree A h h' \<longleftrightarrow> (\<forall>a \<in> A. a < length h' \<and> h' ! a = h ! a)"

definition sameIn :: "('c, 'a, 'v) view \<Rightarrow> 'c heap \<Rightarrow> 'c heap \<Rightarrow> 'a \<Rightarrow> bool" where
  "sameIn V h h' x \<longleftrightarrow> okV V h' x \<and> readV V h' x = readV V h x \<and> reachV V h' x = reachV V h x"

definition lawful :: "('c, 'a, 'v) view \<Rightarrow> bool" where
  "lawful V \<longleftrightarrow> (\<forall>h x. okV V h x \<longrightarrow> reachV V h x \<subseteq> {..<length h} \<and>
     (\<forall>h'. agree (reachV V h x) h h' \<longrightarrow> sameIn V h h' x))"

text \<open>A copy made since \<open>h0\<close> of something with the value \<open>v\<close>.\<close>

definition isCopy :: "('c, 'a, 'v) view \<Rightarrow> 'c heap \<Rightarrow> 'v \<Rightarrow> 'a \<Rightarrow> 'c heap \<Rightarrow> bool" where
  "isCopy V h0 v y h \<longleftrightarrow> okV V h y \<and> readV V h y = v \<and> reachV V h y \<subseteq> {length h0..<length h}"

definition copies :: "('c, 'a, 'v) view \<Rightarrow> ('a \<Rightarrow> ('c, 'a) hm) \<Rightarrow> bool" where
  "copies V m \<longleftrightarrow> lawful V \<and> (\<forall>h0 x. okV V h0 x \<longrightarrow> builds h0 (m x) (isCopy V h0 (readV V h0 x)))"

lemma agree_Un [simp]: "agree (A \<union> B) h h' \<longleftrightarrow> agree A h h' \<and> agree B h h'"
  by (auto simp: agree_def)

lemma agree_empty [simp]: "agree {} h h'"
  by (simp add: agree_def)

lemma agree_insert [simp]: "agree (insert a A) h h' \<longleftrightarrow> (a < length h' \<and> h' ! a = h ! a) \<and> agree A h h'"
  by (auto simp: agree_def)

lemma lawful_inside: "lawful V \<Longrightarrow> okV V h x \<Longrightarrow> reachV V h x \<subseteq> {..<length h}"
  unfolding lawful_def by blast

lemma lawful_frame: "lawful V \<Longrightarrow> okV V h x \<Longrightarrow> agree (reachV V h x) h h' \<Longrightarrow> sameIn V h h' x"
  unfolding lawful_def by blast

lemma lawfulI:
  assumes "\<And>h x. okV V h x \<Longrightarrow> reachV V h x \<subseteq> {..<length h}"
    and "\<And>h h' x. okV V h x \<Longrightarrow> agree (reachV V h x) h h' \<Longrightarrow> sameIn V h h' x"
  shows "lawful V"
  using assms unfolding lawful_def by blast

lemma agree_extends: "A \<subseteq> {..<length h} \<Longrightarrow> extends h h' \<Longrightarrow> agree A h h'"
  unfolding agree_def using extends_nth extends_length by (metis (no_types) lessThan_iff order_less_le_trans subsetD)

lemma agree_update: "A \<subseteq> {..<length h} \<Longrightarrow> b \<notin> A \<Longrightarrow> agree A h (h[b := c])"
  unfolding agree_def by (metis length_list_update lessThan_iff nth_list_update_neq subsetD)

lemma agree_trans: "agree A h1 h2 \<Longrightarrow> agree A h2 h3 \<Longrightarrow> agree A h1 h3"
  by (simp add: agree_def)

lemma lawful_extends: "lawful V \<Longrightarrow> okV V h x \<Longrightarrow> extends h h' \<Longrightarrow> sameIn V h h' x"
  by (rule lawful_frame) (simp_all add: agree_extends lawful_inside)

lemma stable_isCopy:
  assumes "lawful V"
  shows "stable (isCopy V h0 v y)"
  unfolding stable_def
proof (intro allI impI)
  fix h h'
  assume c: "isCopy V h0 v y h" and e: "extends h h'"
  then have "sameIn V h h' y" by (intro lawful_extends [OF assms]) (simp_all add: isCopy_def)
  moreover have "{length h0..<length h} \<subseteq> {length h0..<length h'}" using extends_length [OF e] by auto
  ultimately show "isCopy V h0 v y h'" using c unfolding isCopy_def sameIn_def by blast
qed

lemma copies_lawful: "copies V m \<Longrightarrow> lawful V"
  by (simp add: copies_def)

lemma copies_builds: "copies V m \<Longrightarrow> okV V h0 x \<Longrightarrow> builds h0 (m x) (isCopy V h0 (readV V h0 x))"
  by (simp add: copies_def)

lemma copiesI:
  assumes "lawful V" and "\<And>h0 x. okV V h0 x \<Longrightarrow> builds h0 (m x) (isCopy V h0 (readV V h0 x))"
  shows "copies V m"
  using assms by (simp add: copies_def)

section \<open>Values without addresses\<close>

definition plainView :: "('c, 'a, 'a) view" where
  "plainView = \<lparr>okV = \<lambda>h x. True, readV = \<lambda>h x. x, reachV = \<lambda>h x. {}\<rparr>"

lemma copies_plain [copy_rules]: "copies plainView hret"
  by (rule copiesI, rule lawfulI)
    (auto simp: plainView_def sameIn_def isCopy_def intro: builds_hret)

section \<open>Pairs\<close>

definition pairView :: "('c, 'a, 'v) view \<Rightarrow> ('c, 'b, 'w) view \<Rightarrow> ('c, 'a \<times> 'b, 'v \<times> 'w) view" where
  "pairView V W = \<lparr>okV = \<lambda>h (x, y). okV V h x \<and> okV W h y, readV = \<lambda>h (x, y). (readV V h x, readV W h y),
     reachV = \<lambda>h (x, y). reachV V h x \<union> reachV W h y\<rparr>"

definition pairCopy :: "('a \<Rightarrow> ('c, 'a) hm) \<Rightarrow> ('b \<Rightarrow> ('c, 'b) hm) \<Rightarrow> 'a \<times> 'b \<Rightarrow> ('c, 'a \<times> 'b) hm" where
  "pairCopy m n = (\<lambda>(x, y). hbind (m x) (\<lambda>x'. hbind (n y) (\<lambda>y'. hret (x', y'))))"

lemma pairView_simps [simp]:
  "okV (pairView V W) h (x, y) \<longleftrightarrow> okV V h x \<and> okV W h y"
  "readV (pairView V W) h (x, y) = (readV V h x, readV W h y)"
  "reachV (pairView V W) h (x, y) = reachV V h x \<union> reachV W h y"
  by (simp_all add: pairView_def)

lemma lawful_pair:
  assumes "lawful V" and "lawful W"
  shows "lawful (pairView V W)"
proof (rule lawfulI)
  fix h and p :: "'b \<times> 'd"
  assume "okV (pairView V W) h p"
  moreover obtain x y where p: "p = (x, y)" by (cases p)
  ultimately have ok: "okV V h x" "okV W h y" by simp_all
  show "reachV (pairView V W) h p \<subseteq> {..<length h}"
    unfolding p pairView_simps using lawful_inside [OF assms(1) ok(1)] lawful_inside [OF assms(2) ok(2)] by (rule Un_least)
  fix h'
  assume "agree (reachV (pairView V W) h p) h h'"
  then have "sameIn V h h' x" "sameIn W h h' y"
    using lawful_frame [OF assms(1) ok(1)] lawful_frame [OF assms(2) ok(2)] by (simp_all add: p)
  then show "sameIn (pairView V W) h h' p" by (simp add: p sameIn_def)
qed

lemma copies_pair [copy_rules]:
  assumes "copies V m" and "copies W n"
  shows "copies (pairView V W) (pairCopy m n)"
proof (rule copiesI)
  show "lawful (pairView V W)" by (rule lawful_pair [OF copies_lawful [OF assms(1)] copies_lawful [OF assms(2)]])
  fix h0 and p :: "'b \<times> 'd"
  assume "okV (pairView V W) h0 p"
  moreover obtain x y where p: "p = (x, y)" by (cases p)
  ultimately have ok: "okV V h0 x" "okV W h0 y" by simp_all
  note vx = copies_builds [OF assms(1) ok(1)] and vy = copies_builds [OF assms(2) ok(2)]
  note sx = stable_isCopy [OF copies_lawful [OF assms(1)]] and sy = stable_isCopy [OF copies_lawful [OF assms(2)]]
  have ret: "builds h0 (hret (x', y')) (\<lambda>z h. z = (x', y'))" for x' y'
    by (rule builds_hret) simp
  have second: "builds h0 (hbind (n y) (\<lambda>y'. hret (x', y')))
      (\<lambda>z h. \<exists>y'. z = (x', y') \<and> isCopy W h0 (readV W h0 y) y' h)" for x'
    by (rule builds_hbind [OF vy sy ret]) blast
  show "builds h0 (pairCopy m n p) (isCopy (pairView V W) h0 (readV (pairView V W) h0 p))"
    unfolding pairCopy_def p prod.case
  proof (rule builds_hbind [OF vx sx second])
    fix x' z h
    assume c: "isCopy V h0 (readV V h0 x) x' h" "\<exists>y'. z = (x', y') \<and> isCopy W h0 (readV W h0 y) y' h"
    then obtain y' where z: "z = (x', y')" "isCopy W h0 (readV W h0 y) y' h" by blast
    with c(1) show "isCopy (pairView V W) h0 (readV (pairView V W) h0 (x, y)) z h" by (simp add: isCopy_def)
  qed
qed

section \<open>Structs\<close>

text \<open>
  A struct with the fields \<open>sel\<close> that hold addresses and the rest that does not: the copy starts from
  a flat copy and replaces the former. \<open>rd\<close> is its value, given the values of the fields.
\<close>

definition structView :: "('a \<Rightarrow> 'b) \<Rightarrow> ('a \<Rightarrow> 'v \<Rightarrow> 'w) \<Rightarrow> ('c, 'b, 'v) view \<Rightarrow> ('c, 'a, 'w) view" where
  "structView sel rd V = \<lparr>okV = \<lambda>h x. okV V h (sel x), readV = \<lambda>h x. rd x (readV V h (sel x)),
     reachV = \<lambda>h x. reachV V h (sel x)\<rparr>"

definition structCopy :: "('a \<Rightarrow> 'b) \<Rightarrow> ('a \<Rightarrow> 'b \<Rightarrow> 'a) \<Rightarrow> ('b \<Rightarrow> ('c, 'b) hm) \<Rightarrow> 'a \<Rightarrow> ('c, 'a) hm" where
  "structCopy sel upd m = (\<lambda>x. hbind (m (sel x)) (\<lambda>t. hret (upd x t)))"

lemma structView_simps [simp]:
  "okV (structView sel rd V) h x = okV V h (sel x)"
  "readV (structView sel rd V) h x = rd x (readV V h (sel x))"
  "reachV (structView sel rd V) h x = reachV V h (sel x)"
  by (simp_all add: structView_def)

lemma lawful_struct: "lawful V \<Longrightarrow> lawful (structView sel rd V)"
  by (rule lawfulI) (auto dest: lawful_inside lawful_frame simp: sameIn_def)

lemma copies_struct:
  assumes "copies V m" and "\<And>x t. sel (upd x t) = t" and "\<And>x t. rd (upd x t) = rd x"
  shows "copies (structView sel rd V) (structCopy sel upd m)"
proof (rule copiesI)
  show "lawful (structView sel rd V)" by (rule lawful_struct [OF copies_lawful [OF assms(1)]])
  fix h0 x
  assume "okV (structView sel rd V) h0 x"
  then have v: "builds h0 (m (sel x)) (isCopy V h0 (readV V h0 (sel x)))" by (intro copies_builds [OF assms(1)]) simp
  have ret: "builds h0 (hret (upd x t)) (\<lambda>z h. z = upd x t)" for t by (rule builds_hret) simp
  show "builds h0 (structCopy sel upd m x) (isCopy (structView sel rd V) h0 (readV (structView sel rd V) h0 x))"
    unfolding structCopy_def
    by (rule builds_hbind [OF v stable_isCopy [OF copies_lawful [OF assms(1)]] ret]) (simp add: isCopy_def assms(2,3))
qed

section \<open>Slices and maps\<close>

definition listView :: "('c, 'a, 'v) view \<Rightarrow> ('c, 'a list, 'v list) view" where
  "listView V = \<lparr>okV = \<lambda>h xs. \<forall>x \<in> set xs. okV V h x, readV = \<lambda>h xs. map (readV V h) xs,
     reachV = \<lambda>h xs. \<Union> (reachV V h ` set xs)\<rparr>"

lemma listView_simps [simp]:
  "okV (listView V) h xs \<longleftrightarrow> (\<forall>x \<in> set xs. okV V h x)"
  "readV (listView V) h xs = map (readV V h) xs"
  "reachV (listView V) h xs = \<Union> (reachV V h ` set xs)"
  by (simp_all add: listView_def)

lemma agree_UN: "agree (\<Union> (A ` S)) h h' \<Longrightarrow> x \<in> S \<Longrightarrow> agree (A x) h h'"
  by (auto simp: agree_def)

lemma lawful_list:
  assumes "lawful V"
  shows "lawful (listView V)"
proof (rule lawfulI)
  fix h and xs :: "'b list"
  assume ok: "okV (listView V) h xs"
  then show "reachV (listView V) h xs \<subseteq> {..<length h}"
    using lawful_inside [OF assms] by (simp add: UN_least)
  fix h'
  assume agr: "agree (reachV (listView V) h xs) h h'"
  have "sameIn V h h' x" if "x \<in> set xs" for x
    using ok agr that by (intro lawful_frame [OF assms]) (auto dest: agree_UN)
  then show "sameIn (listView V) h h' xs" by (simp add: sameIn_def)
qed

lemma isCopy_list:
  assumes "list_all2 (\<lambda>x y. isCopy V h0 (f x) y h) xs ys"
  shows "isCopy (listView V) h0 (map f xs) ys h"
  using assms by (induction rule: list_all2_induct) (auto simp: isCopy_def)

lemma copies_list [copy_rules]:
  assumes "copies V m"
  shows "copies (listView V) (hmap m)"
proof (rule copiesI)
  show "lawful (listView V)" by (rule lawful_list [OF copies_lawful [OF assms]])
  fix h0 xs
  assume ok: "okV (listView V) h0 xs"
  have "builds h0 (hmap m xs) (\<lambda>ys h. list_all2 (\<lambda>x y. isCopy V h0 (readV V h0 x) y h) xs ys)"
    using ok by (intro builds_hmap copies_builds [OF assms] stable_isCopy [OF copies_lawful [OF assms]]) simp
  then show "builds h0 (hmap m xs) (isCopy (listView V) h0 (readV (listView V) h0 xs))"
    unfolding listView_simps by (rule builds_mono) (rule isCopy_list)
qed

text \<open>
  A map is the association list of its entries, and its value the list of the entries by increasing key.
  The copy visits the keys in an order the runtime picks.
\<close>

definition entryAt :: "(string \<times> 'a) list \<Rightarrow> string \<Rightarrow> 'a" where
  "entryAt kvs k = the (map_of kvs k)"

definition mapView :: "('c, 'a, 'v) view \<Rightarrow> ('c, (string \<times> 'a) list, (string \<times> 'v) list) view" where
  "mapView V = \<lparr>okV = \<lambda>h kvs. distinct (map fst kvs) \<and> (\<forall>kv \<in> set kvs. okV V h (snd kv)),
     readV = \<lambda>h kvs. map (\<lambda>k. (k, readV V h (entryAt kvs k))) (sort (map fst kvs)),
     reachV = \<lambda>h kvs. \<Union> (reachV V h ` snd ` set kvs)\<rparr>"

definition mapCopy ::
  "(nat \<Rightarrow> string list) \<Rightarrow> ('a \<Rightarrow> ('c, 'a) hm) \<Rightarrow> (string \<times> 'a) list \<Rightarrow> ('c, (string \<times> 'a) list) hm" where
  "mapCopy ord m kvs = (\<lambda>h. hmap (\<lambda>k. hbind (m (entryAt kvs k)) (\<lambda>v. hret (k, v)))
     (range_keys (ord (length h)) (map fst kvs)) h)"

lemma mapView_simps [simp]:
  "okV (mapView V) h kvs \<longleftrightarrow> distinct (map fst kvs) \<and> (\<forall>kv \<in> set kvs. okV V h (snd kv))"
  "readV (mapView V) h kvs = map (\<lambda>k. (k, readV V h (entryAt kvs k))) (sort (map fst kvs))"
  "reachV (mapView V) h kvs = \<Union> (reachV V h ` snd ` set kvs)"
  by (simp_all add: mapView_def)

lemma entryAt_in: "distinct (map fst kvs) \<Longrightarrow> k \<in> set (map fst kvs) \<Longrightarrow> (k, entryAt kvs k) \<in> set kvs"
  by (auto simp: entryAt_def)

lemma entryAt_eq: "distinct (map fst kvs) \<Longrightarrow> (k, v) \<in> set kvs \<Longrightarrow> entryAt kvs k = v"
  by (simp add: entryAt_def)

lemma lawful_map:
  assumes "lawful V"
  shows "lawful (mapView V)"
proof (rule lawfulI)
  fix h and kvs :: "(string \<times> 'b) list"
  assume ok: "okV (mapView V) h kvs"
  then show "reachV (mapView V) h kvs \<subseteq> {..<length h}"
    using lawful_inside [OF assms] by (simp add: UN_least)
  fix h'
  assume agr: "agree (reachV (mapView V) h kvs) h h'"
  have same: "sameIn V h h' (snd kv)" if "kv \<in> set kvs" for kv
    using ok agr that by (intro lawful_frame [OF assms]) (auto dest: agree_UN)
  then have "readV V h' (entryAt kvs k) = readV V h (entryAt kvs k)" if "k \<in> set (map fst kvs)" for k
    using entryAt_in [of kvs k] ok that by (force simp: sameIn_def)
  with same ok show "sameIn (mapView V) h h' kvs" by (simp add: sameIn_def)
qed

lemma builds_choice: "(\<And>z. builds h0 (F z) R) \<Longrightarrow> builds h0 (\<lambda>h. F (g h) h) R"
  by (simp add: builds_def)

lemma isCopy_map:
  assumes "distinct ks" and "sort ks = sort (map fst kvs)"
    and "list_all2 (\<lambda>k kv. fst kv = k \<and> isCopy V h0 (readV V h0 (entryAt kvs k)) (snd kv) h) ks ys"
  shows "isCopy (mapView V) h0 (readV (mapView V) h0 kvs) ys h"
proof -
  have keys: "map fst ys = ks" using assms(3) by (induction rule: list_all2_induct) auto
  have entry: "isCopy V h0 (readV V h0 (entryAt kvs (fst kv))) (snd kv) h" if "kv \<in> set ys" for kv
    using assms(3) that by (induction rule: list_all2_induct) auto
  have "readV V h (entryAt ys k) = readV V h0 (entryAt kvs k)" if "k \<in> set ks" for k
    using entry [OF entryAt_in [of ys k]] that keys assms(1) by (simp add: isCopy_def)
  then have "readV (mapView V) h ys = readV (mapView V) h0 kvs"
    using assms(2) [symmetric] by (simp add: keys)
  moreover have "okV (mapView V) h ys" "reachV (mapView V) h ys \<subseteq> {length h0..<length h}"
    using entry assms(1) keys by (auto simp: isCopy_def)
  ultimately show ?thesis unfolding isCopy_def by blast
qed

lemma copies_map [copy_rules]:
  assumes "copies V m"
  shows "copies (mapView V) (mapCopy ord m)"
proof (rule copiesI)
  show "lawful (mapView V)" by (rule lawful_map [OF copies_lawful [OF assms]])
  fix h0 kvs
  assume ok: "okV (mapView V) h0 kvs"
  note st = stable_isCopy [OF copies_lawful [OF assms]]
  let ?R = "\<lambda>k kv h. fst kv = k \<and> isCopy V h0 (readV V h0 (entryAt kvs k)) (snd kv) h"
  have entry: "builds h0 (hbind (m (entryAt kvs k)) (\<lambda>v. hret (k, v))) (?R k)" if "k \<in> set (map fst kvs)" for k
  proof -
    have "okV V h0 (entryAt kvs k)" using ok entryAt_in [of kvs k] that by fastforce
    note b = copies_builds [OF assms this]
    have ret: "builds h0 (hret (k, v)) (\<lambda>z h. z = (k, v))" for v by (rule builds_hret) simp
    show ?thesis by (rule builds_hbind [OF b st ret]) simp
  qed
  have "stable (?R k kv)" for k kv using st unfolding stable_def by blast
  then have "builds h0 (hmap (\<lambda>k. hbind (m (entryAt kvs k)) (\<lambda>v. hret (k, v))) (range_keys p (map fst kvs)))
      (\<lambda>ys h. list_all2 (\<lambda>k kv. ?R k kv h) (range_keys p (map fst kvs)) ys)" for p
    by (intro builds_hmap entry) simp_all
  then have "builds h0 (hmap (\<lambda>k. hbind (m (entryAt kvs k)) (\<lambda>v. hret (k, v))) (range_keys p (map fst kvs)))
      (isCopy (mapView V) h0 (readV (mapView V) h0 kvs))" for p
    by (rule builds_mono) (rule isCopy_map, use ok in \<open>simp_all add: sort_range_keys\<close>)
  then show "builds h0 (mapCopy ord m kvs) (isCopy (mapView V) h0 (readV (mapView V) h0 kvs))"
    unfolding mapCopy_def by (rule builds_choice)
qed

section \<open>Pointers\<close>

text \<open>
  A pointer, \<open>None\<close> for nil, to a cell of one type: \<open>mk\<close> makes such a cell and \<open>un\<close> reads it. Slices
  and maps are pointers to the cell with their elements.
\<close>

definition refView :: "('c \<Rightarrow> 'a option) \<Rightarrow> ('c, 'a, 'v) view \<Rightarrow> ('c, nat option, 'v option) view" where
  "refView un V = \<lparr>
     okV = \<lambda>h p. (case p of None \<Rightarrow> True
       | Some a \<Rightarrow> a < length h \<and> (case un (h ! a) of None \<Rightarrow> False | Some x \<Rightarrow> okV V h x)),
     readV = \<lambda>h p. (case p of None \<Rightarrow> None | Some a \<Rightarrow> map_option (readV V h) (un (h ! a))),
     reachV = \<lambda>h p. (case p of None \<Rightarrow> {}
       | Some a \<Rightarrow> insert a (case un (h ! a) of None \<Rightarrow> {} | Some x \<Rightarrow> reachV V h x))\<rparr>"

definition refCopy :: "('a \<Rightarrow> 'c) \<Rightarrow> ('c \<Rightarrow> 'a option) \<Rightarrow> ('a \<Rightarrow> ('c, 'a) hm) \<Rightarrow> nat option \<Rightarrow> ('c, nat option) hm" where
  "refCopy mk un m p =
     (case p of
        None \<Rightarrow> hret None
      | Some a \<Rightarrow> (\<lambda>h. case un (h ! a) of
          None \<Rightarrow> (None, h)
        | Some x \<Rightarrow> hbind (m x) (\<lambda>y. hbind (alloc (mk y)) (\<lambda>b. hret (Some b))) h))"

lemma refView_None [simp]:
  "okV (refView un V) h None" "readV (refView un V) h None = None" "reachV (refView un V) h None = {}"
  by (simp_all add: refView_def)

lemma refView_Some:
  assumes "un (h ! a) = Some x"
  shows "okV (refView un V) h (Some a) \<longleftrightarrow> a < length h \<and> okV V h x"
    and "readV (refView un V) h (Some a) = Some (readV V h x)"
    and "reachV (refView un V) h (Some a) = insert a (reachV V h x)"
  using assms by (simp_all add: refView_def)

lemma refView_SomeD:
  "okV (refView un V) h (Some a) \<Longrightarrow> \<exists>x. un (h ! a) = Some x \<and> a < length h \<and> okV V h x"
  by (auto simp: refView_def split: option.splits)

lemma lawful_ref:
  assumes "lawful V"
  shows "lawful (refView un V)"
proof (rule lawfulI)
  fix h h' and p :: "nat option"
  assume ok: "okV (refView un V) h p"
  show "reachV (refView un V) h p \<subseteq> {..<length h}"
  proof (cases p)
    case (Some a)
    with ok refView_SomeD obtain x where x: "un (h ! a) = Some x" "a < length h" "okV V h x" by blast
    then show ?thesis using lawful_inside [OF assms x(3)] by (simp add: Some refView_Some [of un h a x])
  qed simp
  assume agr: "agree (reachV (refView un V) h p) h h'"
  show "sameIn (refView un V) h h' p"
  proof (cases p)
    case (Some a)
    with ok refView_SomeD obtain x where x: "un (h ! a) = Some x" "a < length h" "okV V h x" by blast
    with agr Some have a: "a < length h'" "h' ! a = h ! a" "agree (reachV V h x) h h'"
      by (simp_all add: refView_Some [of un h a x])
    then have "un (h' ! a) = Some x" using x(1) by simp
    with lawful_frame [OF assms x(3) a(3)] a(1) x(1) show ?thesis
      by (simp add: Some sameIn_def refView_Some)
  qed (simp add: sameIn_def)
qed

lemma copies_ref:
  assumes "copies V m" and un: "\<And>x. un (mk x) = Some x"
  shows "copies (refView un V) (refCopy mk un m)"
proof (rule copiesI)
  note law = copies_lawful [OF assms(1)]
  show "lawful (refView un V)" by (rule lawful_ref [OF law])
  fix h0 and p :: "nat option"
  assume ok: "okV (refView un V) h0 p"
  show "builds h0 (refCopy mk un m p) (isCopy (refView un V) h0 (readV (refView un V) h0 p))"
  proof (cases p)
    case None
    then show ?thesis by (simp add: refCopy_def builds_hret isCopy_def)
  next
    case (Some a)
    with ok refView_SomeD obtain x where x: "un (h0 ! a) = Some x" "a < length h0" "okV V h0 x" by blast
    have last: "builds h0 (hbind (alloc (mk y)) (\<lambda>b. hret (Some b)))
        (\<lambda>z h. \<exists>b. z = Some b \<and> length h0 \<le> b \<and> b < length h \<and> h ! b = mk y)" for y
      by (auto simp: builds_def hbind_def hret_def alloc_def dest: extends_length)
    have "builds h0 (hbind (m x) (\<lambda>y. hbind (alloc (mk y)) (\<lambda>b. hret (Some b))))
        (isCopy (refView un V) h0 (Some (readV V h0 x)))"
    proof (rule builds_hbind [OF copies_builds [OF assms(1) x(3)] stable_isCopy [OF law] last])
      fix y z h
      assume c: "isCopy V h0 (readV V h0 x) y h"
        and "\<exists>b. z = Some b \<and> length h0 \<le> b \<and> b < length h \<and> h ! b = mk y"
      then obtain b where b: "z = Some b" "length h0 \<le> b" "b < length h" "un (h ! b) = Some y" using un by auto
      with c show "isCopy (refView un V) h0 (Some (readV V h0 x)) z h"
        by (simp add: isCopy_def refView_Some [of un h b y])
    qed
    moreover have "refCopy mk un m p h = hbind (m x) (\<lambda>y. hbind (alloc (mk y)) (\<lambda>b. hret (Some b))) h"
      if "extends h0 h" for h
      using x(1) extends_nth [OF that x(2)] by (simp add: refCopy_def Some)
    ultimately show ?thesis by (simp add: builds_def Some refView_Some [of un h0 a x] x(1))
  qed
qed

section \<open>Independence\<close>

text \<open>
  What a copy is for: its value is that of the original, the two own no common cell, and writing to a
  cell of one does not change the value of the other.
\<close>

lemma copies_independent:
  assumes "copies V m" and "okV V h x" and "m x h = (y, h')"
  shows "okV V h' y" and "okV V h' x" and "readV V h' y = readV V h x" and "readV V h' x = readV V h x"
    and "reachV V h' x \<inter> reachV V h' y = {}"
    and "a \<in> reachV V h' x \<Longrightarrow> readV V (h'[a := c]) y = readV V h x"
    and "a \<in> reachV V h' y \<Longrightarrow> readV V (h'[a := c]) x = readV V h x"
proof -
  note law = copies_lawful [OF assms(1)]
  have ext: "extends h h'" and copy: "isCopy V h (readV V h x) y h'"
    using buildsD [OF copies_builds [OF assms(1,2)], of h] assms(3) by simp_all
  then show oky: "okV V h' y" and ready: "readV V h' y = readV V h x" by (simp_all add: isCopy_def)
  have same: "sameIn V h h' x" by (rule lawful_extends [OF law assms(2) ext])
  then show okx: "okV V h' x" and readx: "readV V h' x = readV V h x" by (simp_all add: sameIn_def)
  have "reachV V h' x \<subseteq> {..<length h}" "reachV V h' y \<subseteq> {length h..<length h'}"
    using same copy lawful_inside [OF law assms(2)] by (simp_all add: sameIn_def isCopy_def)
  then show disj: "reachV V h' x \<inter> reachV V h' y = {}" by fastforce
  have other: "readV V (h'[a := c]) z = readV V h' z" if "okV V h' z" "a \<notin> reachV V h' z" for z
  proof -
    have "agree (reachV V h' z) h' (h'[a := c])"
      by (rule agree_update [OF lawful_inside [OF law that(1)] that(2)])
    from lawful_frame [OF law that(1) this] show ?thesis by (simp add: sameIn_def)
  qed
  show "a \<in> reachV V h' x \<Longrightarrow> readV V (h'[a := c]) y = readV V h x"
    using other [OF oky] disj ready by auto
  show "a \<in> reachV V h' y \<Longrightarrow> readV V (h'[a := c]) x = readV V h x"
    using other [OF okx] disj readx by auto
qed

end
