(* ===== verification/DeepCopy.thy ===== *)
theory DeepCopy
  imports ApiSpec HeapViews
begin

text \<open>
  pkg/apis/clusterlabs/v1alpha1/zz_generated.deepcopy.go. The other theories work with values; here the
  structs of the API are modelled as they lie in memory, with addresses for pointers, slices and maps, to
  show what the copies are for: a copy has the same value and shares nothing with the original, so that a
  later write to one, as \<^verbatim>\<open>updateCRStatus\<close> and \<^verbatim>\<open>handleUpdateEvent\<close> make, does not change the other.

  \<^item> Each struct is a record with addresses in the place of its pointers, slices and maps, nil being
    \<open>None\<close>. A slice owns the whole array behind it.
  \<^item> The structs of the Kubernetes libraries that occur inside (containers, volumes, metadata, ...) are of
    the parameter type \<open>'k\<close>; their generated copy functions are the field \<open>libCopy\<close> of the parameter
    \<open>copyenv\<close>, with the hypothesis \<open>lib_copies\<close>: they copy too.
  \<^item> Each \<open>...DeepCopyInto\<close> follows the generated statements, one step per field that holds an address;
    the flat copy \<^verbatim>\<open>*out = *in\<close> is the record that is updated. A lemma states it as a composition of the
    copies of \<open>HeapViews\<close>, and \<open>copy_rules\<close> does the rest.
  \<^item> \<open>...DeepCopy\<close> allocates the struct when its fields are complete, since addresses carry no meaning.
\<close>

section \<open>Structs in memory\<close>

record hcommand =
  hTimeout :: "nat option"
  hCommand :: "nat option"

record hpolicy =
  hPolicyNodeSelector :: "nat option"
  hAntiAffinity :: bool
  hAutomount :: "nat option"
  hContainers :: "nat option"
  hVolumes :: "nat option"
  hVolumeClaimTemplates :: "nat option"
  hCommands :: "nat option"
  hSecurityContext :: "nat option"

record hstatic =
  hMember :: "nat option"
  hOperatorSecret :: string

record htls =
  hStatic :: "nat option"

record 'k hspec =
  hReplicas :: "nat option"
  hPrimaries :: "nat option"
  hReconcileInterval :: "nat option"
  hImagePullSecrets :: "nat option"
  hPaused :: bool
  hChaosLevel :: "nat option"
  hPod :: hpolicy
  hServicePorts :: "nat option"
  hTLS :: "nat option"
  hRuleSelector :: "nat option"
  hResources :: 'k
  hNodeSelector :: "nat option"
  hServiceAccountName :: string
  hSecrets :: "nat option"
  hAffinity :: "nat option"
  hTolerations :: "nat option"

record hmembers =
  hReady :: "nat option"
  hUnready :: "nat option"
  hPrimary :: "nat option"
  hSecondary :: "nat option"
  hFailed :: "nat option"

record hstatus =
  hPhase :: string
  hReason :: string
  hControlPaused :: bool
  hConditions :: "nat option"
  hStatusReplicas :: int
  hRestoreReplicas :: int
  hStatusServiceName :: string
  hClientPort :: int
  hMembers :: hmembers
  hCurrentVersion :: string
  hTargetVersion :: string

record 'k hrss =
  hTypeMeta :: "string \<times> string"
  hObjectMeta :: 'k
  hSpec :: "'k hspec"
  hStatus :: hstatus

record hrsslist =
  hListTypeMeta :: "string \<times> string"
  hListMeta :: "string \<times> string"
  hItems :: "nat option"

text \<open>What an address can point to. Integers and references to secrets have cells of their own type.\<close>

datatype 'k cell =
    CInt32 int32
  | CInt int
  | CStr string
  | CBool bool
  | CStrs "string list"
  | CRefs "string list"
  | CMap "(string \<times> string) list"
  | CPorts "serviceport list"
  | CConditions "clustercondition list"
  | CCommands "(string \<times> hcommand) list"
  | CLib 'k
  | CLibs "'k list"
  | CCondition clustercondition
  | CSecret membersecret
  | CCommand hcommand
  | CStatic hstatic
  | CTls htls
  | CPolicy hpolicy
  | CSpec "'k hspec"
  | CMembers hmembers
  | CStatus hstatus
  | CRss "'k hrss"
  | CRsses "'k hrss list"
  | CRssList hrsslist

definition unInt32 :: "'k cell \<Rightarrow> (int32) option" where
  "unInt32 c = (case c of CInt32 x \<Rightarrow> Some x | _ \<Rightarrow> None)"
definition unInt :: "'k cell \<Rightarrow> (int) option" where
  "unInt c = (case c of CInt x \<Rightarrow> Some x | _ \<Rightarrow> None)"
definition unStr :: "'k cell \<Rightarrow> (string) option" where
  "unStr c = (case c of CStr x \<Rightarrow> Some x | _ \<Rightarrow> None)"
definition unBool :: "'k cell \<Rightarrow> (bool) option" where
  "unBool c = (case c of CBool x \<Rightarrow> Some x | _ \<Rightarrow> None)"
definition unStrs :: "'k cell \<Rightarrow> (string list) option" where
  "unStrs c = (case c of CStrs x \<Rightarrow> Some x | _ \<Rightarrow> None)"
definition unRefs :: "'k cell \<Rightarrow> (string list) option" where
  "unRefs c = (case c of CRefs x \<Rightarrow> Some x | _ \<Rightarrow> None)"
definition unMap :: "'k cell \<Rightarrow> ((string \<times> string) list) option" where
  "unMap c = (case c of CMap x \<Rightarrow> Some x | _ \<Rightarrow> None)"
definition unPorts :: "'k cell \<Rightarrow> (serviceport list) option" where
  "unPorts c = (case c of CPorts x \<Rightarrow> Some x | _ \<Rightarrow> None)"
definition unConditions :: "'k cell \<Rightarrow> (clustercondition list) option" where
  "unConditions c = (case c of CConditions x \<Rightarrow> Some x | _ \<Rightarrow> None)"
definition unCommands :: "'k cell \<Rightarrow> ((string \<times> hcommand) list) option" where
  "unCommands c = (case c of CCommands x \<Rightarrow> Some x | _ \<Rightarrow> None)"
definition unLib :: "'k cell \<Rightarrow> ('k) option" where
  "unLib c = (case c of CLib x \<Rightarrow> Some x | _ \<Rightarrow> None)"
definition unLibs :: "'k cell \<Rightarrow> ('k list) option" where
  "unLibs c = (case c of CLibs x \<Rightarrow> Some x | _ \<Rightarrow> None)"
definition unCondition :: "'k cell \<Rightarrow> (clustercondition) option" where
  "unCondition c = (case c of CCondition x \<Rightarrow> Some x | _ \<Rightarrow> None)"
definition unSecret :: "'k cell \<Rightarrow> (membersecret) option" where
  "unSecret c = (case c of CSecret x \<Rightarrow> Some x | _ \<Rightarrow> None)"
definition unCommand :: "'k cell \<Rightarrow> (hcommand) option" where
  "unCommand c = (case c of CCommand x \<Rightarrow> Some x | _ \<Rightarrow> None)"
definition unStatic :: "'k cell \<Rightarrow> (hstatic) option" where
  "unStatic c = (case c of CStatic x \<Rightarrow> Some x | _ \<Rightarrow> None)"
definition unTls :: "'k cell \<Rightarrow> (htls) option" where
  "unTls c = (case c of CTls x \<Rightarrow> Some x | _ \<Rightarrow> None)"
definition unPolicy :: "'k cell \<Rightarrow> (hpolicy) option" where
  "unPolicy c = (case c of CPolicy x \<Rightarrow> Some x | _ \<Rightarrow> None)"
definition unSpec :: "'k cell \<Rightarrow> ('k hspec) option" where
  "unSpec c = (case c of CSpec x \<Rightarrow> Some x | _ \<Rightarrow> None)"
definition unMembers :: "'k cell \<Rightarrow> (hmembers) option" where
  "unMembers c = (case c of CMembers x \<Rightarrow> Some x | _ \<Rightarrow> None)"
definition unStatus :: "'k cell \<Rightarrow> (hstatus) option" where
  "unStatus c = (case c of CStatus x \<Rightarrow> Some x | _ \<Rightarrow> None)"
definition unRss :: "'k cell \<Rightarrow> ('k hrss) option" where
  "unRss c = (case c of CRss x \<Rightarrow> Some x | _ \<Rightarrow> None)"
definition unRsses :: "'k cell \<Rightarrow> ('k hrss list) option" where
  "unRsses c = (case c of CRsses x \<Rightarrow> Some x | _ \<Rightarrow> None)"
definition unRssList :: "'k cell \<Rightarrow> (hrsslist) option" where
  "unRssList c = (case c of CRssList x \<Rightarrow> Some x | _ \<Rightarrow> None)"

lemma un_simps [simp]:
  "unInt32 (CInt32 x0) = Some x0"
  "unInt (CInt x1) = Some x1"
  "unStr (CStr x2) = Some x2"
  "unBool (CBool x3) = Some x3"
  "unStrs (CStrs x4) = Some x4"
  "unRefs (CRefs x5) = Some x5"
  "unMap (CMap x6) = Some x6"
  "unPorts (CPorts x7) = Some x7"
  "unConditions (CConditions x8) = Some x8"
  "unCommands (CCommands x9) = Some x9"
  "unLib (CLib x10) = Some x10"
  "unLibs (CLibs x11) = Some x11"
  "unCondition (CCondition x12) = Some x12"
  "unSecret (CSecret x13) = Some x13"
  "unCommand (CCommand x14) = Some x14"
  "unStatic (CStatic x15) = Some x15"
  "unTls (CTls x16) = Some x16"
  "unPolicy (CPolicy x17) = Some x17"
  "unSpec (CSpec x18) = Some x18"
  "unMembers (CMembers x19) = Some x19"
  "unStatus (CStatus x20) = Some x20"
  "unRss (CRss x21) = Some x21"
  "unRsses (CRsses x22) = Some x22"
  "unRssList (CRssList x23) = Some x23"
  by (simp_all add: unInt32_def unInt_def unStr_def unBool_def unStrs_def unRefs_def unMap_def unPorts_def unConditions_def unCommands_def unLib_def unLibs_def unCondition_def unSecret_def unCommand_def unStatic_def unTls_def unPolicy_def unSpec_def unMembers_def unStatus_def unRss_def unRsses_def unRssList_def)

lemma copies_refs [copy_rules]:
  "copies V0 m0 \<Longrightarrow> copies (refView unInt32 V0) (refCopy CInt32 unInt32 m0)"
  "copies V1 m1 \<Longrightarrow> copies (refView unInt V1) (refCopy CInt unInt m1)"
  "copies V2 m2 \<Longrightarrow> copies (refView unStr V2) (refCopy CStr unStr m2)"
  "copies V3 m3 \<Longrightarrow> copies (refView unBool V3) (refCopy CBool unBool m3)"
  "copies V4 m4 \<Longrightarrow> copies (refView unStrs V4) (refCopy CStrs unStrs m4)"
  "copies V5 m5 \<Longrightarrow> copies (refView unRefs V5) (refCopy CRefs unRefs m5)"
  "copies V6 m6 \<Longrightarrow> copies (refView unMap V6) (refCopy CMap unMap m6)"
  "copies V7 m7 \<Longrightarrow> copies (refView unPorts V7) (refCopy CPorts unPorts m7)"
  "copies V8 m8 \<Longrightarrow> copies (refView unConditions V8) (refCopy CConditions unConditions m8)"
  "copies V9 m9 \<Longrightarrow> copies (refView unCommands V9) (refCopy CCommands unCommands m9)"
  "copies V10 m10 \<Longrightarrow> copies (refView unLib V10) (refCopy CLib unLib m10)"
  "copies V11 m11 \<Longrightarrow> copies (refView unLibs V11) (refCopy CLibs unLibs m11)"
  "copies V12 m12 \<Longrightarrow> copies (refView unCondition V12) (refCopy CCondition unCondition m12)"
  "copies V13 m13 \<Longrightarrow> copies (refView unSecret V13) (refCopy CSecret unSecret m13)"
  "copies V14 m14 \<Longrightarrow> copies (refView unCommand V14) (refCopy CCommand unCommand m14)"
  "copies V15 m15 \<Longrightarrow> copies (refView unStatic V15) (refCopy CStatic unStatic m15)"
  "copies V16 m16 \<Longrightarrow> copies (refView unTls V16) (refCopy CTls unTls m16)"
  "copies V17 m17 \<Longrightarrow> copies (refView unPolicy V17) (refCopy CPolicy unPolicy m17)"
  "copies V18 m18 \<Longrightarrow> copies (refView unSpec V18) (refCopy CSpec unSpec m18)"
  "copies V19 m19 \<Longrightarrow> copies (refView unMembers V19) (refCopy CMembers unMembers m19)"
  "copies V20 m20 \<Longrightarrow> copies (refView unStatus V20) (refCopy CStatus unStatus m20)"
  "copies V21 m21 \<Longrightarrow> copies (refView unRss V21) (refCopy CRss unRss m21)"
  "copies V22 m22 \<Longrightarrow> copies (refView unRsses V22) (refCopy CRsses unRsses m22)"
  "copies V23 m23 \<Longrightarrow> copies (refView unRssList V23) (refCopy CRssList unRssList m23)"
  by (simp_all add: copies_ref)

section \<open>The libraries\<close>

text \<open>
  \<open>libCopy\<close> is the \<^verbatim>\<open>DeepCopyInto\<close> of the library's structs, \<open>libView\<close> their value and the cells they own,
  and \<open>mapOrder\<close> the order in which the runtime visits the keys of a map.
\<close>

record ('k, 'w) copyenv =
  libCopy :: "'k \<Rightarrow> ('k cell, 'k) hm"
  libView :: "('k cell, 'k, 'w) view"
  mapOrder :: "nat \<Rightarrow> string list"

definition lib_copies :: "('k, 'w) copyenv \<Rightarrow> bool" where
  "lib_copies E \<longleftrightarrow> copies (libView E) (libCopy E)"

abbreviation plainRef :: "('k cell \<Rightarrow> 'a option) \<Rightarrow> ('k cell, nat option, 'a option) view" where
  "plainRef un \<equiv> refView un plainView"
abbreviation mapRef :: "('k cell, nat option, (string \<times> string) list option) view" where
  "mapRef \<equiv> refView unMap (mapView plainView)"
abbreviation libRef :: "('k, 'w) copyenv \<Rightarrow> ('k cell, nat option, 'w option) view" where
  "libRef E \<equiv> refView unLib (libView E)"
abbreviation libsRef :: "('k, 'w) copyenv \<Rightarrow> ('k cell, nat option, 'w list option) view" where
  "libsRef E \<equiv> refView unLibs (listView (libView E))"

text \<open>
  The statements for one field: a pointer to a value without addresses or a slice of such values
  (\<^verbatim>\<open>new\<close> or \<^verbatim>\<open>make\<close>, then an assignment or \<^verbatim>\<open>copy\<close>), a map of strings, a library struct and a slice of them.
\<close>

abbreviation copyPlain :: "('a \<Rightarrow> 'k cell) \<Rightarrow> ('k cell \<Rightarrow> 'a option) \<Rightarrow> nat option \<Rightarrow> ('k cell, nat option) hm" where
  "copyPlain mk un \<equiv> refCopy mk un hret"
abbreviation copyMap :: "('k, 'w) copyenv \<Rightarrow> nat option \<Rightarrow> ('k cell, nat option) hm" where
  "copyMap E \<equiv> refCopy CMap unMap (mapCopy (mapOrder E) hret)"
abbreviation copyLib :: "('k, 'w) copyenv \<Rightarrow> nat option \<Rightarrow> ('k cell, nat option) hm" where
  "copyLib E \<equiv> refCopy CLib unLib (libCopy E)"
abbreviation copyLibs :: "('k, 'w) copyenv \<Rightarrow> nat option \<Rightarrow> ('k cell, nat option) hm" where
  "copyLibs E \<equiv> refCopy CLibs unLibs (hmap (libCopy E))"

section \<open>DeepCopyInto\<close>

definition ClusterConditionDeepCopyInto :: "clustercondition \<Rightarrow> ('k cell, clustercondition) hm" where
  "ClusterConditionDeepCopyInto c = hret c"

definition MemberSecretDeepCopyInto :: "membersecret \<Rightarrow> ('k cell, membersecret) hm" where
  "MemberSecretDeepCopyInto s = hret s"

definition ReplicationCommandDeepCopyInto :: "hcommand \<Rightarrow> ('k cell, hcommand) hm" where
  "ReplicationCommandDeepCopyInto c =
     hbind (copyPlain CStr unStr (hTimeout c)) (\<lambda>t.
     hbind (copyPlain CStrs unStrs (hCommand c)) (\<lambda>s.
     hret (c\<lparr>hTimeout := t, hCommand := s\<rparr>)))"

definition StaticTLSDeepCopyInto :: "hstatic \<Rightarrow> ('k cell, hstatic) hm" where
  "StaticTLSDeepCopyInto s =
     hbind (copyPlain CSecret unSecret (hMember s)) (\<lambda>m.
     hret (s\<lparr>hMember := m\<rparr>))"

definition TLSPolicyDeepCopyInto :: "htls \<Rightarrow> ('k cell, htls) hm" where
  "TLSPolicyDeepCopyInto t =
     hbind (refCopy CStatic unStatic StaticTLSDeepCopyInto (hStatic t)) (\<lambda>s.
     hret (t\<lparr>hStatic := s\<rparr>))"

definition MembersStatusDeepCopyInto :: "hmembers \<Rightarrow> ('k cell, hmembers) hm" where
  "MembersStatusDeepCopyInto m =
     hbind (copyPlain CStrs unStrs (hReady m)) (\<lambda>r.
     hbind (copyPlain CStrs unStrs (hUnready m)) (\<lambda>u.
     hbind (copyPlain CStrs unStrs (hPrimary m)) (\<lambda>p.
     hbind (copyPlain CStrs unStrs (hSecondary m)) (\<lambda>s.
     hbind (copyPlain CStrs unStrs (hFailed m)) (\<lambda>f.
     hret (m\<lparr>hReady := r, hUnready := u, hPrimary := p, hSecondary := s, hFailed := f\<rparr>))))))"

definition ClusterStatusDeepCopyInto :: "hstatus \<Rightarrow> ('k cell, hstatus) hm" where
  "ClusterStatusDeepCopyInto s =
     hbind (copyPlain CConditions unConditions (hConditions s)) (\<lambda>cs.
     hbind (MembersStatusDeepCopyInto (hMembers s)) (\<lambda>m.
     hret (s\<lparr>hConditions := cs, hMembers := m\<rparr>)))"

definition PodPolicyDeepCopyInto :: "('k, 'w) copyenv \<Rightarrow> hpolicy \<Rightarrow> ('k cell, hpolicy) hm" where
  "PodPolicyDeepCopyInto E p =
     hbind (copyMap E (hPolicyNodeSelector p)) (\<lambda>ns.
     hbind (copyPlain CBool unBool (hAutomount p)) (\<lambda>am.
     hbind (copyLibs E (hContainers p)) (\<lambda>cs.
     hbind (copyLibs E (hVolumes p)) (\<lambda>vs.
     hbind (copyLibs E (hVolumeClaimTemplates p)) (\<lambda>ts.
     hbind (refCopy CCommands unCommands (mapCopy (mapOrder E) ReplicationCommandDeepCopyInto) (hCommands p)) (\<lambda>cmds.
     hbind (copyLib E (hSecurityContext p)) (\<lambda>sc.
     hret (p\<lparr>hPolicyNodeSelector := ns, hAutomount := am, hContainers := cs, hVolumes := vs,
       hVolumeClaimTemplates := ts, hCommands := cmds, hSecurityContext := sc\<rparr>))))))))"

definition ClusterSpecDeepCopyInto :: "('k, 'w) copyenv \<Rightarrow> 'k hspec \<Rightarrow> ('k cell, 'k hspec) hm" where
  "ClusterSpecDeepCopyInto E s =
     hbind (copyPlain CInt32 unInt32 (hReplicas s)) (\<lambda>r.
     hbind (copyPlain CInt32 unInt32 (hPrimaries s)) (\<lambda>p.
     hbind (copyPlain CStr unStr (hReconcileInterval s)) (\<lambda>ri.
     hbind (copyPlain CRefs unRefs (hImagePullSecrets s)) (\<lambda>ips.
     hbind (copyPlain CInt unInt (hChaosLevel s)) (\<lambda>cl.
     hbind (PodPolicyDeepCopyInto E (hPod s)) (\<lambda>pod.
     hbind (copyPlain CPorts unPorts (hServicePorts s)) (\<lambda>sp.
     hbind (refCopy CTls unTls TLSPolicyDeepCopyInto (hTLS s)) (\<lambda>tls.
     hbind (copyLib E (hRuleSelector s)) (\<lambda>rs.
     hbind (libCopy E (hResources s)) (\<lambda>res.
     hbind (copyMap E (hNodeSelector s)) (\<lambda>ns.
     hbind (copyPlain CStrs unStrs (hSecrets s)) (\<lambda>sec.
     hbind (copyLib E (hAffinity s)) (\<lambda>aff.
     hbind (copyLibs E (hTolerations s)) (\<lambda>tol.
     hret (s\<lparr>hReplicas := r, hPrimaries := p, hReconcileInterval := ri, hImagePullSecrets := ips, hChaosLevel :=
       cl, hPod := pod, hServicePorts := sp, hTLS := tls, hRuleSelector := rs, hResources := res,
       hNodeSelector := ns, hSecrets := sec, hAffinity := aff, hTolerations := tol\<rparr>)))))))))))))))"

definition ReplicatedStatefulSetDeepCopyInto :: "('k, 'w) copyenv \<Rightarrow> 'k hrss \<Rightarrow> ('k cell, 'k hrss) hm" where
  "ReplicatedStatefulSetDeepCopyInto E r =
     hbind (libCopy E (hObjectMeta r)) (\<lambda>md.
     hbind (ClusterSpecDeepCopyInto E (hSpec r)) (\<lambda>sp.
     hbind (ClusterStatusDeepCopyInto (hStatus r)) (\<lambda>st.
     hret (r\<lparr>hObjectMeta := md, hSpec := sp, hStatus := st\<rparr>))))"

definition ReplicatedStatefulSetListDeepCopyInto :: "('k, 'w) copyenv \<Rightarrow> hrsslist \<Rightarrow> ('k cell, hrsslist) hm" where
  "ReplicatedStatefulSetListDeepCopyInto E l =
     hbind (refCopy CRsses unRsses (hmap (ReplicatedStatefulSetDeepCopyInto E)) (hItems l)) (\<lambda>items.
     hret (l\<lparr>hItems := items\<rparr>))"

section \<open>DeepCopy\<close>

definition ClusterConditionDeepCopy :: "nat option \<Rightarrow> ('k cell, nat option) hm" where
  "ClusterConditionDeepCopy p = refCopy CCondition unCondition ClusterConditionDeepCopyInto p"

definition ClusterSpecDeepCopy :: "('k, 'w) copyenv \<Rightarrow> nat option \<Rightarrow> ('k cell, nat option) hm" where
  "ClusterSpecDeepCopy E p = refCopy CSpec unSpec (ClusterSpecDeepCopyInto E) p"

definition ClusterStatusDeepCopy :: "nat option \<Rightarrow> ('k cell, nat option) hm" where
  "ClusterStatusDeepCopy p = refCopy CStatus unStatus ClusterStatusDeepCopyInto p"

definition MemberSecretDeepCopy :: "nat option \<Rightarrow> ('k cell, nat option) hm" where
  "MemberSecretDeepCopy p = refCopy CSecret unSecret MemberSecretDeepCopyInto p"

definition MembersStatusDeepCopy :: "nat option \<Rightarrow> ('k cell, nat option) hm" where
  "MembersStatusDeepCopy p = refCopy CMembers unMembers MembersStatusDeepCopyInto p"

definition PodPolicyDeepCopy :: "('k, 'w) copyenv \<Rightarrow> nat option \<Rightarrow> ('k cell, nat option) hm" where
  "PodPolicyDeepCopy E p = refCopy CPolicy unPolicy (PodPolicyDeepCopyInto E) p"

definition ReplicatedStatefulSetDeepCopy :: "('k, 'w) copyenv \<Rightarrow> nat option \<Rightarrow> ('k cell, nat option) hm" where
  "ReplicatedStatefulSetDeepCopy E p = refCopy CRss unRss (ReplicatedStatefulSetDeepCopyInto E) p"

definition ReplicatedStatefulSetListDeepCopy :: "('k, 'w) copyenv \<Rightarrow> nat option \<Rightarrow> ('k cell, nat option) hm" where
  "ReplicatedStatefulSetListDeepCopy E p = refCopy CRssList unRssList (ReplicatedStatefulSetListDeepCopyInto E) p"

definition ReplicationCommandDeepCopy :: "nat option \<Rightarrow> ('k cell, nat option) hm" where
  "ReplicationCommandDeepCopy p = refCopy CCommand unCommand ReplicationCommandDeepCopyInto p"

definition StaticTLSDeepCopy :: "nat option \<Rightarrow> ('k cell, nat option) hm" where
  "StaticTLSDeepCopy p = refCopy CStatic unStatic StaticTLSDeepCopyInto p"

definition TLSPolicyDeepCopy :: "nat option \<Rightarrow> ('k cell, nat option) hm" where
  "TLSPolicyDeepCopy p = refCopy CTls unTls TLSPolicyDeepCopyInto p"

text \<open>
  \<^verbatim>\<open>DeepCopyObject\<close> returns an interface: nil, or a type and a pointer of that type. A nil pointer becomes
  the nil interface.
\<close>

datatype runtime_object = ORss nat | ORssList nat

definition ReplicatedStatefulSetDeepCopyObject ::
  "('k, 'w) copyenv \<Rightarrow> nat option \<Rightarrow> ('k cell, runtime_object option) hm" where
  "ReplicatedStatefulSetDeepCopyObject E p =
     hbind (ReplicatedStatefulSetDeepCopy E p) (\<lambda>c. case c of Some a \<Rightarrow> hret (Some (ORss a)) | None \<Rightarrow> hret None)"

definition ReplicatedStatefulSetListDeepCopyObject ::
  "('k, 'w) copyenv \<Rightarrow> nat option \<Rightarrow> ('k cell, runtime_object option) hm" where
  "ReplicatedStatefulSetListDeepCopyObject E p =
     hbind (ReplicatedStatefulSetListDeepCopy E p) (\<lambda>c. case c of Some a \<Rightarrow> hret (Some (ORssList a)) | None \<Rightarrow> hret None)"

text \<open>
  The functions by type: the arguments are interfaces, and the assertions \<^verbatim>\<open>in.(*T)\<close> and \<^verbatim>\<open>out.(*T)\<close> panic when
  they hold a pointer to something else. The returned error is always nil.
\<close>

type_synonym 'k generated_copy = "nat \<Rightarrow> nat \<Rightarrow> 'k cell heap \<Rightarrow> 'k cell heap go"

definition generatedFn ::
  "('a \<Rightarrow> 'k cell) \<Rightarrow> ('k cell \<Rightarrow> 'a option) \<Rightarrow> ('a \<Rightarrow> ('k cell, 'a) hm) \<Rightarrow> 'k generated_copy" where
  "generatedFn mk un into a b = (\<lambda>h.
     case un (h ! a) of None \<Rightarrow> Panic ''interface conversion''
     | Some x \<Rightarrow> (case un (h ! b) of None \<Rightarrow> Panic ''interface conversion''
        | Some _ \<Rightarrow> (case into x h of (y, h') \<Rightarrow> Ret (h'[b := mk y]))))"

definition GetGeneratedDeepCopyFuncs :: "('k, 'w) copyenv \<Rightarrow> ('k generated_copy \<times> string) list" where
  "GetGeneratedDeepCopyFuncs E =
    [(generatedFn CCondition unCondition ClusterConditionDeepCopyInto, ''ClusterCondition''),
     (generatedFn CSpec unSpec (ClusterSpecDeepCopyInto E), ''ClusterSpec''),
     (generatedFn CStatus unStatus ClusterStatusDeepCopyInto, ''ClusterStatus''),
     (generatedFn CSecret unSecret MemberSecretDeepCopyInto, ''MemberSecret''),
     (generatedFn CMembers unMembers MembersStatusDeepCopyInto, ''MembersStatus''),
     (generatedFn CPolicy unPolicy (PodPolicyDeepCopyInto E), ''PodPolicy''),
     (generatedFn CRss unRss (ReplicatedStatefulSetDeepCopyInto E), ''ReplicatedStatefulSet''),
     (generatedFn CRssList unRssList (ReplicatedStatefulSetListDeepCopyInto E), ''ReplicatedStatefulSetList''),
     (generatedFn CCommand unCommand ReplicationCommandDeepCopyInto, ''ReplicationCommand''),
     (generatedFn CStatic unStatic StaticTLSDeepCopyInto, ''StaticTLS''),
     (generatedFn CTls unTls TLSPolicyDeepCopyInto, ''TLSPolicy'')]"

section \<open>The values of the structs\<close>

text \<open>The value of a pod policy, a specification, a resource and a list of them: the flat part and the values of the fields.\<close>

type_synonym 'w hpolicyval = "bool \<times> (string \<times> string) list option \<times> bool option \<times> 'w list option \<times> 'w list option \<times>
  'w list option \<times> (string \<times> string option \<times> string list option) list option \<times> 'w option"
type_synonym 'w hspecval = "bool \<times> string \<times> int32 option \<times> int32 option \<times> string option \<times> string list option \<times> int option \<times>
  'w hpolicyval \<times> serviceport list option \<times> tlspolicy option \<times> 'w option \<times> 'w \<times> (string \<times> string) list option \<times>
  string list option \<times> 'w option \<times> 'w list option"
type_synonym 'w hrssval = "(string \<times> string) \<times> 'w \<times> 'w hspecval \<times> clusterstatus"
type_synonym 'w hrsslistval = "(string \<times> string) \<times> (string \<times> string) \<times> 'w hrssval list option"

definition commandView :: "('k cell, hcommand, string option \<times> string list option) view" where
  "commandView = structView
     (\<lambda>c. (hTimeout c, hCommand c))
     (\<lambda>c v. v)
     (pairView (plainRef unStr) (plainRef unStrs))"

definition staticView :: "('k cell, hstatic, statictls) view" where
  "staticView = structView
     (\<lambda>s. hMember s)
     (\<lambda>s v. \<lparr>Member = v, OperatorSecret = hOperatorSecret s\<rparr>)
     (plainRef unSecret)"

definition tlsView :: "('k cell, htls, tlspolicy) view" where
  "tlsView = structView
     (\<lambda>t. hStatic t)
     (\<lambda>t v. \<lparr>Static = v\<rparr>)
     (refView unStatic staticView)"

definition membersView :: "('k cell, hmembers, membersstatus) view" where
  "membersView = structView
     (\<lambda>m. (hReady m, hUnready m, hPrimary m, hSecondary m, hFailed m))
     (\<lambda>m v. (case v of (r, u, p, s, f) \<Rightarrow> \<lparr>Ready = r, Unready = u, Primary = p, Secondary = s, Failed = f\<rparr>))
     (pairView (plainRef unStrs) (pairView (plainRef unStrs) (pairView (plainRef unStrs) (pairView
     (plainRef unStrs) (plainRef unStrs)))))"

definition statusView :: "('k cell, hstatus, clusterstatus) view" where
  "statusView = structView
     (\<lambda>s. (hConditions s, hMembers s))
     (\<lambda>s v. (case v of (cs, m) \<Rightarrow> \<lparr>Phase = hPhase s, Reason = hReason s, ControlPaused = hControlPaused s, Conditions = cs,
     StatusReplicas = hStatusReplicas s, RestoreReplicas = hRestoreReplicas s, StatusServiceName = hStatusServiceName s,
     ClientPort = hClientPort s, StatusMembers = m, CurrentVersion = hCurrentVersion s, TargetVersion = hTargetVersion s\<rparr>))
     (pairView (plainRef unConditions) membersView)"

definition policyView :: "('k, 'w) copyenv \<Rightarrow> ('k cell, hpolicy, 'w hpolicyval) view" where
  "policyView E = structView
     (\<lambda>p. (hPolicyNodeSelector p, hAutomount p, hContainers p, hVolumes p, hVolumeClaimTemplates
     p, hCommands p, hSecurityContext p))
     (\<lambda>p v. (hAntiAffinity p, v))
     (pairView mapRef (pairView (plainRef unBool) (pairView (libsRef E) (pairView (libsRef E) (pairView
     (libsRef E) (pairView (refView unCommands (mapView commandView)) (libRef E)))))))"

definition specView :: "('k, 'w) copyenv \<Rightarrow> ('k cell, 'k hspec, 'w hspecval) view" where
  "specView E = structView
     (\<lambda>s. (hReplicas s, hPrimaries s, hReconcileInterval s, hImagePullSecrets s, hChaosLevel s,
     hPod s, hServicePorts s, hTLS s, hRuleSelector s, hResources s, hNodeSelector s, hSecrets s,
     hAffinity s, hTolerations s))
     (\<lambda>s v. (hPaused s, hServiceAccountName s, v))
     (pairView (plainRef unInt32) (pairView (plainRef unInt32) (pairView (plainRef unStr) (pairView
     (plainRef unRefs) (pairView (plainRef unInt) (pairView (policyView E) (pairView (plainRef unPorts)
     (pairView (refView unTls tlsView) (pairView (libRef E) (pairView (libView E) (pairView mapRef
     (pairView (plainRef unStrs) (pairView (libRef E) (libsRef E))))))))))))))"

definition rssView :: "('k, 'w) copyenv \<Rightarrow> ('k cell, 'k hrss, 'w hrssval) view" where
  "rssView E = structView
     (\<lambda>r. (hObjectMeta r, hSpec r, hStatus r))
     (\<lambda>r v. (hTypeMeta r, v))
     (pairView (libView E) (pairView (specView E) statusView))"

definition rsslistView :: "('k, 'w) copyenv \<Rightarrow> ('k cell, hrsslist, 'w hrsslistval) view" where
  "rsslistView E = structView
     (\<lambda>l. hItems l)
     (\<lambda>l v. (hListTypeMeta l, hListMeta l, v))
     (refView unRsses (listView (rssView E)))"

section \<open>Every DeepCopyInto copies\<close>

lemma ReplicationCommandDeepCopyInto_struct:
  "ReplicationCommandDeepCopyInto = structCopy
     (\<lambda>c. (hTimeout c, hCommand c))
     (\<lambda>c (t, s). c\<lparr>hTimeout := t, hCommand := s\<rparr>)
     (pairCopy (copyPlain CStr unStr) (copyPlain CStrs unStrs))"
  by (simp add: fun_eq_iff ReplicationCommandDeepCopyInto_def structCopy_def pairCopy_def)

lemma copies_command [copy_rules]: "copies commandView ReplicationCommandDeepCopyInto"
  unfolding commandView_def ReplicationCommandDeepCopyInto_struct
  by (rule copies_struct, intro copy_rules) (simp_all add: split_beta)

lemma StaticTLSDeepCopyInto_struct:
  "StaticTLSDeepCopyInto = structCopy
     (\<lambda>s. hMember s)
     (\<lambda>s m. s\<lparr>hMember := m\<rparr>)
     (copyPlain CSecret unSecret)"
  by (simp add: fun_eq_iff StaticTLSDeepCopyInto_def structCopy_def pairCopy_def)

lemma copies_static [copy_rules]: "copies staticView StaticTLSDeepCopyInto"
  unfolding staticView_def StaticTLSDeepCopyInto_struct
  by (rule copies_struct, intro copy_rules) (simp_all add: split_beta)

lemma TLSPolicyDeepCopyInto_struct:
  "TLSPolicyDeepCopyInto = structCopy
     (\<lambda>t. hStatic t)
     (\<lambda>t s. t\<lparr>hStatic := s\<rparr>)
     (refCopy CStatic unStatic StaticTLSDeepCopyInto)"
  by (simp add: fun_eq_iff TLSPolicyDeepCopyInto_def structCopy_def pairCopy_def)

lemma copies_tls [copy_rules]: "copies tlsView TLSPolicyDeepCopyInto"
  unfolding tlsView_def TLSPolicyDeepCopyInto_struct
  by (rule copies_struct, intro copy_rules) (simp_all add: split_beta)

lemma MembersStatusDeepCopyInto_struct:
  "MembersStatusDeepCopyInto = structCopy
     (\<lambda>m. (hReady m, hUnready m, hPrimary m, hSecondary m, hFailed m))
     (\<lambda>m (r, u, p, s, f). m\<lparr>hReady := r, hUnready := u, hPrimary := p, hSecondary := s,
     hFailed := f\<rparr>)
     (pairCopy (copyPlain CStrs unStrs) (pairCopy (copyPlain CStrs unStrs) (pairCopy (copyPlain CStrs
     unStrs) (pairCopy (copyPlain CStrs unStrs) (copyPlain CStrs unStrs)))))"
  by (simp add: fun_eq_iff MembersStatusDeepCopyInto_def structCopy_def pairCopy_def)

lemma copies_members [copy_rules]: "copies membersView MembersStatusDeepCopyInto"
  unfolding membersView_def MembersStatusDeepCopyInto_struct
  by (rule copies_struct, intro copy_rules) (simp_all add: split_beta)

lemma ClusterStatusDeepCopyInto_struct:
  "ClusterStatusDeepCopyInto = structCopy
     (\<lambda>s. (hConditions s, hMembers s))
     (\<lambda>s (cs, m). s\<lparr>hConditions := cs, hMembers := m\<rparr>)
     (pairCopy (copyPlain CConditions unConditions) MembersStatusDeepCopyInto)"
  by (simp add: fun_eq_iff ClusterStatusDeepCopyInto_def structCopy_def pairCopy_def)

lemma copies_status [copy_rules]: "copies statusView ClusterStatusDeepCopyInto"
  unfolding statusView_def ClusterStatusDeepCopyInto_struct
  by (rule copies_struct, intro copy_rules) (simp_all add: split_beta)

lemma PodPolicyDeepCopyInto_struct:
  "PodPolicyDeepCopyInto E = structCopy
     (\<lambda>p. (hPolicyNodeSelector p, hAutomount p, hContainers p, hVolumes p, hVolumeClaimTemplates
     p, hCommands p, hSecurityContext p))
     (\<lambda>p (ns, am, cs, vs, ts, cmds, sc). p\<lparr>hPolicyNodeSelector := ns, hAutomount := am,
     hContainers := cs, hVolumes := vs, hVolumeClaimTemplates := ts, hCommands := cmds, hSecurityContext
     := sc\<rparr>)
     (pairCopy (copyMap E) (pairCopy (copyPlain CBool unBool) (pairCopy (copyLibs E) (pairCopy (copyLibs
     E) (pairCopy (copyLibs E) (pairCopy (refCopy CCommands unCommands (mapCopy (mapOrder E)
     ReplicationCommandDeepCopyInto)) (copyLib E)))))))"
  by (simp add: fun_eq_iff PodPolicyDeepCopyInto_def structCopy_def pairCopy_def)

lemma lib_copiesD [copy_rules]: "lib_copies E \<Longrightarrow> copies (libView E) (libCopy E)"
  by (simp add: lib_copies_def)

lemma copies_policy [copy_rules]: "lib_copies E \<Longrightarrow> copies (policyView E) (PodPolicyDeepCopyInto E)"
  unfolding policyView_def PodPolicyDeepCopyInto_struct
  by (rule copies_struct, intro copy_rules) (simp_all add: split_beta)

lemma ClusterSpecDeepCopyInto_struct:
  "ClusterSpecDeepCopyInto E = structCopy
     (\<lambda>s. (hReplicas s, hPrimaries s, hReconcileInterval s, hImagePullSecrets s, hChaosLevel s,
     hPod s, hServicePorts s, hTLS s, hRuleSelector s, hResources s, hNodeSelector s, hSecrets s,
     hAffinity s, hTolerations s))
     (\<lambda>s (r, p, ri, ips, cl, pod, sp, tls, rs, res, ns, sec, aff, tol). s\<lparr>hReplicas := r,
     hPrimaries := p, hReconcileInterval := ri, hImagePullSecrets := ips, hChaosLevel := cl, hPod := pod,
     hServicePorts := sp, hTLS := tls, hRuleSelector := rs, hResources := res, hNodeSelector := ns,
     hSecrets := sec, hAffinity := aff, hTolerations := tol\<rparr>)
     (pairCopy (copyPlain CInt32 unInt32) (pairCopy (copyPlain CInt32 unInt32) (pairCopy (copyPlain CStr
     unStr) (pairCopy (copyPlain CRefs unRefs) (pairCopy (copyPlain CInt unInt) (pairCopy
     (PodPolicyDeepCopyInto E) (pairCopy (copyPlain CPorts unPorts) (pairCopy (refCopy CTls unTls
     TLSPolicyDeepCopyInto) (pairCopy (copyLib E) (pairCopy (libCopy E) (pairCopy (copyMap E) (pairCopy
     (copyPlain CStrs unStrs) (pairCopy (copyLib E) (copyLibs E))))))))))))))"
  by (simp add: fun_eq_iff ClusterSpecDeepCopyInto_def structCopy_def pairCopy_def)

lemma copies_spec [copy_rules]: "lib_copies E \<Longrightarrow> copies (specView E) (ClusterSpecDeepCopyInto E)"
  unfolding specView_def ClusterSpecDeepCopyInto_struct
  by (rule copies_struct, intro copy_rules) (simp_all add: split_beta)

lemma ReplicatedStatefulSetDeepCopyInto_struct:
  "ReplicatedStatefulSetDeepCopyInto E = structCopy
     (\<lambda>r. (hObjectMeta r, hSpec r, hStatus r))
     (\<lambda>r (md, sp, st). r\<lparr>hObjectMeta := md, hSpec := sp, hStatus := st\<rparr>)
     (pairCopy (libCopy E) (pairCopy (ClusterSpecDeepCopyInto E) ClusterStatusDeepCopyInto))"
  by (simp add: fun_eq_iff ReplicatedStatefulSetDeepCopyInto_def structCopy_def pairCopy_def)

lemma copies_rss [copy_rules]: "lib_copies E \<Longrightarrow> copies (rssView E) (ReplicatedStatefulSetDeepCopyInto E)"
  unfolding rssView_def ReplicatedStatefulSetDeepCopyInto_struct
  by (rule copies_struct, intro copy_rules) (simp_all add: split_beta)

lemma ReplicatedStatefulSetListDeepCopyInto_struct:
  "ReplicatedStatefulSetListDeepCopyInto E = structCopy
     (\<lambda>l. hItems l)
     (\<lambda>l items. l\<lparr>hItems := items\<rparr>)
     (refCopy CRsses unRsses (hmap (ReplicatedStatefulSetDeepCopyInto E)))"
  by (simp add: fun_eq_iff ReplicatedStatefulSetListDeepCopyInto_def structCopy_def pairCopy_def)

lemma copies_rsslist [copy_rules]: "lib_copies E \<Longrightarrow> copies (rsslistView E) (ReplicatedStatefulSetListDeepCopyInto E)"
  unfolding rsslistView_def ReplicatedStatefulSetListDeepCopyInto_struct
  by (rule copies_struct, intro copy_rules) (simp_all add: split_beta)

section \<open>What a copy is\<close>

lemma copies_ReplicatedStatefulSetDeepCopy:
  "lib_copies E \<Longrightarrow> copies (refView unRss (rssView E)) (ReplicatedStatefulSetDeepCopy E)"
  unfolding ReplicatedStatefulSetDeepCopy_def by (intro copy_rules)

lemma copies_ReplicatedStatefulSetListDeepCopy:
  "lib_copies E \<Longrightarrow> copies (refView unRssList (rsslistView E)) (ReplicatedStatefulSetListDeepCopy E)"
  unfolding ReplicatedStatefulSetListDeepCopy_def by (intro copy_rules)

lemma copies_ClusterSpecDeepCopy:
  "lib_copies E \<Longrightarrow> copies (refView unSpec (specView E)) (ClusterSpecDeepCopy E)"
  unfolding ClusterSpecDeepCopy_def by (intro copy_rules)

lemma copies_ClusterStatusDeepCopy: "copies (refView unStatus statusView) ClusterStatusDeepCopy"
  unfolding ClusterStatusDeepCopy_def by (intro copy_rules)

text \<open>
  A registered function, given an intact original and an object of the same type that is no part of it:
  afterwards that object has the value of the original, which has kept its own, and the two share nothing.
\<close>

lemma generatedFn_copies:
  assumes "copies V into" and "\<And>x. un (mk x) = Some x"
    and ok: "okV (refView un V) h (Some a)" and b: "b < length h" "un (h ! b) = Some z"
    and out: "b \<notin> reachV (refView un V) h (Some a)"
  shows "\<exists>h'. generatedFn mk un into a b h = Ret h' \<and>
     okV (refView un V) h' (Some b) \<and> readV (refView un V) h' (Some b) = readV (refView un V) h (Some a) \<and>
     sameIn (refView un V) h h' (Some a) \<and>
     reachV (refView un V) h' (Some a) \<inter> reachV (refView un V) h' (Some b) = {}"
proof -
  note law = copies_lawful [OF assms(1)]
  obtain x where x: "un (h ! a) = Some x" "a < length h" "okV V h x" using refView_SomeD [OF ok] by blast
  obtain y h1 where m: "into x h = (y, h1)" by fastforce
  let ?h' = "h1[b := mk y]"
  have ext: "extends h h1" and copy: "isCopy V h (readV V h x) y h1"
    using buildsD [OF copies_builds [OF assms(1) x(3)], of h] m by simp_all
  have b1: "b < length h1" using b(1) extends_length [OF ext] by simp
  have lo: "length h \<le> c" "c < length h1" if "c \<in> reachV V h1 y" for c
    using copy that unfolding isCopy_def by auto
  then have agr: "agree (reachV V h1 y) h1 ?h'"
    using b(1) by (intro agree_update) (auto simp: not_le [symmetric])
  have copied: "sameIn V h1 ?h' y"
    by (rule lawful_frame [OF law _ agr]) (use copy in \<open>simp add: isCopy_def\<close>)
  have unb: "un (?h' ! b) = Some y" using b1 assms(2) by simp
  note inside = lawful_inside [OF lawful_ref [OF law] ok]
  have "reachV (refView un V) h (Some a) \<subseteq> {..<length h1}"
    using inside extends_length [OF ext] by auto
  then have "agree (reachV (refView un V) h (Some a)) h ?h'"
    using agree_trans [OF agree_extends [OF inside ext] agree_update] out by blast
  then have same: "sameIn (refView un V) h ?h' (Some a)" by (rule lawful_frame [OF lawful_ref [OF law] ok])
  have "reachV (refView un V) ?h' (Some b) = insert b (reachV V h1 y)"
    using copied by (simp add: refView_Some(3) [of un ?h' b, OF unb] sameIn_def)
  moreover have "reachV (refView un V) ?h' (Some a) \<subseteq> {..<length h} - {b}"
    using same out inside by (auto simp: sameIn_def)
  ultimately have "reachV (refView un V) ?h' (Some a) \<inter> reachV (refView un V) ?h' (Some b) = {}"
    using lo by fastforce
  moreover have "generatedFn mk un into a b h = Ret ?h'" by (simp add: generatedFn_def x(1) b(2) m)
  ultimately show ?thesis
    using same copied copy b1
    by (simp add: refView_Some(1,2) [of un ?h' b, OF unb] refView_Some(2) [of un h a, OF x(1)] sameIn_def isCopy_def)
qed

lemma generatedFn_panics:
  "un (h ! a) = None \<or> un (h ! b) = None \<Longrightarrow> generatedFn mk un into a b h = Panic ''interface conversion''"
  by (auto simp: generatedFn_def split: option.splits)

section \<open>A concrete instance\<close>

text \<open>
  A library struct with one pointer to a string, and a resource with a replica count, a slice of secrets, a
  label map with two keys and a command, whose list has it as its only item.
\<close>

definition sample_env :: "(nat option, string option) copyenv" where
  "sample_env = \<lparr>libCopy = copyPlain CStr unStr, libView = plainRef unStr, mapOrder = \<lambda>n. [''zone'', ''disk'']\<rparr>"

definition sample_rss :: "nat option hrss" where
  "sample_rss = \<lparr>hTypeMeta = (''ReplicatedStatefulSet'', ''v1alpha1''), hObjectMeta = Some 0,
     hSpec = \<lparr>hReplicas = Some 1, hPrimaries = None, hReconcileInterval = None, hImagePullSecrets = None, hPaused = False,
       hChaosLevel = None, hPod = \<lparr>hPolicyNodeSelector = None, hAntiAffinity = True, hAutomount = None, hContainers = None,
         hVolumes = None, hVolumeClaimTemplates = None, hCommands = Some 5, hSecurityContext = None\<rparr>,
       hServicePorts = None, hTLS = None, hRuleSelector = None, hResources = None, hNodeSelector = Some 2,
       hServiceAccountName = ''db'', hSecrets = Some 3, hAffinity = None, hTolerations = None\<rparr>,
     hStatus = \<lparr>hPhase = ''Running'', hReason = [], hControlPaused = False, hConditions = None, hStatusReplicas = 3,
       hRestoreReplicas = 0, hStatusServiceName = ''db'', hClientPort = 0,
       hMembers = \<lparr>hReady = Some 6, hUnready = None, hPrimary = None, hSecondary = None, hFailed = None\<rparr>,
       hCurrentVersion = [], hTargetVersion = []\<rparr>\<rparr>"

definition sample_heap :: "nat option cell heap" where
  "sample_heap = [CStr ''db'', CInt32 3, CMap [(''disk'', ''ssd''), (''zone'', ''a'')], CStrs [''tls''], CStrs [''/start''],
     CCommands [(''status'', \<lparr>hTimeout = None, hCommand = Some 4\<rparr>)], CStrs [''db-0''], CRss sample_rss,
     CRsses [sample_rss], CRssList \<lparr>hListTypeMeta = ([], []), hListMeta = ([], ''7''), hItems = Some 8\<rparr>]"

lemmas sample_defs = sample_env_def sample_rss_def sample_heap_def
lemmas view_defs = rsslistView_def rssView_def specView_def policyView_def statusView_def membersView_def
  tlsView_def staticView_def commandView_def refView_def plainView_def

lemma sample_env_copies: "lib_copies sample_env"
  unfolding lib_copies_def sample_env_def by (simp, intro copy_rules)

lemma sample_rss_intact: "okV (refView unRss (rssView sample_env)) sample_heap (Some 7)"
  by (simp add: sample_defs view_defs)

lemma sample_list_intact: "okV (refView unRssList (rsslistView sample_env)) sample_heap (Some 9)"
  by (simp add: sample_defs view_defs)

lemma sample_rss_owns: "reachV (refView unRss (rssView sample_env)) sample_heap (Some 7) = {0..7}"
  by (simp add: sample_defs view_defs) auto

section \<open>The properties\<close>

text \<open>
  C7. \<^verbatim>\<open>DeepCopy\<close> of a resource returns an intact resource with the value of the original, the two own no
  common address, and whatever is later written to an address that one of them owns, the value of the other stays
  what it was.
\<close>

theorem rss_deepcopy_independent:
  assumes "lib_copies E" and "okV (refView unRss (rssView E)) h p" and "ReplicatedStatefulSetDeepCopy E p h = (q, h')"
  shows "okV (refView unRss (rssView E)) h' q
    \<and> readV (refView unRss (rssView E)) h' q = readV (refView unRss (rssView E)) h p
    \<and> reachV (refView unRss (rssView E)) h' p \<inter> reachV (refView unRss (rssView E)) h' q = {}
    \<and> (\<forall>a \<in> reachV (refView unRss (rssView E)) h' p. \<forall>c.
         readV (refView unRss (rssView E)) (h'[a := c]) q = readV (refView unRss (rssView E)) h p)
    \<and> (\<forall>a \<in> reachV (refView unRss (rssView E)) h' q. \<forall>c.
         readV (refView unRss (rssView E)) (h'[a := c]) p = readV (refView unRss (rssView E)) h p)"
  using copies_independent [OF copies_ReplicatedStatefulSetDeepCopy [OF assms(1)] assms(2,3)] by blast

theorem rss_deepcopy_independent_witness:
  "\<exists>q h'. ReplicatedStatefulSetDeepCopy sample_env (Some 7) sample_heap = (q, h')
    \<and> readV (refView unRss (rssView sample_env)) h' q = readV (refView unRss (rssView sample_env)) sample_heap (Some 7)
    \<and> reachV (refView unRss (rssView sample_env)) h' (Some 7) \<inter> reachV (refView unRss (rssView sample_env)) h' q = {}"
  using rss_deepcopy_independent [OF sample_env_copies sample_rss_intact surjective_pairing] surjective_pairing by blast

text \<open>
  C8. The interface \<^verbatim>\<open>DeepCopyObject\<close> returns for a list is well typed: it is nil exactly for a nil receiver, and
  otherwise holds a pointer to a list, intact down to every item, with the value of the receiver, whose addresses
  are all newly allocated; the receiver stays intact.
\<close>

theorem list_deepcopy_typed:
  assumes "lib_copies E" and "okV (refView unRssList (rsslistView E)) h p"
    and "ReplicatedStatefulSetListDeepCopyObject E p h = (r, h')"
  shows "case r of None \<Rightarrow> p = None \<and> h' = h
    | Some (ORss a) \<Rightarrow> False
    | Some (ORssList a) \<Rightarrow> p \<noteq> None \<and> okV (refView unRssList (rsslistView E)) h' (Some a)
        \<and> readV (refView unRssList (rsslistView E)) h' (Some a) = readV (refView unRssList (rsslistView E)) h p
        \<and> reachV (refView unRssList (rsslistView E)) h' (Some a) \<subseteq> {length h..<length h'}
        \<and> sameIn (refView unRssList (rsslistView E)) h h' p"
proof -
  note copies = copies_ReplicatedStatefulSetListDeepCopy [OF assms(1)]
  obtain q h1 where q: "ReplicatedStatefulSetListDeepCopy E p h = (q, h1)" by fastforce
  then have "h1 = h'" and r: "r = map_option ORssList q"
    using assms(3) by (auto simp: ReplicatedStatefulSetListDeepCopyObject_def hbind_def hret_def split: option.splits)
  with q have ext: "extends h h'" and copy: "isCopy (refView unRssList (rsslistView E)) h
      (readV (refView unRssList (rsslistView E)) h p) q h'"
    using buildsD [OF copies_builds [OF copies assms(2)], of h] by simp_all
  have same: "sameIn (refView unRssList (rsslistView E)) h h' p"
    by (rule lawful_extends [OF copies_lawful [OF copies] assms(2) ext])
  show ?thesis
  proof (cases p)
    case None
    with q \<open>h1 = h'\<close> r show ?thesis by (simp add: ReplicatedStatefulSetListDeepCopy_def refCopy_def hret_def)
  next
    case (Some a)
    then obtain x where "unRssList (h ! a) = Some x" using assms(2) refView_SomeD by blast
    with Some have "readV (refView unRssList (rsslistView E)) h p \<noteq> None" by (simp add: refView_Some)
    with copy obtain b where "q = Some b" by (cases q) (auto simp: isCopy_def)
    with r copy same Some show ?thesis by (simp add: isCopy_def)
  qed
qed

theorem list_deepcopy_typed_witness:
  "\<exists>a h'. ReplicatedStatefulSetListDeepCopyObject sample_env (Some 9) sample_heap = (Some (ORssList a), h')
    \<and> okV (refView unRssList (rsslistView sample_env)) h' (Some a)"
proof -
  obtain r h' where e: "ReplicatedStatefulSetListDeepCopyObject sample_env (Some 9) sample_heap = (r, h')" by fastforce
  from list_deepcopy_typed [OF sample_env_copies sample_list_intact this] show ?thesis
    by (auto simp: e split: option.splits runtime_object.splits)
qed

end
