(* ===== verification/RestClient.thy ===== *)
theory RestClient
  imports ApiSpec GoPaths
begin

text \<open>
  pkg/generated/clientset/versioned/typed/clusterlabs/v1alpha1: the typed client through which the
  operator reads and writes its custom resources, on the request builder of client-go
  (vendor/k8s.io/client-go/rest/request.go) with its checks of path segments.

  \<^item> A \<open>restrequest\<close> is what the chained calls collect, an error included, and \<open>reqURL\<close> the path it is sent to.
  \<^item> \<open>restenv\<close> has what stands outside: the encoders of options and bodies and the round trip to the
    server. A method returns its result and the requests it has sent.

  The lemmas show which path each method addresses and that different targets have different paths.
\<close>

section \<open>Path segments\<close>

definition NameMayNotBe :: "string list" where "NameMayNotBe = [''.'', ''..'']"
definition NameMayNotContain :: "char list" where "NameMayNotContain = ''/%''"

definition IsValidPathSegmentName :: "string \<Rightarrow> string list" where
  "IsValidPathSegmentName name =
     (if name \<in> set NameMayNotBe then [''may not be '' @ quoted name]
      else map (\<lambda>c. ''may not contain '' @ quoted [c]) (filter (\<lambda>c. c \<in> set name) NameMayNotContain))"

text \<open>\<^verbatim>\<open>%v\<close> for a list of strings.\<close>

definition bracketed :: "string list \<Rightarrow> string" where
  "bracketed ss = ''['' @ Join ss '' '' @ '']''"

section \<open>The request builder\<close>

text \<open>The body of a request before it is encoded: a resource, delete options that may be nil, or bytes.\<close>

datatype body = BodyRss rss | BodyDelete "string option" | BodyBytes string

record listoptions =
  LabelSelector :: string
  FieldSelector :: string
  OptWatch :: bool
  OptResourceVersion :: string
  OptRest :: string

datatype params = GetOptions string | ListOptions listoptions

record restrequest =
  ReqVerb :: string
  PathPrefix :: string
  ReqNs :: string
  NamespaceSet :: bool
  ReqRes :: string
  ResourceName :: string
  Subresource :: string
  ReqParams :: "(string \<times> string list) list"
  ContentType :: "string option"
  ReqData :: "string option"
  ReqErr :: "go_error option"

record httprequest =
  HttpVerb :: string
  HttpPath :: string
  HttpQuery :: "(string \<times> string list) list"
  HttpType :: "string option"
  HttpData :: "string option"

text \<open>
  \<open>roundTrip\<close> is the exchange with the server, retries on a dropped connection included, and its answer the
  decoded object or an error.
\<close>

record restenv =
  BaseURLPath :: string
  VersionedAPIPath :: string
  ContentTypeOf :: string
  EncodeParameters :: "params \<Rightarrow> go_error + (string \<times> string list) list"
  EncodeObject :: "body \<Rightarrow> go_error + string"
  roundTrip :: "httprequest \<Rightarrow> go_error + rss list"

definition NewRequest :: "restenv \<Rightarrow> string \<Rightarrow> restrequest" where
  "NewRequest E v = \<lparr>ReqVerb = v, PathPrefix = pathJoin [pathJoin [''/'', BaseURLPath E], VersionedAPIPath E],
     ReqNs = [], NamespaceSet = False, ReqRes = [], ResourceName = [], Subresource = [], ReqParams = [],
     ContentType = None, ReqData = None, ReqErr = None\<rparr>"

text \<open>Every step keeps an error that is already there, and stores the one it meets.\<close>

definition unlessErr :: "(restrequest \<Rightarrow> restrequest) \<Rightarrow> restrequest \<Rightarrow> restrequest" where
  "unlessErr f r = (if ReqErr r \<noteq> None then r else f r)"

definition failReq :: "string \<Rightarrow> restrequest \<Rightarrow> restrequest" where
  "failReq msg r = r\<lparr>ReqErr := Some (ErrNew msg)\<rparr>"

definition reqNamespace :: "string \<Rightarrow> restrequest \<Rightarrow> restrequest" where
  "reqNamespace ns = unlessErr (\<lambda>r.
     if NamespaceSet r then failReq (''namespace already set to '' @ dquoted (ReqNs r) @ '', cannot change to '' @ dquoted ns) r
     else if IsValidPathSegmentName ns \<noteq> [] then failReq (''invalid namespace '' @ dquoted ns @ '': '' @ bracketed (IsValidPathSegmentName ns)) r
     else r\<lparr>NamespaceSet := True, ReqNs := ns\<rparr>)"

definition reqResource :: "string \<Rightarrow> restrequest \<Rightarrow> restrequest" where
  "reqResource res = unlessErr (\<lambda>r.
     if ReqRes r \<noteq> [] then failReq (''resource already set to '' @ dquoted (ReqRes r) @ '', cannot change to '' @ dquoted res) r
     else if IsValidPathSegmentName res \<noteq> [] then failReq (''invalid resource '' @ dquoted res @ '': '' @ bracketed (IsValidPathSegmentName res)) r
     else r\<lparr>ReqRes := res\<rparr>)"

definition reqName :: "string \<Rightarrow> restrequest \<Rightarrow> restrequest" where
  "reqName n = unlessErr (\<lambda>r.
     if n = [] then failReq ''resource name may not be empty'' r
     else if ResourceName r \<noteq> [] then failReq (''resource name already set to '' @ dquoted (ResourceName r) @ '', cannot change to '' @ dquoted n) r
     else if IsValidPathSegmentName n \<noteq> [] then failReq (''invalid resource name '' @ dquoted n @ '': '' @ bracketed (IsValidPathSegmentName n)) r
     else r\<lparr>ResourceName := n\<rparr>)"

definition reqSubResource :: "string list \<Rightarrow> restrequest \<Rightarrow> restrequest" where
  "reqSubResource subs = unlessErr (\<lambda>r.
     if Subresource r \<noteq> [] then failReq (''subresource already set to '' @ dquoted (ReqRes r) @ '', cannot change to '' @ dquoted (pathJoin subs)) r
     else case filter (\<lambda>s. IsValidPathSegmentName s \<noteq> []) subs of
            s # _ \<Rightarrow> failReq (''invalid subresource '' @ dquoted s @ '': '' @ bracketed (IsValidPathSegmentName s)) r
          | [] \<Rightarrow> r\<lparr>Subresource := pathJoin subs\<rparr>)"

definition addParams :: "(string \<times> string list) list \<Rightarrow> (string \<times> string list) list \<Rightarrow> (string \<times> string list) list" where
  "addParams new old = fold (\<lambda>(k, v) ps. AList.update k (case map_of ps k of None \<Rightarrow> v | Some w \<Rightarrow> w @ v) ps) new old"

definition reqVersionedParams :: "restenv \<Rightarrow> params \<Rightarrow> restrequest \<Rightarrow> restrequest" where
  "reqVersionedParams E opts = unlessErr (\<lambda>r.
     case EncodeParameters E opts of
       Inl e \<Rightarrow> r\<lparr>ReqErr := Some e\<rparr>
     | Inr ps \<Rightarrow> r\<lparr>ReqParams := addParams ps (ReqParams r)\<rparr>)"

definition reqBody :: "restenv \<Rightarrow> body \<Rightarrow> restrequest \<Rightarrow> restrequest" where
  "reqBody E b = unlessErr (\<lambda>r.
     case b of
       BodyBytes data \<Rightarrow> r\<lparr>ReqData := Some data\<rparr>
     | BodyDelete None \<Rightarrow> r
     | _ \<Rightarrow> (case EncodeObject E b of
               Inl e \<Rightarrow> r\<lparr>ReqErr := Some e\<rparr>
             | Inr data \<Rightarrow> r\<lparr>ReqData := Some data, ContentType := Some (ContentTypeOf E)\<rparr>))"

definition ToLower :: "string \<Rightarrow> string" where
  "ToLower s = map (\<lambda>c. let n = of_char c :: nat in if 65 \<le> n \<and> n \<le> 90 then char_of (n + 32) else c) s"

definition reqURL :: "restrequest \<Rightarrow> string" where
  "reqURL r =
     (let p = PathPrefix r;
          p = (if NamespaceSet r \<and> ReqNs r \<noteq> [] then pathJoin [p, ''namespaces'', ReqNs r] else p);
          p = (if ReqRes r \<noteq> [] then pathJoin [p, ToLower (ReqRes r)] else p)
      in if ResourceName r \<noteq> [] \<or> Subresource r \<noteq> [] then pathJoin [p, ResourceName r, Subresource r] else p)"

definition httpOf :: "restrequest \<Rightarrow> httprequest" where
  "httpOf r = \<lparr>HttpVerb = ReqVerb r, HttpPath = reqURL r, HttpQuery = ReqParams r, HttpType = ContentType r, HttpData = ReqData r\<rparr>"

text \<open>\<open>reqDo\<close> is \<^verbatim>\<open>request\<close> as \<^verbatim>\<open>Do\<close> calls it: the result, and what has been sent.\<close>

definition reqDo :: "restenv \<Rightarrow> restrequest \<Rightarrow> (go_error + rss list) \<times> httprequest list" where
  "reqDo E r =
     (case ReqErr r of
        Some e \<Rightarrow> (Inl e, [])
      | None \<Rightarrow>
          if ReqVerb r \<in> {''GET'', ''PUT'', ''DELETE''} \<and> NamespaceSet r \<and> ResourceName r \<noteq> [] \<and> ReqNs r = []
          then (Inl (ErrNew ''an empty namespace may not be set when a resource name is provided''), [])
          else if ReqVerb r = ''POST'' \<and> NamespaceSet r \<and> ReqNs r = []
          then (Inl (ErrNew ''an empty namespace may not be set during creation''), [])
          else (roundTrip E (httpOf r), [httpOf r]))"

text \<open>\<^verbatim>\<open>Watch\<close> makes no check of the namespace.\<close>

definition reqWatch :: "restenv \<Rightarrow> restrequest \<Rightarrow> (go_error + rss list) \<times> httprequest list" where
  "reqWatch E r =
     (case ReqErr r of
        Some e \<Rightarrow> (Inl e, [])
      | None \<Rightarrow> (roundTrip E (httpOf r), [httpOf r]))"

section \<open>The typed client\<close>

text \<open>
  \<^verbatim>\<open>Into\<close> decodes into an object that exists already, so a failed call returns an empty resource beside the
  error. The answer to a request for one resource is a list with that resource.
\<close>

definition intoRss :: "(go_error + rss list) \<times> httprequest list \<Rightarrow> (rss \<times> go_error option) \<times> httprequest list" where
  "intoRss res = (case res of
      (Inl e, sent) \<Rightarrow> ((zero_rss, Some e), sent)
    | (Inr (r # _), sent) \<Rightarrow> ((r, None), sent)
    | (Inr [], sent) \<Rightarrow> ((zero_rss, Some (ErrNew ''0-length response'')), sent))"

definition intoList :: "(go_error + rss list) \<times> httprequest list \<Rightarrow> (rss list \<times> go_error option) \<times> httprequest list" where
  "intoList res = (case res of (Inl e, sent) \<Rightarrow> (([], Some e), sent) | (Inr rs, sent) \<Rightarrow> ((rs, None), sent))"

definition errorOf :: "(go_error + rss list) \<times> httprequest list \<Rightarrow> go_error option \<times> httprequest list" where
  "errorOf res = (case res of (Inl e, sent) \<Rightarrow> (Some e, sent) | (Inr _, sent) \<Rightarrow> (None, sent))"

record typedclient =
  TcRest :: restenv
  TcNs :: string

definition newReplicatedStatefulSets :: "restenv \<Rightarrow> string \<Rightarrow> typedclient" where
  "newReplicatedStatefulSets c ns = \<lparr>TcRest = c, TcNs = ns\<rparr>"

definition resourceReq :: "typedclient \<Rightarrow> string \<Rightarrow> restrequest" where
  "resourceReq c v = reqResource ''replicatedstatefulsets'' (reqNamespace (TcNs c) (NewRequest (TcRest c) v))"

definition RssGet :: "typedclient \<Rightarrow> string \<Rightarrow> string \<Rightarrow> (rss \<times> go_error option) \<times> httprequest list" where
  "RssGet c name options = intoRss (reqDo (TcRest c)
     (reqVersionedParams (TcRest c) (GetOptions options) (reqName name (resourceReq c ''GET''))))"

definition RssList :: "typedclient \<Rightarrow> listoptions \<Rightarrow> (rss list \<times> go_error option) \<times> httprequest list" where
  "RssList c opts = intoList (reqDo (TcRest c)
     (reqVersionedParams (TcRest c) (ListOptions opts) (resourceReq c ''GET'')))"

definition RssWatch :: "typedclient \<Rightarrow> listoptions \<Rightarrow> (go_error + rss list) \<times> httprequest list" where
  "RssWatch c opts = reqWatch (TcRest c)
     (reqVersionedParams (TcRest c) (ListOptions (opts\<lparr>OptWatch := True\<rparr>)) (resourceReq c ''GET''))"

definition RssCreate :: "typedclient \<Rightarrow> rss \<Rightarrow> (rss \<times> go_error option) \<times> httprequest list" where
  "RssCreate c r = intoRss (reqDo (TcRest c) (reqBody (TcRest c) (BodyRss r) (resourceReq c ''POST'')))"

definition RssUpdate :: "typedclient \<Rightarrow> rss \<Rightarrow> (rss \<times> go_error option) \<times> httprequest list" where
  "RssUpdate c r = intoRss (reqDo (TcRest c)
     (reqBody (TcRest c) (BodyRss r) (reqName (RssName r) (resourceReq c ''PUT''))))"

definition RssUpdateStatus :: "typedclient \<Rightarrow> rss \<Rightarrow> (rss \<times> go_error option) \<times> httprequest list" where
  "RssUpdateStatus c r = intoRss (reqDo (TcRest c)
     (reqBody (TcRest c) (BodyRss r) (reqSubResource [''status''] (reqName (RssName r) (resourceReq c ''PUT'')))))"

definition RssDelete :: "typedclient \<Rightarrow> string \<Rightarrow> string option \<Rightarrow> go_error option \<times> httprequest list" where
  "RssDelete c name options = errorOf (reqDo (TcRest c)
     (reqBody (TcRest c) (BodyDelete options) (reqName name (resourceReq c ''DELETE''))))"

definition RssDeleteCollection :: "typedclient \<Rightarrow> string option \<Rightarrow> listoptions \<Rightarrow> go_error option \<times> httprequest list" where
  "RssDeleteCollection c options opts = errorOf (reqDo (TcRest c)
     (reqBody (TcRest c) (BodyDelete options) (reqVersionedParams (TcRest c) (ListOptions opts) (resourceReq c ''DELETE''))))"

text \<open>\<^verbatim>\<open>c.client.Patch(pt)\<close> sets the content type to that of the patch.\<close>

definition RssPatch ::
  "typedclient \<Rightarrow> string \<Rightarrow> string \<Rightarrow> string \<Rightarrow> string list \<Rightarrow> (rss \<times> go_error option) \<times> httprequest list" where
  "RssPatch c name pt data subs = intoRss (reqDo (TcRest c)
     (reqBody (TcRest c) (BodyBytes data) (reqName name (reqSubResource subs
        ((resourceReq c ''PATCH'')\<lparr>ContentType := Some pt\<rparr>)))))"

lemma IsValidPathSegmentName_iff:
  "IsValidPathSegmentName s = [] \<longleftrightarrow> (s = [] \<or> segment s) \<and> CHR ''%'' \<notin> set s"
  by (auto simp: IsValidPathSegmentName_def segment_def NameMayNotBe_def NameMayNotContain_def)

section \<open>What is sent\<close>

datatype client_call =
    CallGet string string
  | CallList listoptions
  | CallWatch listoptions
  | CallCreate rss
  | CallUpdate rss
  | CallUpdateStatus rss
  | CallDelete string "string option"
  | CallDeleteCollection "string option" listoptions
  | CallPatch string string string "string list"

fun sentBy :: "typedclient \<Rightarrow> client_call \<Rightarrow> httprequest list" where
  "sentBy c (CallGet name options) = snd (RssGet c name options)"
| "sentBy c (CallList opts) = snd (RssList c opts)"
| "sentBy c (CallWatch opts) = snd (RssWatch c opts)"
| "sentBy c (CallCreate r) = snd (RssCreate c r)"
| "sentBy c (CallUpdate r) = snd (RssUpdate c r)"
| "sentBy c (CallUpdateStatus r) = snd (RssUpdateStatus c r)"
| "sentBy c (CallDelete name options) = snd (RssDelete c name options)"
| "sentBy c (CallDeleteCollection options opts) = snd (RssDeleteCollection c options opts)"
| "sentBy c (CallPatch name pt data subs) = snd (RssPatch c name pt data subs)"

text \<open>The error a call returns; \<open>None\<close> is success.\<close>

fun callError :: "typedclient \<Rightarrow> client_call \<Rightarrow> go_error option" where
  "callError c (CallGet name options) = snd (fst (RssGet c name options))"
| "callError c (CallList opts) = snd (fst (RssList c opts))"
| "callError c (CallWatch opts) = (case fst (RssWatch c opts) of Inl e \<Rightarrow> Some e | Inr _ \<Rightarrow> None)"
| "callError c (CallCreate r) = snd (fst (RssCreate c r))"
| "callError c (CallUpdate r) = snd (fst (RssUpdate c r))"
| "callError c (CallUpdateStatus r) = snd (fst (RssUpdateStatus c r))"
| "callError c (CallDelete name options) = fst (RssDelete c name options)"
| "callError c (CallDeleteCollection options opts) = fst (RssDeleteCollection c options opts)"
| "callError c (CallPatch name pt data subs) = snd (fst (RssPatch c name pt data subs))"

text \<open>The verb, the name (empty for the collection) and the subresource a call is about.\<close>

fun callVerb :: "client_call \<Rightarrow> string" where
  "callVerb (CallGet _ _) = ''GET''"
| "callVerb (CallList _) = ''GET''"
| "callVerb (CallWatch _) = ''GET''"
| "callVerb (CallCreate _) = ''POST''"
| "callVerb (CallUpdate _) = ''PUT''"
| "callVerb (CallUpdateStatus _) = ''PUT''"
| "callVerb (CallDelete _ _) = ''DELETE''"
| "callVerb (CallDeleteCollection _ _) = ''DELETE''"
| "callVerb (CallPatch _ _ _ _) = ''PATCH''"

fun callTarget :: "client_call \<Rightarrow> string \<times> string list" where
  "callTarget (CallGet name _) = (name, [])"
| "callTarget (CallUpdate r) = (RssName r, [])"
| "callTarget (CallUpdateStatus r) = (RssName r, [''status''])"
| "callTarget (CallDelete name _) = (name, [])"
| "callTarget (CallPatch name _ _ subs) = (name, filter (\<lambda>s. s \<noteq> []) subs)"
| "callTarget _ = ([], [])"

fun namedCall :: "client_call \<Rightarrow> bool" where
  "namedCall (CallList _) = False"
| "namedCall (CallWatch _) = False"
| "namedCall (CallCreate _) = False"
| "namedCall (CallDeleteCollection _ _) = False"
| "namedCall _ = True"

fun callSubs :: "client_call \<Rightarrow> string list" where
  "callSubs (CallUpdateStatus _) = [''status'']"
| "callSubs (CallPatch _ _ _ subs) = subs"
| "callSubs _ = []"

text \<open>The request a call has built when nothing failed, as far as its path is concerned.\<close>

definition addressed :: "typedclient \<Rightarrow> client_call \<Rightarrow> restrequest \<Rightarrow> bool" where
  "addressed c call r \<longleftrightarrow> ReqVerb r = callVerb call
     \<and> PathPrefix r = PathPrefix (NewRequest (TcRest c) (callVerb call))
     \<and> NamespaceSet r \<and> ReqNs r = TcNs c \<and> ReqRes r = ''replicatedstatefulsets''
     \<and> ResourceName r = fst (callTarget call) \<and> Subresource r = pathJoin (callSubs call)
     \<and> IsValidPathSegmentName (TcNs c) = [] \<and> IsValidPathSegmentName (fst (callTarget call)) = []
     \<and> (\<forall>s \<in> set (callSubs call). IsValidPathSegmentName s = []) \<and> (namedCall call \<longrightarrow> fst (callTarget call) \<noteq> [])"

lemma segment_constants [simp]:
  "IsValidPathSegmentName ''replicatedstatefulsets'' = []" "IsValidPathSegmentName ''status'' = []"
  "IsValidPathSegmentName [] = []"
  by (simp_all add: IsValidPathSegmentName_def NameMayNotBe_def NameMayNotContain_def)

lemma pathJoin_constants [simp]: "pathJoin [''status''] = ''status''" "pathJoin [] = []"
  by (simp_all add: pathJoin_def Clean_def cleanStep_def)

lemmas builder_defs = resourceReq_def reqNamespace_def reqResource_def reqName_def reqSubResource_def
  reqVersionedParams_def reqBody_def unlessErr_def failReq_def NewRequest_def
lemmas call_defs = RssGet_def RssList_def RssWatch_def RssCreate_def RssUpdate_def RssUpdateStatus_def
  RssDelete_def RssDeleteCollection_def RssPatch_def

lemma sent_requests:
  "snd (reqDo E r) = [] \<or> snd (reqDo E r) = [httpOf r] \<and> ReqErr r = None"
  "snd (reqWatch E r) = [] \<or> snd (reqWatch E r) = [httpOf r] \<and> ReqErr r = None"
  "snd (intoRss res) = snd res" "snd (intoList res) = snd res" "snd (errorOf res) = snd res"
  by (auto simp: reqDo_def reqWatch_def intoRss_def intoList_def errorOf_def split: option.splits prod.splits sum.splits list.splits)

lemma not_sent_fails:
  "snd (reqDo E r) = [] \<Longrightarrow> \<exists>e. fst (reqDo E r) = Inl e"
  "snd (reqWatch E r) = [] \<Longrightarrow> \<exists>e. fst (reqWatch E r) = Inl e"
  by (auto simp: reqDo_def reqWatch_def split: option.splits if_splits)

lemma intoErrors:
  "fst res = Inl e \<Longrightarrow> snd (fst (intoRss res)) = Some e"
  "fst res = Inl e \<Longrightarrow> snd (fst (intoList res)) = Some e"
  "fst res = Inl e \<Longrightarrow> fst (errorOf res) = Some e"
  by (cases res; simp add: intoRss_def intoList_def errorOf_def)+

lemma resourceReq_built:
  assumes "ReqErr (resourceReq c v) = None"
  shows "resourceReq c v = (NewRequest (TcRest c) v)\<lparr>NamespaceSet := True, ReqNs := TcNs c, ReqRes := ''replicatedstatefulsets''\<rparr>"
    and "IsValidPathSegmentName (TcNs c) = []"
  using assms by (auto simp: builder_defs split: if_splits)

lemma built_name:
  assumes "ReqErr (reqName n r) = None"
  shows "ReqErr r = None" and "n \<noteq> []" and "IsValidPathSegmentName n = []" and "reqName n r = r\<lparr>ResourceName := n\<rparr>"
  using assms by (simp_all add: reqName_def unlessErr_def failReq_def split: if_splits)

lemma built_subresource:
  assumes "ReqErr (reqSubResource subs r) = None"
  shows "ReqErr r = None" and "\<forall>s \<in> set subs. IsValidPathSegmentName s = []"
    and "reqSubResource subs r = r\<lparr>Subresource := pathJoin subs\<rparr>"
proof -
  show 1: "ReqErr r = None" using assms by (simp add: reqSubResource_def unlessErr_def split: if_splits)
  show 2: "\<forall>s \<in> set subs. IsValidPathSegmentName s = []"
  proof (cases "filter (\<lambda>s. IsValidPathSegmentName s \<noteq> []) subs")
    case Nil
    then show ?thesis by (simp add: filter_empty_conv)
  next
    case (Cons s ss)
    with assms 1 show ?thesis by (simp add: reqSubResource_def unlessErr_def failReq_def split: if_splits)
  qed
  then have "filter (\<lambda>s. IsValidPathSegmentName s \<noteq> []) subs = []" by (simp add: filter_empty_conv)
  with assms 1 show "reqSubResource subs r = r\<lparr>Subresource := pathJoin subs\<rparr>"
    by (simp add: reqSubResource_def unlessErr_def failReq_def split: if_splits)
qed

definition addr :: "restrequest \<Rightarrow> string \<times> string \<times> bool \<times> string \<times> string \<times> string \<times> string" where
  "addr r = (ReqVerb r, PathPrefix r, NamespaceSet r, ReqNs r, ReqRes r, ResourceName r, Subresource r)"

lemma built_params:
  "addr (reqVersionedParams E opts r) = addr r" "ReqErr (reqVersionedParams E opts r) = None \<Longrightarrow> ReqErr r = None"
  by (simp_all add: reqVersionedParams_def unlessErr_def addr_def split: sum.splits if_splits)

lemma built_body:
  "addr (reqBody E b r) = addr r" "ReqErr (reqBody E b r) = None \<Longrightarrow> ReqErr r = None"
  by (simp_all add: reqBody_def unlessErr_def addr_def split: body.split option.split sum.split if_splits)

lemma addressed_addr: "addr r = addr r' \<Longrightarrow> addressed c call r \<longleftrightarrow> addressed c call r'"
  by (simp add: addressed_def addr_def)

lemma built_resource:
  assumes "ReqErr (resourceReq c v) = None"
  shows "addr (resourceReq c v) = (v, PathPrefix (NewRequest (TcRest c) v), True, TcNs c, ''replicatedstatefulsets'', [], [])"
    and "IsValidPathSegmentName (TcNs c) = []"
  using resourceReq_built [OF assms] by (simp_all add: addr_def NewRequest_def)

lemma addr_name:
  assumes "ReqErr (reqName n r) = None" and "addr r = (v, p, b, ns, res, x, sub)"
  shows "addr (reqName n r) = (v, p, b, ns, res, n, sub)"
  unfolding built_name(4) [OF assms(1)] using assms(2) by (simp add: addr_def)

lemma addr_subresource:
  assumes "ReqErr (reqSubResource subs r) = None" and "addr r = (v, p, b, ns, res, n, x)"
  shows "addr (reqSubResource subs r) = (v, p, b, ns, res, n, pathJoin subs)"
  unfolding built_subresource(3) [OF assms(1)] using assms(2) by (simp add: addr_def)

lemmas built = built_params built_body built_name(1-3) built_subresource(1,2) built_resource(2)

lemma addressedI:
  assumes "addr r = (callVerb call, PathPrefix (NewRequest (TcRest c) (callVerb call)), True, TcNs c,
      ''replicatedstatefulsets'', fst (callTarget call), pathJoin (callSubs call))"
    and "IsValidPathSegmentName (TcNs c) = []" and "IsValidPathSegmentName (fst (callTarget call)) = []"
    and "\<forall>s \<in> set (callSubs call). IsValidPathSegmentName s = []" and "namedCall call \<Longrightarrow> fst (callTarget call) \<noteq> []"
  shows "addressed c call r"
  using assms by (auto simp: addressed_def addr_def)

text \<open>Four ways the methods build a request: for the collection, for a name, for its status, and for a patch.\<close>

lemma addressed_collection:
  assumes "ReqErr (resourceReq c (callVerb call)) = None" and "\<not> namedCall call"
  shows "addressed c call (resourceReq c (callVerb call))"
proof -
  have "fst (callTarget call) = []" "callSubs call = []" using assms(2) by (cases call; simp)+
  then show ?thesis using built_resource [OF assms(1)] by (intro addressedI) (simp_all add: assms(2))
qed

lemma addressed_named:
  assumes "ReqErr (reqName (fst (callTarget call)) (resourceReq c (callVerb call))) = None" and "callSubs call = []"
  shows "addressed c call (reqName (fst (callTarget call)) (resourceReq c (callVerb call)))"
proof -
  note n = built_name [OF assms(1)]
  show ?thesis
    using addr_name [OF assms(1) built_resource(1) [OF n(1)]] built_resource(2) [OF n(1)] n(2,3)
    by (intro addressedI) (simp_all add: assms(2))
qed

lemma addressed_status:
  assumes "ReqErr (reqSubResource [''status''] (reqName (RssName x) (resourceReq c ''PUT''))) = None"
  shows "addressed c (CallUpdateStatus x) (reqSubResource [''status''] (reqName (RssName x) (resourceReq c ''PUT'')))"
proof -
  note s = built_subresource [OF assms]
  note n = built_name [OF s(1)]
  show ?thesis
    using addr_subresource [OF assms addr_name [OF s(1) built_resource(1) [OF n(1)]]] built_resource(2) [OF n(1)] n(2,3)
    by (intro addressedI) simp_all
qed

lemma addressed_patch:
  assumes "ReqErr (reqName name (reqSubResource subs ((resourceReq c ''PATCH'')\<lparr>ContentType := Some pt\<rparr>))) = None"
  shows "addressed c (CallPatch name pt data subs)
    (reqName name (reqSubResource subs ((resourceReq c ''PATCH'')\<lparr>ContentType := Some pt\<rparr>)))"
proof -
  note n = built_name [OF assms]
  note s = built_subresource [OF n(1)]
  have r: "ReqErr (resourceReq c ''PATCH'') = None" using s(1) by simp
  have "addr ((resourceReq c ''PATCH'')\<lparr>ContentType := Some pt\<rparr>) =
      (''PATCH'', PathPrefix (NewRequest (TcRest c) ''PATCH''), True, TcNs c, ''replicatedstatefulsets'', [], [])"
    using built_resource(1) [OF r] by (simp add: addr_def)
  from addr_name [OF assms addr_subresource [OF n(1) this]] s(2) n(2,3) built_resource(2) [OF r] show ?thesis
    by (intro addressedI) simp_all
qed

text \<open>Each call sends nothing and returns an error, or sends the one request it has built.\<close>

definition sendsFor :: "typedclient \<Rightarrow> client_call \<Rightarrow> bool" where
  "sendsFor c call \<longleftrightarrow> (sentBy c call = [] \<and> callError c call \<noteq> None) \<or>
     (\<exists>r. sentBy c call = [httpOf r] \<and> addressed c call r)"

lemma sendsFor_do:
  assumes "sentBy c call = snd (reqDo E r)" and "\<And>e. fst (reqDo E r) = Inl e \<Longrightarrow> callError c call = Some e"
    and "ReqErr r = None \<Longrightarrow> addressed c call r"
  shows "sendsFor c call"
  using sent_requests(1) [of E r] not_sent_fails(1) [of E r] assms unfolding sendsFor_def by auto

lemma sendsFor_watch:
  assumes "sentBy c call = snd (reqWatch E r)" and "\<And>e. fst (reqWatch E r) = Inl e \<Longrightarrow> callError c call = Some e"
    and "ReqErr r = None \<Longrightarrow> addressed c call r"
  shows "sendsFor c call"
  using sent_requests(2) [of E r] not_sent_fails(2) [of E r] assms unfolding sendsFor_def by auto

lemma addressed_params:
  assumes "ReqErr r = None \<Longrightarrow> addressed c call r"
  shows "ReqErr (reqVersionedParams E opts r) = None \<Longrightarrow> addressed c call (reqVersionedParams E opts r)"
  unfolding addressed_addr [OF built_params(1)] by (rule assms) (rule built_params(2))

lemma addressed_body:
  assumes "ReqErr r = None \<Longrightarrow> addressed c call r"
  shows "ReqErr (reqBody E b r) = None \<Longrightarrow> addressed c call (reqBody E b r)"
  unfolding addressed_addr [OF built_body(1)] by (rule assms) (rule built_body(2))

lemma sends_get: "sendsFor c (CallGet name options)"
  by (rule sendsFor_do [where E = "TcRest c" and r = "reqVersionedParams (TcRest c) (GetOptions options) (reqName name (resourceReq c ''GET''))"])
    (use addressed_params [OF addressed_named [of "CallGet name options" c]] in \<open>simp_all add: RssGet_def sent_requests intoErrors\<close>)

lemma sends_list: "sendsFor c (CallList opts)"
  by (rule sendsFor_do [where E = "TcRest c" and r = "reqVersionedParams (TcRest c) (ListOptions opts) (resourceReq c ''GET'')"])
    (use addressed_params [OF addressed_collection [of c "CallList opts"]] in \<open>simp_all add: RssList_def sent_requests intoErrors\<close>)

lemma sends_watch: "sendsFor c (CallWatch opts)"
  by (rule sendsFor_watch [where E = "TcRest c" and r = "reqVersionedParams (TcRest c) (ListOptions (opts\<lparr>OptWatch := True\<rparr>)) (resourceReq c ''GET'')"])
    (use addressed_params [OF addressed_collection [of c "CallWatch opts"]] in \<open>simp_all add: RssWatch_def sent_requests intoErrors\<close>)

lemma sends_create: "sendsFor c (CallCreate x)"
  by (rule sendsFor_do [where E = "TcRest c" and r = "reqBody (TcRest c) (BodyRss x) (resourceReq c ''POST'')"])
    (use addressed_body [OF addressed_collection [of c "CallCreate x"]] in \<open>simp_all add: RssCreate_def sent_requests intoErrors\<close>)

lemma sends_update: "sendsFor c (CallUpdate x)"
  by (rule sendsFor_do [where E = "TcRest c" and r = "reqBody (TcRest c) (BodyRss x) (reqName (RssName x) (resourceReq c ''PUT''))"])
    (use addressed_body [OF addressed_named [of "CallUpdate x" c]] in \<open>simp_all add: RssUpdate_def sent_requests intoErrors\<close>)

lemma sends_update_status: "sendsFor c (CallUpdateStatus x)"
  by (rule sendsFor_do [where E = "TcRest c" and r = "reqBody (TcRest c) (BodyRss x) (reqSubResource [''status''] (reqName (RssName x) (resourceReq c ''PUT'')))"])
    (use addressed_body [OF addressed_status [of x c]] in \<open>simp_all add: RssUpdateStatus_def sent_requests intoErrors\<close>)

lemma sends_delete: "sendsFor c (CallDelete name options)"
  by (rule sendsFor_do [where E = "TcRest c" and r = "reqBody (TcRest c) (BodyDelete options) (reqName name (resourceReq c ''DELETE''))"])
    (use addressed_body [OF addressed_named [of "CallDelete name options" c]] in \<open>simp_all add: RssDelete_def sent_requests intoErrors\<close>)

lemma sends_delete_collection: "sendsFor c (CallDeleteCollection options opts)"
  by (rule sendsFor_do [where E = "TcRest c" and r = "reqBody (TcRest c) (BodyDelete options) (reqVersionedParams (TcRest c) (ListOptions opts) (resourceReq c ''DELETE''))"])
    (use addressed_body [OF addressed_params [OF addressed_collection [of c "CallDeleteCollection options opts"]]] in \<open>simp_all add: RssDeleteCollection_def sent_requests intoErrors\<close>)

lemma sends_patch: "sendsFor c (CallPatch name pt data subs)"
  by (rule sendsFor_do [where E = "TcRest c" and r = "reqBody (TcRest c) (BodyBytes data) (reqName name (reqSubResource subs ((resourceReq c ''PATCH'')\<lparr>ContentType := Some pt\<rparr>)))"])
    (use addressed_body [OF addressed_patch [where name = name and subs = subs and c = c and pt = pt and data = data]] in \<open>simp_all add: RssPatch_def sent_requests intoErrors\<close>)

lemma sends_all: "sendsFor c call"
  by (cases call) (simp_all add: sends_get sends_list sends_watch sends_create sends_update sends_update_status sends_delete sends_delete_collection sends_patch)

section \<open>Addresses\<close>

definition targetSegs :: "string \<Rightarrow> string \<Rightarrow> string list \<Rightarrow> string list" where
  "targetSegs ns name subs = (if ns = [] then [] else [''namespaces'', ns]) @ [''replicatedstatefulsets''] @
     (if name = [] then [] else [name]) @ subs"

lemma plain_constants [simp]:
  "segment ''namespaces''" "segment ''replicatedstatefulsets''" "segment ''apis''" "segment ''clusterlabs.org''" "segment ''v1alpha1''"
  by (simp_all add: segment_def NameMayNotBe_def)

lemma Split_segment: "s = [] \<or> segment s \<Longrightarrow> Split (CHR ''/'') s = [s]"
  by (auto simp: segment_def intro: Split_id)

lemma pathJoin_segments:
  assumes "list_all segment bs" and "\<forall>s \<in> set ss. s = [] \<or> segment s"
  shows "pathJoin (rooted bs # ss) = rooted (bs @ filter (\<lambda>t. t \<noteq> []) ss)"
proof -
  have "map (Split (CHR ''/'')) ss = map (\<lambda>s. [s]) ss" using assms(2) by (simp add: Split_segment)
  then have "concat (map (Split (CHR ''/'')) ss) = ss" by (simp only: concat_map_singleton list.map_ident)
  moreover have "\<forall>s \<in> set ss. \<forall>t \<in> set (Split (CHR ''/'') s). t = [] \<or> segment t" using assms(2) by (simp add: Split_segment)
  ultimately show ?thesis using pathJoin_rooted [OF assms(1), of ss] by simp
qed

lemma prefix_rooted:
  assumes "VersionedAPIPath E = ''/apis/clusterlabs.org/v1alpha1''"
  shows "\<exists>bs. list_all segment bs \<and> (\<forall>v. PathPrefix (NewRequest E v) = rooted bs)"
proof -
  obtain b where b: "list_all segment b" "pathJoin [''/'', BaseURLPath E] = rooted b"
    using Clean_rooted [of "CHR ''/'' # BaseURLPath E"] by (auto simp: pathJoin_def)
  have split: "Split (CHR ''/'') (VersionedAPIPath E) = [[], ''apis'', ''clusterlabs.org'', ''v1alpha1'']"
    by (simp add: assms)
  have "pathJoin [rooted b, VersionedAPIPath E] = rooted (b @ [''apis'', ''clusterlabs.org'', ''v1alpha1''])"
    by (subst pathJoin_rooted [OF b(1)]) (simp_all add: split)
  with b show ?thesis by (intro exI [of _ "b @ [''apis'', ''clusterlabs.org'', ''v1alpha1'']"]) (simp add: NewRequest_def)
qed

lemma pathJoin_end:
  assumes "list_all segment bs" and "name = [] \<or> segment name" and "\<forall>s \<in> set subs. s = [] \<or> segment s"
  shows "pathJoin [rooted bs, name, pathJoin subs] =
    rooted (bs @ (if name = [] then [] else [name]) @ filter (\<lambda>s. s \<noteq> []) subs)"
proof -
  let ?subs = "filter (\<lambda>s. s \<noteq> []) subs"
  have pl: "\<forall>s \<in> set ?subs. segment s" using assms(3) by auto
  have "Split (CHR ''/'') (pathJoin subs) = (if ?subs = [] then [[]] else ?subs)"
    unfolding pathJoin_plain [OF assms(3)] using pl by (auto simp: segment_def intro: Split_Join_plain)
  moreover have "\<forall>t \<in> set (if ?subs = [] then [[]] else ?subs). t = [] \<or> segment t" using pl by auto
  ultimately show ?thesis
    using assms(2) by (subst pathJoin_rooted [OF assms(1)]) (auto simp: Split_segment)
qed

lemma pathJoin_empty:
  assumes "\<forall>s \<in> set subs. s = [] \<or> segment s" and "pathJoin subs = []"
  shows "filter (\<lambda>s. s \<noteq> []) subs = []"
proof (cases "filter (\<lambda>s. s \<noteq> []) subs")
  case (Cons x xs)
  have "x \<in> set (filter (\<lambda>s. s \<noteq> []) subs)" unfolding Cons by simp
  then have "x \<noteq> []" by simp
  then show ?thesis using assms(2) hd_Join [of x xs "''/''"] by (simp add: pathJoin_plain [OF assms(1)] Cons)
qed simp

lemma pathJoin_target:
  assumes "list_all segment bs" and "name = [] \<or> segment name" and "\<forall>s \<in> set subs. s = [] \<or> segment s"
  shows "(if name \<noteq> [] \<or> pathJoin subs \<noteq> [] then pathJoin [rooted bs, name, pathJoin subs] else rooted bs) =
    rooted (bs @ (if name = [] then [] else [name]) @ filter (\<lambda>s. s \<noteq> []) subs)"
proof (cases "name \<noteq> [] \<or> pathJoin subs \<noteq> []")
  case True
  then show ?thesis using pathJoin_end [OF assms] by simp
next
  case False
  then have "name = []" "filter (\<lambda>s. s \<noteq> []) subs = []" using pathJoin_empty [OF assms(3)] by simp_all
  with False show ?thesis by simp
qed

lemma ToLower_resource: "ToLower ''replicatedstatefulsets'' = ''replicatedstatefulsets''"
  by (simp add: ToLower_def)

lemma addressed_path:
  assumes "addressed c call r" and "list_all segment bs" and "PathPrefix (NewRequest (TcRest c) (callVerb call)) = rooted bs"
  shows "reqURL r = rooted (bs @ targetSegs (TcNs c) (fst (callTarget call)) (snd (callTarget call)))"
    and "list_all segment (targetSegs (TcNs c) (fst (callTarget call)) (snd (callTarget call)))"
proof -
  let ?ns = "TcNs c" and ?name = "fst (callTarget call)" and ?subs = "callSubs call"
  have r: "PathPrefix r = rooted bs" "NamespaceSet r" "ReqNs r = ?ns" "ReqRes r = ''replicatedstatefulsets''"
      "ResourceName r = ?name" "Subresource r = pathJoin ?subs"
    and valid: "?ns = [] \<or> segment ?ns" "?name = [] \<or> segment ?name" "\<forall>s \<in> set ?subs. s = [] \<or> segment s"
    using assms(1,3) by (simp_all add: addressed_def IsValidPathSegmentName_iff)
  have subs: "filter (\<lambda>s. s \<noteq> []) ?subs = snd (callTarget call)" by (cases call) simp_all
  show pl: "list_all segment (targetSegs ?ns ?name (snd (callTarget call)))"
    using valid by (auto simp: targetSegs_def list_all_iff subs [symmetric])
  let ?b1 = "bs @ (if ?ns = [] then [] else [''namespaces'', ?ns])"
  let ?b2 = "?b1 @ [''replicatedstatefulsets'']"
  have b: "list_all segment ?b1" "list_all segment ?b2" using assms(2) valid(1) by auto
  have p1: "(if ?ns \<noteq> [] then pathJoin [rooted bs, ''namespaces'', ?ns] else rooted bs) = rooted ?b1"
    using pathJoin_segments [OF assms(2), of "[''namespaces'', ?ns]"] valid(1) by simp
  have p2: "pathJoin [rooted ?b1, ''replicatedstatefulsets''] = rooted ?b2"
    using pathJoin_segments [OF b(1), of "[''replicatedstatefulsets'']"] by simp
  note p3 = pathJoin_target [OF b(2) valid(2,3)]
  let ?p = "pathJoin [if ?ns \<noteq> [] then pathJoin [rooted bs, ''namespaces'', ?ns] else rooted bs, ''replicatedstatefulsets'']"
  have "reqURL r = (if ?name \<noteq> [] \<or> pathJoin ?subs \<noteq> [] then pathJoin [?p, ?name, pathJoin ?subs] else ?p)"
    by (simp add: reqURL_def r Let_def ToLower_resource)
  then show "reqURL r = rooted (bs @ targetSegs ?ns ?name (snd (callTarget call)))"
    unfolding p1 p2 p3 by (simp add: targetSegs_def subs)
qed

lemma targetSegs_inject:
  assumes "targetSegs ns name subs = targetSegs ns' name' subs'" and "name = [] \<Longrightarrow> subs = []" and "name' = [] \<Longrightarrow> subs' = []"
  shows "ns = ns' \<and> name = name' \<and> subs = subs'"
  using assms by (auto simp: targetSegs_def split: if_splits)

lemma callTarget_collection: "addressed c call r \<Longrightarrow> fst (callTarget call) = [] \<Longrightarrow> snd (callTarget call) = []"
  by (cases call) (auto simp: addressed_def)

lemma sent_address:
  assumes "VersionedAPIPath E = ''/apis/clusterlabs.org/v1alpha1''"
  obtains bs where "\<And>h ns call. h \<in> set (sentBy (newReplicatedStatefulSets E ns) call) \<Longrightarrow>
      HttpPath h = rooted (bs @ targetSegs ns (fst (callTarget call)) (snd (callTarget call)))
      \<and> list_all segment (bs @ targetSegs ns (fst (callTarget call)) (snd (callTarget call)))
      \<and> (fst (callTarget call) = [] \<longrightarrow> snd (callTarget call) = [])"
proof -
  obtain bs where bs: "list_all segment bs" "\<And>v. PathPrefix (NewRequest E v) = rooted bs"
    using prefix_rooted [OF assms] by blast
  have "HttpPath h = rooted (bs @ targetSegs ns (fst (callTarget call)) (snd (callTarget call)))
      \<and> list_all segment (bs @ targetSegs ns (fst (callTarget call)) (snd (callTarget call)))
      \<and> (fst (callTarget call) = [] \<longrightarrow> snd (callTarget call) = [])"
    if "h \<in> set (sentBy (newReplicatedStatefulSets E ns) call)" for h ns call
  proof -
    have "sentBy (newReplicatedStatefulSets E ns) call \<noteq> []" using that by auto
    with sends_all [of "newReplicatedStatefulSets E ns" call] obtain r
      where r: "sentBy (newReplicatedStatefulSets E ns) call = [httpOf r]" "addressed (newReplicatedStatefulSets E ns) call r"
      unfolding sendsFor_def by blast
    then have "h = httpOf r" using that by simp
    with addressed_path [OF r(2) bs(1)] bs callTarget_collection [OF r(2)] show ?thesis
      by (auto simp: newReplicatedStatefulSets_def httpOf_def)
  qed
  then show ?thesis by (rule that)
qed

lemma same_path_same_target:
  assumes "VersionedAPIPath E = ''/apis/clusterlabs.org/v1alpha1''"
    and "h \<in> set (sentBy (newReplicatedStatefulSets E ns) call)" and "h' \<in> set (sentBy (newReplicatedStatefulSets E ns') call')"
    and "HttpPath h = HttpPath h'"
  shows "ns = ns' \<and> callTarget call = callTarget call'"
proof -
  obtain bs where a: "\<And>h ns call. h \<in> set (sentBy (newReplicatedStatefulSets E ns) call) \<Longrightarrow>
      HttpPath h = rooted (bs @ targetSegs ns (fst (callTarget call)) (snd (callTarget call)))
      \<and> list_all segment (bs @ targetSegs ns (fst (callTarget call)) (snd (callTarget call)))
      \<and> (fst (callTarget call) = [] \<longrightarrow> snd (callTarget call) = [])"
    using sent_address [OF assms(1)] by blast
  note h = a [OF assms(2)] and h' = a [OF assms(3)]
  have "bs @ targetSegs ns (fst (callTarget call)) (snd (callTarget call)) =
      bs @ targetSegs ns' (fst (callTarget call')) (snd (callTarget call'))"
    by (rule rooted_inject) (use h h' assms(4) in simp_all)
  then have "ns = ns' \<and> fst (callTarget call) = fst (callTarget call') \<and> snd (callTarget call) = snd (callTarget call')"
    by (intro targetSegs_inject) (use h h' in simp_all)
  then show ?thesis by (simp add: prod_eq_iff)
qed


definition sample_rest :: restenv where
  "sample_rest = \<lparr>BaseURLPath = ''/k8s'', VersionedAPIPath = ''/apis/clusterlabs.org/v1alpha1'', ContentTypeOf = ''application/json'',
     EncodeParameters = \<lambda>p. Inr [], EncodeObject = \<lambda>b. Inr ''{}'', roundTrip = \<lambda>h. Inr [zero_rss]\<rparr>"


end
