(* ===== verification/FakeClient.thy ===== *)
theory FakeClient
  imports RestClient
begin

text \<open>
  The registration of the API types (register.go and the schemes of the clientsets) and the fake clientset
  used by tests: pkg/generated/clientset/versioned/fake and typed/clusterlabs/v1alpha1/fake, on the object
  tracker of vendor/k8s.io/client-go/testing.

  \<^item> A \<open>scheme\<close> lists the kinds with their Go types. \<open>UnsafeGuessKindToResource\<close> gives the resource under
    which \<open>NewSimpleClientset\<close> files an object.
  \<^item> The \<open>tracker\<close> has the objects by resource; \<open>ObjectReaction\<close> applies an action to it, and \<open>Invokes\<close>
    records the action and asks the reactors in their order.
  \<^item> The parsers of label and field selectors are the parameter \<open>selectors\<close>.

  The lemmas show that the fake client implements a map from namespaces and names to resources.
\<close>

section \<open>Registered types\<close>

type_synonym gvk = "string \<times> string \<times> string"
type_synonym gvr = "string \<times> string \<times> string"

datatype gotype = TRss | TRssList | TMeta string

text \<open>
  The types registered under each kind, and under the kinds that have no version. The kinds of a type are
  those it is registered under, in the order of registration.
\<close>

record scheme =
  GvkToType :: "(gvk \<times> gotype) list"
  UnversionedKinds :: "(string \<times> gotype) list"

definition NewScheme :: scheme where
  "NewScheme = \<lparr>GvkToType = [], UnversionedKinds = []\<rparr>"

fun typeName :: "gotype \<Rightarrow> string" where
  "typeName TRss = ''ReplicatedStatefulSet''"
| "typeName TRssList = ''ReplicatedStatefulSetList''"
| "typeName (TMeta n) = n"

definition AddKnownTypeWithName :: "gvk \<Rightarrow> gotype \<Rightarrow> scheme \<Rightarrow> scheme go" where
  "AddKnownTypeWithName k t s =
     (case k of (g, v, kind) \<Rightarrow>
        if v = [] then Panic (''version is required on all types: '' @ kind)
        else case map_of (GvkToType s) k of
          Some t' \<Rightarrow> if t' \<noteq> t then Panic (''Double registration of different types for '' @ kind) else Ret s
        | None \<Rightarrow> Ret (s\<lparr>GvkToType := GvkToType s @ [(k, t)]\<rparr>))"

definition AddKnownTypes :: "string \<Rightarrow> string \<Rightarrow> gotype list \<Rightarrow> scheme \<Rightarrow> scheme go" where
  "AddKnownTypes g v types = go_for (\<lambda>t. AddKnownTypeWithName (g, v, typeName t) t) types"

definition addUnversionedKind :: "gotype \<Rightarrow> scheme \<Rightarrow> scheme go" where
  "addUnversionedKind t s =
     (case map_of (UnversionedKinds s) (typeName t) of
        Some old \<Rightarrow> if t \<noteq> old then Panic (typeName old @ '' has already been registered as unversioned kind'') else Ret s
      | None \<Rightarrow> Ret (s\<lparr>UnversionedKinds := UnversionedKinds s @ [(typeName t, t)]\<rparr>))"

definition AddUnversionedTypes :: "string \<Rightarrow> string \<Rightarrow> gotype list \<Rightarrow> scheme \<Rightarrow> scheme go" where
  "AddUnversionedTypes g v types s = go_bind (AddKnownTypes g v types s) (go_for addUnversionedKind types)"

text \<open>
  \<open>AddToGroupVersion\<close> of the package metav1 registers the common types with a group version; its conversion
  and defaulting functions are left out.
\<close>

definition AddToGroupVersion :: "string \<Rightarrow> string \<Rightarrow> scheme \<Rightarrow> scheme go" where
  "AddToGroupVersion g v s =
     go_bind (AddKnownTypeWithName (g, v, ''WatchEvent'') (TMeta ''WatchEvent'') s) (\<lambda>s.
     go_bind (AddKnownTypeWithName (g, ''__internal'', ''WatchEvent'') (TMeta ''InternalEvent'') s) (\<lambda>s.
     go_bind (AddKnownTypes g v (map TMeta [''ListOptions'', ''ExportOptions'', ''GetOptions'', ''DeleteOptions'']) s)
       (AddUnversionedTypes [] ''v1''
          (map TMeta [''Status'', ''APIVersions'', ''APIGroupList'', ''APIGroup'', ''APIResourceList'']))))"

definition addKnownTypes :: "scheme \<Rightarrow> (go_error option \<times> scheme) go" where
  "addKnownTypes s =
     go_bind (AddKnownTypes groupName groupVersion [TRss, TRssList] s) (\<lambda>s.
     go_bind (AddToGroupVersion groupName groupVersion s) (\<lambda>s. Ret (None, s)))"

definition GroupResource :: "string \<Rightarrow> string \<times> string" where
  "GroupResource res = (groupName, res)"

definition AddToScheme :: "scheme \<Rightarrow> scheme go" where
  "AddToScheme s = go_bind (addKnownTypes s) (\<lambda>(_, s). Ret s)"

definition versionedScheme :: "scheme go" where
  "versionedScheme = go_bind (AddToGroupVersion [] ''v1'' NewScheme) AddToScheme"

definition fakeScheme :: "scheme go" where
  "fakeScheme = go_bind (AddToGroupVersion [] ''v1'' NewScheme) AddToScheme"

definition gvString :: "string \<Rightarrow> string \<Rightarrow> string" where
  "gvString g v =
     (if g = [] \<and> v = [] then [] else if g = [] \<and> v = ''v1'' then v else if g \<noteq> [] then g @ ''/'' @ v else v)"

definition NewNotRegisteredErrForKind :: "gvk \<Rightarrow> go_error" where
  "NewNotRegisteredErrForKind k =
     (case k of (g, v, kind) \<Rightarrow>
        ErrNew (if kind = [] then ''no version '' @ dquoted (gvString g v) @ '' has been registered''
          else if v = ''__internal'' then ''no kind '' @ dquoted kind @ '' is registered for the internal version of group '' @ dquoted g
          else ''no kind '' @ dquoted kind @ '' is registered for version '' @ dquoted (gvString g v)))"

definition schemeNew :: "scheme \<Rightarrow> gvk \<Rightarrow> go_error + gotype" where
  "schemeNew s k =
     (case map_of (GvkToType s) k of
        Some t \<Rightarrow> Inr t
      | None \<Rightarrow>
          (case map_of (UnversionedKinds s) (snd (snd k)) of
             Some t \<Rightarrow> Inr t
           | None \<Rightarrow> Inl (NewNotRegisteredErrForKind k)))"

definition ObjectKinds :: "scheme \<Rightarrow> gotype \<Rightarrow> gvk list" where
  "ObjectKinds s t = map fst (filter (\<lambda>e. snd e = t) (GvkToType s))"

definition HasSuffix :: "string \<Rightarrow> string \<Rightarrow> bool" where
  "HasSuffix s suf = (length suf \<le> length s \<and> drop (length s - length suf) s = suf)"

definition UnsafeGuessKindToResource :: "gvk \<Rightarrow> gvr" where
  "UnsafeGuessKindToResource k =
     (case k of (g, v, kind) \<Rightarrow>
        if kind = [] then ([], [], [])
        else let singular = ToLower kind
             in if HasSuffix singular ''endpoints'' then (g, v, singular)
                else if last singular = CHR ''s'' then (g, v, singular @ ''es'')
                else if last singular = CHR ''y'' then (g, v, butlast singular @ ''ies'')
                else (g, v, singular @ ''s''))"

section \<open>The tracker\<close>

text \<open>The tracker stores and returns deep copies, so its objects are values.\<close>

type_synonym tracker = "(gvr \<times> rss list) list"

definition qualifiedName :: "gvr \<Rightarrow> string" where
  "qualifiedName r = (case r of (g, v, res) \<Rightarrow> if g = [] then res else res @ ''.'' @ g)"

definition NewNotFound :: "gvr \<Rightarrow> string \<Rightarrow> go_error" where
  "NewNotFound r name = StatusError NotFound (qualifiedName r @ '' '' @ dquoted name @ '' not found'')"

definition NewAlreadyExists :: "gvr \<Rightarrow> string \<Rightarrow> go_error" where
  "NewAlreadyExists r name = StatusError AlreadyExists (qualifiedName r @ '' '' @ dquoted name @ '' already exists'')"

definition NewBadRequest :: "string \<Rightarrow> go_error" where
  "NewBadRequest msg = StatusError (OtherReason ''BadRequest'') msg"

definition mismatch :: "string \<Rightarrow> string \<Rightarrow> go_error" where
  "mismatch ns objNs = NewBadRequest (''request namespace does not match object namespace, request: '' @ dquoted ns @
     '' object: '' @ dquoted objNs)"

text \<open>The format of a resource that is passed by value: its \<^verbatim>\<open>String\<close> has a pointer receiver and is not used.\<close>

definition gvrString :: "gvr \<Rightarrow> string" where
  "gvrString r = (case r of (g, v, res) \<Rightarrow> ''{'' @ g @ '' '' @ v @ '' '' @ res @ ''}'')"

definition objectsOf :: "gvr \<Rightarrow> tracker \<Rightarrow> rss list" where
  "objectsOf r t = (case map_of t r of None \<Rightarrow> [] | Some objs \<Rightarrow> objs)"

definition filterByNamespaceAndName :: "rss list \<Rightarrow> string \<Rightarrow> string \<Rightarrow> rss list" where
  "filterByNamespaceAndName objs ns name =
     filter (\<lambda>o'. \<not> (ns \<noteq> [] \<and> RssNamespace o' \<noteq> ns) \<and> \<not> (name \<noteq> [] \<and> RssName o' \<noteq> name)) objs"

definition trackerGet :: "gvr \<Rightarrow> string \<Rightarrow> string \<Rightarrow> tracker \<Rightarrow> go_error + rss" where
  "trackerGet r ns name t =
     (case map_of t r of
        None \<Rightarrow> Inl (NewNotFound r name)
      | Some objs \<Rightarrow>
          (case filterByNamespaceAndName objs ns name of
             [] \<Rightarrow> Inl (NewNotFound r name)
           | [obj] \<Rightarrow> Inr obj
           | _ \<Rightarrow> Inl (ErrNew (''more than one object matched gvr '' @ gvrString r @ '', ns: '' @ dquoted ns @ '' name: '' @ dquoted name))))"

definition withNamespace :: "string \<Rightarrow> rss \<Rightarrow> rss" where
  "withNamespace ns obj = (if RssNamespace obj = [] then obj\<lparr>RssMeta := (RssMeta obj)\<lparr>ObjNamespace := ns\<rparr>\<rparr> else obj)"

definition sameKey :: "rss \<Rightarrow> rss \<Rightarrow> bool" where
  "sameKey a b \<longleftrightarrow> RssNamespace a = RssNamespace b \<and> RssName a = RssName b"

fun addLoop :: "gvr \<Rightarrow> bool \<Rightarrow> rss \<Rightarrow> rss list \<Rightarrow> (go_error option \<times> rss list) option" where
  "addLoop r replaceExisting obj [] = None"
| "addLoop r replaceExisting obj (o' # os) =
     (if sameKey o' obj then
        Some (if replaceExisting then (None, obj # os) else (Some (NewAlreadyExists r (RssName obj)), o' # os))
      else map_option (\<lambda>(e, os'). (e, o' # os')) (addLoop r replaceExisting obj os))"

definition trackerAdd :: "gvr \<Rightarrow> rss \<Rightarrow> string \<Rightarrow> bool \<Rightarrow> tracker \<Rightarrow> go_error option \<times> tracker" where
  "trackerAdd r obj0 ns replaceExisting t =
     (let obj = withNamespace ns obj0 in
      if ns \<noteq> RssNamespace obj
      then (Some (mismatch ns (RssNamespace obj)), t)
      else case addLoop r replaceExisting obj (objectsOf r t) of
        Some (None, objs) \<Rightarrow> (None, AList.update r objs t)
      | Some (Some e, _) \<Rightarrow> (Some e, t)
      | None \<Rightarrow>
          if replaceExisting then (Some (NewNotFound r (RssName obj)), t)
          else (None, AList.update r (objectsOf r t @ [obj]) t))"

fun deleteLoop :: "string \<Rightarrow> string \<Rightarrow> rss list \<Rightarrow> rss list option" where
  "deleteLoop ns name [] = None"
| "deleteLoop ns name (o' # os) =
     (if RssNamespace o' = ns \<and> RssName o' = name then Some os
      else map_option ((#) o') (deleteLoop ns name os))"

definition trackerDelete :: "gvr \<Rightarrow> string \<Rightarrow> string \<Rightarrow> tracker \<Rightarrow> go_error option \<times> tracker" where
  "trackerDelete r ns name t =
     (case deleteLoop ns name (objectsOf r t) of
        Some objs \<Rightarrow> (None, AList.update r objs t)
      | None \<Rightarrow> (Some (NewNotFound r name), t))"

definition trackerList :: "scheme \<Rightarrow> gvr \<Rightarrow> gvk \<Rightarrow> string \<Rightarrow> tracker \<Rightarrow> go_error + rss list" where
  "trackerList s r k ns t =
     (case k of (g, v, kind) \<Rightarrow>
        (case schemeNew s (g, if v = [] then ''__internal'' else v, kind @ ''List'') of
           Inl e \<Rightarrow> Inl e
         | Inr ty \<Rightarrow>
             if ty \<noteq> TRssList then Inl (ErrNew (dquoted (kind @ ''List'') @ '' is not a list type''))
             else (case map_of t r of
                     None \<Rightarrow> Inr []
                   | Some objs \<Rightarrow> Inr (filterByNamespaceAndName objs ns []))))"

text \<open>\<open>trackerAddObject\<close> is \<^verbatim>\<open>tracker.Add\<close> for a resource: it is filed under each kind of its type.\<close>

fun addKinds :: "gvk list \<Rightarrow> rss \<Rightarrow> tracker \<Rightarrow> go_error option \<times> tracker" where
  "addKinds [] obj t = (None, t)"
| "addKinds (k # ks) obj t =
     (case UnsafeGuessKindToResource k of (g, v, res) \<Rightarrow>
        (case trackerAdd (g, if v = ''__internal'' then [] else v, res) obj (RssNamespace obj) False t of
           (Some e, t') \<Rightarrow> (Some e, t')
         | (None, t') \<Rightarrow> addKinds ks obj t'))"

definition trackerAddObject :: "scheme \<Rightarrow> rss \<Rightarrow> tracker \<Rightarrow> go_error option \<times> tracker" where
  "trackerAddObject s obj t =
     (let ks = ObjectKinds s TRss
      in if ks = [] then (Some (ErrNew ''no kind is registered for the type ReplicatedStatefulSet''), t) else addKinds ks obj t)"

section \<open>Actions and reactions\<close>

datatype action =
    GetAction gvr string string
  | ListAction gvr gvk string listoptions
  | CreateAction gvr string string rss
  | UpdateAction gvr string string rss
  | DeleteAction gvr string string
  | DeleteCollectionAction gvr string listoptions
  | PatchAction gvr string string string string
  | WatchAction gvr string listoptions

fun actionVerb :: "action \<Rightarrow> string" where
  "actionVerb (GetAction _ _ _) = ''get''"
| "actionVerb (ListAction _ _ _ _) = ''list''"
| "actionVerb (CreateAction _ _ _ _) = ''create''"
| "actionVerb (UpdateAction _ _ _ _) = ''update''"
| "actionVerb (DeleteAction _ _ _) = ''delete''"
| "actionVerb (DeleteCollectionAction _ _ _) = ''delete-collection''"
| "actionVerb (PatchAction _ _ _ _ _) = ''patch''"
| "actionVerb (WatchAction _ _ _) = ''watch''"

fun actionResource :: "action \<Rightarrow> gvr" where
  "actionResource (GetAction r _ _) = r"
| "actionResource (ListAction r _ _ _) = r"
| "actionResource (CreateAction r _ _ _) = r"
| "actionResource (UpdateAction r _ _ _) = r"
| "actionResource (DeleteAction r _ _) = r"
| "actionResource (DeleteCollectionAction r _ _) = r"
| "actionResource (PatchAction r _ _ _ _) = r"
| "actionResource (WatchAction r _ _) = r"

text \<open>Objects as interfaces, nil being \<open>None\<close>.\<close>

datatype fakeobj = FObj rss | FList "rss list"

type_synonym reaction = "bool \<times> fakeobj option \<times> go_error option"

definition asObject :: "go_error + rss \<Rightarrow> reaction" where
  "asObject res = (case res of Inl e \<Rightarrow> (True, None, Some e) | Inr obj \<Rightarrow> (True, Some (FObj obj), None))"

fun ObjectReaction :: "scheme \<Rightarrow> action \<Rightarrow> tracker \<Rightarrow> reaction \<times> tracker" where
  "ObjectReaction s (ListAction r k ns opts) t =
     ((case trackerList s r k ns t of Inl e \<Rightarrow> (True, None, Some e) | Inr objs \<Rightarrow> (True, Some (FList objs), None)), t)"
| "ObjectReaction s (GetAction r ns name) t = (asObject (trackerGet r ns name t), t)"
| "ObjectReaction s (CreateAction r sub ns obj) t =
     (case trackerAdd r obj ns (sub \<noteq> []) t of
        (Some e, t') \<Rightarrow> ((True, None, Some e), t')
      | (None, t') \<Rightarrow> (asObject (trackerGet r ns (RssName obj) t'), t'))"
| "ObjectReaction s (UpdateAction r sub ns obj) t =
     (case trackerAdd r obj ns True t of
        (Some e, t') \<Rightarrow> ((True, None, Some e), t')
      | (None, t') \<Rightarrow> (asObject (trackerGet r ns (RssName obj) t'), t'))"
| "ObjectReaction s (DeleteAction r ns name) t =
     (case trackerDelete r ns name t of (e, t') \<Rightarrow> ((True, None, e), t'))"
| "ObjectReaction s a t = ((False, None, Some (ErrNew ''no reaction implemented'')), t)"

record reactor =
  ReactVerb :: string
  ReactResource :: string
  React :: "action \<Rightarrow> tracker \<Rightarrow> reaction \<times> tracker"

definition Handles :: "reactor \<Rightarrow> action \<Rightarrow> bool" where
  "Handles r a \<longleftrightarrow> (ReactVerb r = ''*'' \<or> ReactVerb r = actionVerb a) \<and>
     (ReactResource r = ''*'' \<or> ReactResource r = snd (snd (actionResource a)))"

record fake =
  FkActions :: "action list"
  FkTracker :: tracker
  ReactionChain :: "reactor list"

fun runChain :: "reactor list \<Rightarrow> action \<Rightarrow> fakeobj \<Rightarrow> tracker \<Rightarrow> (fakeobj option \<times> go_error option) \<times> tracker" where
  "runChain [] a dflt t = ((Some dflt, None), t)"
| "runChain (r # rs) a dflt t =
     (if \<not> Handles r a then runChain rs a dflt t
      else case React r a t of
        ((handled, obj, err), t') \<Rightarrow> if \<not> handled then runChain rs a dflt t' else ((obj, err), t'))"

definition Invokes :: "action \<Rightarrow> fakeobj \<Rightarrow> fake \<Rightarrow> (fakeobj option \<times> go_error option) \<times> fake" where
  "Invokes a dflt f =
     (case runChain (ReactionChain f) a dflt (FkTracker f) of
        (res, t') \<Rightarrow> (res, f\<lparr>FkActions := FkActions f @ [a], FkTracker := t'\<rparr>))"

section \<open>The fake clientset\<close>

record selectors =
  ParseLabels :: "string \<Rightarrow> go_error + ((string \<times> string) list \<Rightarrow> bool)"
  ParseFields :: "string \<Rightarrow> go_error + string"

definition ExtractFromListOptions :: "selectors \<Rightarrow> listoptions \<Rightarrow> ((string \<times> string) list \<Rightarrow> bool) go" where
  "ExtractFromListOptions P opts =
     (case ParseLabels P (LabelSelector opts) of
        Inl e \<Rightarrow> Panic (''invalid selector '' @ dquoted (LabelSelector opts) @ '': '' @ Error e)
      | Inr matches \<Rightarrow>
          (case ParseFields P (FieldSelector opts) of
             Inl e \<Rightarrow> Panic (''invalid selector '' @ dquoted (FieldSelector opts) @ '': '' @ Error e)
           | Inr _ \<Rightarrow> Ret matches))"

definition rssResource :: gvr where
  "rssResource = (''clusterlabs.org'', ''v1alpha1'', ''replicatedstatefulsets'')"
definition rssKind :: gvk where
  "rssKind = (''clusterlabs.org'', ''v1alpha1'', ''ReplicatedStatefulSet'')"

text \<open>The type assertion on the object that comes back; nil stays nil.\<close>

definition assertRss :: "(fakeobj option \<times> go_error option) \<times> fake \<Rightarrow> ((rss option \<times> go_error option) \<times> fake) go" where
  "assertRss res = (case res of
      ((None, err), f) \<Rightarrow> Ret ((None, err), f)
    | ((Some (FObj obj), err), f) \<Rightarrow> Ret ((Some obj, err), f)
    | ((Some (FList _), err), f) \<Rightarrow> Panic ''interface conversion'')"

definition FakeGet :: "string \<Rightarrow> string \<Rightarrow> fake \<Rightarrow> ((rss option \<times> go_error option) \<times> fake) go" where
  "FakeGet ns name f = assertRss (Invokes (GetAction rssResource ns name) (FObj zero_rss) f)"

definition FakeList :: "selectors \<Rightarrow> string \<Rightarrow> listoptions \<Rightarrow> fake \<Rightarrow> ((rss list option \<times> go_error option) \<times> fake) go" where
  "FakeList P ns opts f =
     go_bind (ExtractFromListOptions P opts) (\<lambda>_.
       case Invokes (ListAction rssResource rssKind ns opts) (FList []) f of
         ((None, err), f') \<Rightarrow> Ret ((None, err), f')
       | ((Some obj, err), f') \<Rightarrow>
           go_bind (ExtractFromListOptions P opts) (\<lambda>matches.
             case obj of
               FList items \<Rightarrow> Ret ((Some (filter (\<lambda>item. matches (gm_list (Labels (RssMeta item)))) items), err), f')
             | FObj _ \<Rightarrow> Panic ''interface conversion''))"

definition FakeCreate :: "string \<Rightarrow> rss \<Rightarrow> fake \<Rightarrow> ((rss option \<times> go_error option) \<times> fake) go" where
  "FakeCreate ns r f = assertRss (Invokes (CreateAction rssResource [] ns r) (FObj zero_rss) f)"

definition FakeUpdate :: "string \<Rightarrow> rss \<Rightarrow> fake \<Rightarrow> ((rss option \<times> go_error option) \<times> fake) go" where
  "FakeUpdate ns r f = assertRss (Invokes (UpdateAction rssResource [] ns r) (FObj zero_rss) f)"

definition FakeUpdateStatus :: "string \<Rightarrow> rss \<Rightarrow> fake \<Rightarrow> ((rss option \<times> go_error option) \<times> fake) go" where
  "FakeUpdateStatus ns r f = assertRss (Invokes (UpdateAction rssResource ''status'' ns r) (FObj zero_rss) f)"

definition FakeDelete :: "string \<Rightarrow> string \<Rightarrow> fake \<Rightarrow> go_error option \<times> fake" where
  "FakeDelete ns name f =
     (case Invokes (DeleteAction rssResource ns name) (FObj zero_rss) f of ((_, err), f') \<Rightarrow> (err, f'))"

definition FakeDeleteCollection :: "selectors \<Rightarrow> string \<Rightarrow> listoptions \<Rightarrow> fake \<Rightarrow> (go_error option \<times> fake) go" where
  "FakeDeleteCollection P ns opts f =
     go_bind (ExtractFromListOptions P opts) (\<lambda>_.
       case Invokes (DeleteCollectionAction rssResource ns opts) (FList []) f of ((_, err), f') \<Rightarrow> Ret (err, f'))"

definition FakePatch :: "string \<Rightarrow> string \<Rightarrow> string \<Rightarrow> string list \<Rightarrow> fake \<Rightarrow> ((rss option \<times> go_error option) \<times> fake) go" where
  "FakePatch ns name data subs f =
     assertRss (Invokes (PatchAction rssResource (pathJoin subs) ns name data) (FObj zero_rss) f)"

text \<open>The only watch reactor of the clientset returns its fake watch and no error.\<close>

definition FakeWatch :: "selectors \<Rightarrow> string \<Rightarrow> listoptions \<Rightarrow> fake \<Rightarrow> (go_error option \<times> fake) go" where
  "FakeWatch P ns opts f =
     go_bind (ExtractFromListOptions P opts) (\<lambda>_.
       Ret (None, f\<lparr>FkActions := FkActions f @ [WatchAction rssResource ns opts]\<rparr>))"

definition objectReactor :: "scheme \<Rightarrow> reactor" where
  "objectReactor s = \<lparr>ReactVerb = ''*'', ReactResource = ''*'', React = ObjectReaction s\<rparr>"

definition addPanics :: "scheme \<Rightarrow> rss \<Rightarrow> tracker \<Rightarrow> tracker go" where
  "addPanics s obj t = (case trackerAddObject s obj t of (Some e, _) \<Rightarrow> Panic (Error e) | (None, t') \<Rightarrow> Ret t')"

definition NewSimpleClientset :: "rss list \<Rightarrow> fake go" where
  "NewSimpleClientset objects =
     go_bind fakeScheme (\<lambda>s.
     go_bind (go_for (addPanics s) objects [])
       (\<lambda>t. Ret \<lparr>FkActions = [], FkTracker = t, ReactionChain = [objectReactor s]\<rparr>))"

section \<open>The abstract store\<close>

type_synonym store = "string \<times> string \<Rightarrow> rss option"

definition key :: "rss \<Rightarrow> string \<times> string" where
  "key obj = (RssNamespace obj, RssName obj)"

definition byKey :: "rss list \<Rightarrow> store" where
  "byKey objs = map_of (map (\<lambda>obj. (key obj, obj)) objs)"

definition storeOf :: "tracker \<Rightarrow> store" where
  "storeOf t = byKey (objectsOf rssResource t)"

definition tracker_wf :: "tracker \<Rightarrow> bool" where
  "tracker_wf t \<longleftrightarrow> distinct (map key (objectsOf rssResource t))"

datatype store_call = SGet string string | SCreate string rss | SUpdate string rss | SUpdateStatus string rss | SDelete string string

definition storeUpdate :: "string \<Rightarrow> rss \<Rightarrow> store \<Rightarrow> (rss option \<times> go_error option) \<times> store" where
  "storeUpdate ns r m =
     (let r' = withNamespace ns r in
      if RssNamespace r' \<noteq> ns then ((None, Some (mismatch ns (RssNamespace r'))), m)
      else if m (key r') = None then ((None, Some (NewNotFound rssResource (RssName r'))), m)
      else ((Some r', None), m(key r' \<mapsto> r')))"

fun storeStep :: "store_call \<Rightarrow> store \<Rightarrow> (rss option \<times> go_error option) \<times> store" where
  "storeStep (SGet ns name) m =
     ((case m (ns, name) of None \<Rightarrow> (None, Some (NewNotFound rssResource name)) | Some r \<Rightarrow> (Some r, None)), m)"
| "storeStep (SCreate ns r) m =
     (let r' = withNamespace ns r in
      if RssNamespace r' \<noteq> ns then ((None, Some (mismatch ns (RssNamespace r'))), m)
      else if m (key r') \<noteq> None then ((None, Some (NewAlreadyExists rssResource (RssName r'))), m)
      else ((Some r', None), m(key r' \<mapsto> r')))"
| "storeStep (SUpdate ns r) m = storeUpdate ns r m"
| "storeStep (SUpdateStatus ns r) m = storeUpdate ns r m"
| "storeStep (SDelete ns name) m =
     (if m (ns, name) = None then ((None, Some (NewNotFound rssResource name)), m)
      else ((None, None), m((ns, name) := None)))"

fun fakeStep :: "store_call \<Rightarrow> fake \<Rightarrow> ((rss option \<times> go_error option) \<times> fake) go" where
  "fakeStep (SGet ns name) f = FakeGet ns name f"
| "fakeStep (SCreate ns r) f = FakeCreate ns r f"
| "fakeStep (SUpdate ns r) f = FakeUpdate ns r f"
| "fakeStep (SUpdateStatus ns r) f = FakeUpdateStatus ns r f"
| "fakeStep (SDelete ns name) f = (case FakeDelete ns name f of (err, f') \<Rightarrow> Ret ((None, err), f'))"

text \<open>An empty namespace or name matches every object, so the calls of the contract have both.\<close>

fun proper :: "store_call \<Rightarrow> bool" where
  "proper (SGet ns name) \<longleftrightarrow> ns \<noteq> [] \<and> name \<noteq> []"
| "proper (SCreate ns r) \<longleftrightarrow> ns \<noteq> [] \<and> RssName r \<noteq> []"
| "proper (SUpdate ns r) \<longleftrightarrow> ns \<noteq> [] \<and> RssName r \<noteq> []"
| "proper (SUpdateStatus ns r) \<longleftrightarrow> ns \<noteq> [] \<and> RssName r \<noteq> []"
| "proper (SDelete ns name) \<longleftrightarrow> ns \<noteq> [] \<and> name \<noteq> []"

lemma byKey_simps [simp]: "byKey [] k = None" "byKey (obj # objs) k = (if k = key obj then Some obj else byKey objs k)"
  by (simp_all add: byKey_def)

lemma key_iff [simp]: "RssNamespace x = ns \<and> RssName x = name \<longleftrightarrow> key x = (ns, name)" "sameKey x y \<longleftrightarrow> key x = key y"
  by (simp_all add: key_def sameKey_def)

lemma byKey_None: "byKey objs k = None \<longleftrightarrow> k \<notin> key ` set objs"
  by (induction objs) auto

lemma filter_byKey:
  "distinct (map key objs) \<Longrightarrow> filter (\<lambda>obj. key obj = k) objs = (case byKey objs k of None \<Rightarrow> [] | Some obj \<Rightarrow> [obj])"
proof (induction objs)
  case (Cons obj objs)
  then show ?case using byKey_None [of objs "key obj"] by auto
qed simp

lemma withNamespace_name [simp]: "RssName (withNamespace ns r) = RssName r"
  by (simp add: withNamespace_def)

lemma objectsOf_update [simp]: "objectsOf r (AList.update r objs t) = objs"
  by (simp add: objectsOf_def update_conv')

lemma trackerGet_store:
  assumes "tracker_wf t" and "ns \<noteq> []" and "name \<noteq> []"
  shows "asObject (trackerGet rssResource ns name t) =
    (case storeOf t (ns, name) of None \<Rightarrow> (True, None, Some (NewNotFound rssResource name)) | Some r \<Rightarrow> (True, Some (FObj r), None))"
proof (cases "map_of t rssResource")
  case None
  then show ?thesis by (simp add: trackerGet_def storeOf_def objectsOf_def asObject_def)
next
  case (Some objs)
  have "filterByNamespaceAndName objs ns name = filter (\<lambda>obj. key obj = (ns, name)) objs"
    unfolding filterByNamespaceAndName_def by (rule filter_cong) (use assms(2,3) in \<open>auto simp: key_def simp del: key_iff\<close>)
  with filter_byKey [of objs "(ns, name)"] assms(1) Some show ?thesis
    by (simp add: trackerGet_def storeOf_def objectsOf_def tracker_wf_def asObject_def split: option.splits)
qed

lemma addLoop_missing: "byKey objs (key obj) = None \<Longrightarrow> addLoop r b obj objs = None"
  by (induction objs) (simp_all split: if_splits)

lemma addLoop_taken: "byKey objs (key obj) \<noteq> None \<Longrightarrow> addLoop r False obj objs = Some (Some (NewAlreadyExists r (RssName obj)), objs)"
  by (induction objs) (auto split: if_splits)

lemma addLoop_replaces:
  assumes "byKey objs (key obj) \<noteq> None" and "distinct (map key objs)"
  obtains objs' where "addLoop r True obj objs = Some (None, objs')" and "map key objs' = map key objs"
    and "\<And>k. byKey objs' k = (if k = key obj then Some obj else byKey objs k)"
  using assms
proof (induction objs arbitrary: thesis)
  case (Cons x objs)
  show ?case
  proof (cases "key x = key obj")
    case True
    show ?thesis by (rule Cons.prems(1) [of "obj # objs"]) (simp_all add: True)
  next
    case False
    show ?thesis
    proof (rule Cons.IH)
      fix objs'
      assume "addLoop r True obj objs = Some (None, objs')" "map key objs' = map key objs"
        "\<And>k. byKey objs' k = (if k = key obj then Some obj else byKey objs k)"
      with False show ?thesis by (intro Cons.prems(1) [of "x # objs'"]) simp_all
    qed (use Cons.prems(2,3) False in simp_all)
  qed
qed simp

lemma deleteLoop_missing: "byKey objs (ns, name) = None \<Longrightarrow> deleteLoop ns name objs = None"
  by (induction objs) (simp_all split: if_splits)

lemma deleteLoop_deletes:
  assumes "byKey objs (ns, name) \<noteq> None" and "distinct (map key objs)"
  obtains objs' where "deleteLoop ns name objs = Some objs'" and "set (map key objs') \<subseteq> set (map key objs)"
    and "distinct (map key objs')" and "\<And>k. byKey objs' k = (if k = (ns, name) then None else byKey objs k)"
  using assms
proof (induction objs arbitrary: thesis)
  case (Cons x objs)
  show ?case
  proof (cases "key x = (ns, name)")
    case True
    then have "byKey objs (ns, name) = None" using Cons.prems(3) by (simp add: byKey_None)
    then show ?thesis by (intro Cons.prems(1) [of objs]) (use True Cons.prems(3) in auto)
  next
    case False
    show ?thesis
    proof (rule Cons.IH)
      fix objs'
      assume o: "deleteLoop ns name objs = Some objs'" "set (map key objs') \<subseteq> set (map key objs)"
        "distinct (map key objs')" "\<And>k. byKey objs' k = (if k = (ns, name) then None else byKey objs k)"
      show ?thesis by (rule Cons.prems(1) [of "x # objs'"]) (use o False Cons.prems(3) in auto)
    qed (use Cons.prems(2,3) False in simp_all)
  qed
qed simp

lemma byKey_append:
  assumes "byKey objs (key r) = None"
  shows "byKey (objs @ [r]) = (byKey objs)(key r \<mapsto> r)"
proof
  fix k
  have "byKey (objs @ [r]) k = (case byKey objs k of Some x \<Rightarrow> Some x | None \<Rightarrow> if k = key r then Some r else None)"
    by (induction objs) simp_all
  with assms show "byKey (objs @ [r]) k = ((byKey objs)(key r \<mapsto> r)) k" by (cases "k = key r") (simp_all split: option.splits)
qed

lemma trackerAdd_create:
  assumes "tracker_wf t"
  obtains t' where "trackerAdd rssResource r ns False t = (snd (fst (storeStep (SCreate ns r) (storeOf t))), t')"
    and "tracker_wf t'" and "storeOf t' = snd (storeStep (SCreate ns r) (storeOf t))"
proof (cases "RssNamespace (withNamespace ns r) \<noteq> ns \<or> storeOf t (key (withNamespace ns r)) \<noteq> None")
  case True
  show ?thesis
    by (rule that [of t]) (use True assms in \<open>auto simp: trackerAdd_def Let_def storeOf_def addLoop_taken\<close>)
next
  case False
  let ?r = "withNamespace ns r" and ?objs = "objectsOf rssResource t"
  have new: "byKey ?objs (key ?r) = None" using False by (simp add: storeOf_def)
  note last = byKey_append [OF new]
  show ?thesis
    by (rule that [of "AList.update rssResource (?objs @ [?r]) t"])
      (use False new last assms in \<open>auto simp: trackerAdd_def Let_def addLoop_missing storeOf_def tracker_wf_def byKey_None\<close>)
qed

lemma trackerAdd_update:
  assumes "tracker_wf t"
  obtains t' where "trackerAdd rssResource r ns True t = (snd (fst (storeUpdate ns r (storeOf t))), t')"
    and "tracker_wf t'" and "storeOf t' = snd (storeUpdate ns r (storeOf t))"
proof (cases "RssNamespace (withNamespace ns r) \<noteq> ns \<or> storeOf t (key (withNamespace ns r)) = None")
  case True
  show ?thesis
    by (rule that [of t])
      (use True assms in \<open>auto simp: trackerAdd_def storeUpdate_def Let_def storeOf_def addLoop_missing\<close>)
next
  case False
  let ?r = "withNamespace ns r" and ?objs = "objectsOf rssResource t"
  obtain objs where objs: "addLoop rssResource True ?r ?objs = Some (None, objs)" "map key objs = map key ?objs"
    "\<And>k. byKey objs k = (if k = key ?r then Some ?r else byKey ?objs k)"
    using addLoop_replaces [of ?objs ?r rssResource] False assms by (auto simp: storeOf_def tracker_wf_def)
  have "byKey objs = (byKey ?objs)(key ?r \<mapsto> ?r)" by (rule ext) (simp add: objs(3))
  then show ?thesis
    by (intro that [of "AList.update rssResource objs t"])
      (use False objs(1,2) assms in \<open>auto simp: trackerAdd_def storeUpdate_def Let_def storeOf_def tracker_wf_def\<close>)
qed

lemma trackerDelete_store:
  assumes "tracker_wf t"
  obtains t' where "trackerDelete rssResource ns name t = (snd (fst (storeStep (SDelete ns name) (storeOf t))), t')"
    and "tracker_wf t'" and "storeOf t' = snd (storeStep (SDelete ns name) (storeOf t))"
proof (cases "storeOf t (ns, name) = None")
  case True
  then show ?thesis
    by (intro that [of t]) (use assms in \<open>auto simp: trackerDelete_def storeOf_def deleteLoop_missing\<close>)
next
  case False
  let ?objs = "objectsOf rssResource t"
  have "byKey ?objs (ns, name) \<noteq> None" "distinct (map key ?objs)" using False assms by (simp_all add: storeOf_def tracker_wf_def)
  from deleteLoop_deletes [OF this] obtain objs where objs: "deleteLoop ns name ?objs = Some objs" "distinct (map key objs)"
    "\<And>k. byKey objs k = (if k = (ns, name) then None else byKey ?objs k)"
    by blast
  have "byKey objs = (byKey ?objs)((ns, name) := None)" by (rule ext) (simp add: objs(3))
  then show ?thesis
    by (intro that [of "AList.update rssResource objs t"])
      (use False objs(1,2) in \<open>auto simp: trackerDelete_def storeOf_def tracker_wf_def\<close>)
qed

section \<open>The fake client implements the store\<close>

definition serving :: "scheme \<Rightarrow> fake \<Rightarrow> bool" where
  "serving s f \<longleftrightarrow> tracker_wf (FkTracker f) \<and> ReactionChain f = [objectReactor s]"

fun actionOf :: "store_call \<Rightarrow> action" where
  "actionOf (SGet ns name) = GetAction rssResource ns name"
| "actionOf (SCreate ns r) = CreateAction rssResource [] ns r"
| "actionOf (SUpdate ns r) = UpdateAction rssResource [] ns r"
| "actionOf (SUpdateStatus ns r) = UpdateAction rssResource ''status'' ns r"
| "actionOf (SDelete ns name) = DeleteAction rssResource ns name"

text \<open>The reaction to a call is the step of the store.\<close>

definition reacts :: "scheme \<Rightarrow> store_call \<Rightarrow> tracker \<Rightarrow> bool" where
  "reacts s call t \<longleftrightarrow> (\<exists>obj err t'. ObjectReaction s (actionOf call) t = ((True, map_option FObj obj, err), t')
     \<and> storeStep call (storeOf t) = ((obj, err), storeOf t') \<and> tracker_wf t')"

lemma Invokes_tracked:
  assumes "serving s f" and "ObjectReaction s a (FkTracker f) = ((True, obj, err), t')"
  shows "Invokes a dflt f = ((obj, err), f\<lparr>FkActions := FkActions f @ [a], FkTracker := t'\<rparr>)"
  using assms by (simp add: Invokes_def serving_def objectReactor_def Handles_def)

lemma reactsI:
  "ObjectReaction s (actionOf call) t = ((True, map_option FObj obj, err), t') \<Longrightarrow>
   storeStep call (storeOf t) = ((obj, err), storeOf t') \<Longrightarrow> tracker_wf t' \<Longrightarrow> reacts s call t"
  unfolding reacts_def by blast

lemma stored_back:
  assumes "tracker_wf t" and "ns \<noteq> []" and "RssName r \<noteq> []" and "RssNamespace (withNamespace ns r) = ns"
    and "storeOf t = m(key (withNamespace ns r) \<mapsto> withNamespace ns r)"
  shows "asObject (trackerGet rssResource ns (RssName r) t) = (True, Some (FObj (withNamespace ns r)), None)"
proof -
  have "key (withNamespace ns r) = (ns, RssName r)" using assms(4) by (simp add: key_def)
  then show ?thesis using trackerGet_store [OF assms(1-3)] by (simp add: assms(5))
qed

lemma reacts_get: "tracker_wf t \<Longrightarrow> proper (SGet ns name) \<Longrightarrow> reacts s (SGet ns name) t"
  by (rule reactsI [where t' = t and obj = "storeOf t (ns, name)" and err = "snd (fst (storeStep (SGet ns name) (storeOf t)))"])
    (auto simp: trackerGet_store split: option.splits)

lemma reacts_create:
  assumes "tracker_wf t" and "proper (SCreate ns r)"
  shows "reacts s (SCreate ns r) t"
proof -
  obtain t' where t': "trackerAdd rssResource r ns False t = (snd (fst (storeStep (SCreate ns r) (storeOf t))), t')"
    "tracker_wf t'" "storeOf t' = snd (storeStep (SCreate ns r) (storeOf t))"
    using trackerAdd_create [OF assms(1)] by blast
  show ?thesis
  proof (cases "RssNamespace (withNamespace ns r) \<noteq> ns \<or> storeOf t (key (withNamespace ns r)) \<noteq> None")
    case True
    with t' show ?thesis
      by (intro reactsI [where t' = t' and obj = None and err = "snd (fst (storeStep (SCreate ns r) (storeOf t)))"])
        (auto simp: Let_def)
  next
    case False
    with t' have "storeOf t' = (storeOf t)(key (withNamespace ns r) \<mapsto> withNamespace ns r)" by (simp add: Let_def)
    from stored_back [OF t'(2) _ _ _ this] False assms(2) t' show ?thesis
      by (intro reactsI [where t' = t' and obj = "Some (withNamespace ns r)" and err = None]) (simp_all add: Let_def)
  qed
qed

lemma reacts_update_action:
  assumes "tracker_wf t" and "ns \<noteq> []" and "RssName r \<noteq> []"
  shows "\<exists>obj err t'. ObjectReaction s (UpdateAction rssResource sub ns r) t = ((True, map_option FObj obj, err), t')
     \<and> storeUpdate ns r (storeOf t) = ((obj, err), storeOf t') \<and> tracker_wf t'"
proof -
  obtain t' where t': "trackerAdd rssResource r ns True t = (snd (fst (storeUpdate ns r (storeOf t))), t')"
    "tracker_wf t'" "storeOf t' = snd (storeUpdate ns r (storeOf t))"
    using trackerAdd_update [OF assms(1)] by blast
  show ?thesis
  proof (cases "RssNamespace (withNamespace ns r) \<noteq> ns \<or> storeOf t (key (withNamespace ns r)) = None")
    case True
    with t' show ?thesis by (intro exI [of _ None] exI [of _ "snd (fst (storeUpdate ns r (storeOf t)))"] exI [of _ t'])
        (auto simp: storeUpdate_def Let_def split: if_splits)
  next
    case False
    then have step: "storeUpdate ns r (storeOf t) =
        ((Some (withNamespace ns r), None), (storeOf t)(key (withNamespace ns r) \<mapsto> withNamespace ns r))"
      by (auto simp: storeUpdate_def Let_def)
    with t' have "storeOf t' = (storeOf t)(key (withNamespace ns r) \<mapsto> withNamespace ns r)" by simp
    from stored_back [OF t'(2) assms(2,3) _ this] this False t' step show ?thesis
      by (intro exI [of _ "Some (withNamespace ns r)"] exI [of _ None] exI [of _ t']) simp
  qed
qed

lemma reacts_delete:
  assumes "tracker_wf t"
  shows "reacts s (SDelete ns name) t"
proof -
  obtain t' where "trackerDelete rssResource ns name t = (snd (fst (storeStep (SDelete ns name) (storeOf t))), t')"
    "tracker_wf t'" "storeOf t' = snd (storeStep (SDelete ns name) (storeOf t))"
    using trackerDelete_store [OF assms] by blast
  then show ?thesis
    by (intro reactsI [where t' = t' and obj = None and err = "snd (fst (storeStep (SDelete ns name) (storeOf t)))"]) auto
qed

lemma reacts_proper: "tracker_wf t \<Longrightarrow> proper call \<Longrightarrow> reacts s call t"
  using reacts_update_action [of t _ _ s]
  by (cases call) (simp_all add: reacts_get reacts_create reacts_delete, simp_all add: reacts_def)

lemma fakeStep_simulates:
  assumes "serving s f" and "proper call"
  shows "\<exists>res f'. fakeStep call f = Ret (res, f') \<and> storeStep call (storeOf (FkTracker f)) = (res, storeOf (FkTracker f'))
     \<and> serving s f' \<and> FkActions f' = FkActions f @ [actionOf call]"
proof -
  obtain obj err t' where r: "ObjectReaction s (actionOf call) (FkTracker f) = ((True, map_option FObj obj, err), t')"
      "storeStep call (storeOf (FkTracker f)) = ((obj, err), storeOf t')" "tracker_wf t'"
    using reacts_proper [of "FkTracker f" call s] assms by (auto simp: reacts_def serving_def)
  let ?f = "f\<lparr>FkActions := FkActions f @ [actionOf call], FkTracker := t'\<rparr>"
  have inv: "Invokes (actionOf call) dflt f = ((map_option FObj obj, err), ?f)" for dflt
    by (rule Invokes_tracked [OF assms(1) r(1)])
  have "assertRss ((map_option FObj obj, err), ?f) = Ret ((obj, err), ?f)" by (cases obj) (simp_all add: assertRss_def)
  then have "fakeStep call f = Ret ((obj, err), ?f)"
    using inv r(2)
    by (cases call) (simp_all add: FakeGet_def FakeCreate_def FakeUpdate_def FakeUpdateStatus_def FakeDelete_def split: if_splits)
  with r assms(1) show ?thesis by (simp add: serving_def)
qed

fun runFake :: "store_call list \<Rightarrow> fake \<Rightarrow> ((rss option \<times> go_error option) list \<times> fake) go" where
  "runFake [] f = Ret ([], f)"
| "runFake (c # cs) f = go_bind (fakeStep c f) (\<lambda>(res, f1). go_bind (runFake cs f1) (\<lambda>(rs, f2). Ret (res # rs, f2)))"

fun runStore :: "store_call list \<Rightarrow> store \<Rightarrow> (rss option \<times> go_error option) list \<times> store" where
  "runStore [] m = ([], m)"
| "runStore (c # cs) m = (case storeStep c m of (res, m1) \<Rightarrow> (case runStore cs m1 of (rs, m2) \<Rightarrow> (res # rs, m2)))"

lemma runFake_simulates:
  assumes "serving s f" and "list_all proper calls"
  shows "\<exists>rs f'. runFake calls f = Ret (rs, f') \<and> runStore calls (storeOf (FkTracker f)) = (rs, storeOf (FkTracker f'))
     \<and> FkActions f' = FkActions f @ map actionOf calls"
  using assms
proof (induction calls arbitrary: f)
  case (Cons c cs)
  from Cons.prems fakeStep_simulates [of s f c] obtain res f1
    where f1: "fakeStep c f = Ret (res, f1)" "storeStep c (storeOf (FkTracker f)) = (res, storeOf (FkTracker f1))"
      "serving s f1" "FkActions f1 = FkActions f @ [actionOf c]"
    by auto
  with Cons.IH [OF f1(3)] Cons.prems(2) show ?case by auto
qed simp

definition initScheme :: scheme where
  "initScheme = (case fakeScheme of Ret s \<Rightarrow> s | _ \<Rightarrow> NewScheme)"

text \<open>The registrations of the clientsets do not panic, and give both the same scheme.\<close>

lemma schemes_agree: "fakeScheme = Ret initScheme" "versionedScheme = Ret initScheme"
  by code_simp+

lemma initScheme_kinds: "ObjectKinds initScheme TRss = [rssKind]"
  by code_simp

lemma guessed_resource: "UnsafeGuessKindToResource rssKind = rssResource"
  by code_simp

lemma scheme_types: "schemeNew initScheme rssKind = Inr TRss"
    "schemeNew initScheme (groupName, groupVersion, ''ReplicatedStatefulSetList'') = Inr TRssList"
  by code_simp+

lemma trackerAddObject_new:
  assumes "byKey (objectsOf rssResource t) (key obj) = None"
  shows "trackerAddObject initScheme obj t = (None, AList.update rssResource (objectsOf rssResource t @ [obj]) t)"
proof -
  have "withNamespace (RssNamespace obj) obj = obj" by (cases "RssMeta obj") (simp add: withNamespace_def)
  then show ?thesis
    using assms guessed_resource unfolding rssResource_def
    by (simp add: trackerAddObject_def initScheme_kinds trackerAdd_def Let_def addLoop_missing)
qed

lemma simple_clientset_tracks:
  assumes "distinct (map key (objectsOf rssResource t @ objs))"
  shows "\<exists>t'. go_for (addPanics initScheme) objs t = Ret t' \<and> objectsOf rssResource t' = objectsOf rssResource t @ objs"
  using assms
proof (induction objs arbitrary: t)
  case (Cons obj objs)
  have "byKey (objectsOf rssResource t) (key obj) = None" using Cons.prems by (auto simp: byKey_None)
  with Cons.IH [of "AList.update rssResource (objectsOf rssResource t @ [obj]) t"] Cons.prems show ?case
    by (simp add: addPanics_def trackerAddObject_new)
qed simp


definition sample_obj :: rss where
  "sample_obj = zero_rss\<lparr>RssMeta := zero_meta\<lparr>ObjName := ''db'', ObjNamespace := ''prod''\<rparr>\<rparr>"


section \<open>What the fake client does not do\<close>

text \<open>
  \<^verbatim>\<open>DeleteCollection\<close> and \<^verbatim>\<open>Patch\<close> have no reaction: they report success and change nothing, and the patched
  object is an empty one.
\<close>

lemma unhandled_calls:
  assumes "serving s f" and "ExtractFromListOptions P opts = Ret matches"
  shows "FakeDeleteCollection P ns opts f = Ret (None, f\<lparr>FkActions := FkActions f @ [DeleteCollectionAction rssResource ns opts]\<rparr>)"
    and "FakePatch ns name data subs f =
      Ret ((Some zero_rss, None), f\<lparr>FkActions := FkActions f @ [PatchAction rssResource (pathJoin subs) ns name data]\<rparr>)"
  using assms
  by (simp_all add: FakeDeleteCollection_def FakePatch_def Invokes_def serving_def objectReactor_def Handles_def assertRss_def)

text \<open>A list has the resources of the namespace whose labels match, and an empty namespace stands for all.\<close>

lemma FakeList_matches:
  assumes "ReactionChain f = [objectReactor initScheme]" and "ExtractFromListOptions P opts = Ret matches"
  shows "FakeList P ns opts f = Ret ((Some (filter (\<lambda>r. (ns = [] \<or> RssNamespace r = ns) \<and> matches (gm_list (Labels (RssMeta r))))
      (objectsOf rssResource (FkTracker f))), None), f\<lparr>FkActions := FkActions f @ [ListAction rssResource rssKind ns opts]\<rparr>)"
proof -
  have kind: "schemeNew initScheme (''clusterlabs.org'', ''v1alpha1'', ''ReplicatedStatefulSetList'') = Inr TRssList" by code_simp
  have "trackerList initScheme rssResource rssKind ns (FkTracker f) =
      Inr (filter (\<lambda>r. ns = [] \<or> RssNamespace r = ns) (objectsOf rssResource (FkTracker f)))"
    by (auto simp: trackerList_def rssKind_def kind objectsOf_def filterByNamespaceAndName_def split: option.splits
        intro!: filter_cong)
  then show ?thesis
    using assms by (simp add: FakeList_def Invokes_def objectReactor_def Handles_def conj_commute)
qed

end
