(* ===== verification/Informers.thy ===== *)
theory Informers
  imports FakeClient
begin

text \<open>
  pkg/generated/listers and pkg/generated/informers: the lister of the custom resources over the informer's
  cache, and the factory that shares informers.

  \<^item> The cache is the store of vendor/k8s.io/client-go/tools/cache/thread_safe_store.go with the namespace
    index. Maps and sets are ranged over in an order the runtime picks, an argument here.
  \<^item> The locale \<open>indexed_cache\<close> is what the lister relies on: the contents by key, and an index that, where
    it exists, has the objects of a namespace. The cache provides it, whatever operations were applied.
  \<^item> The factory creates one informer per type and starts it once. Its methods hold a lock, so calls from
    several goroutines are a sequence of calls.
\<close>

section \<open>The cache\<close>

definition keyFunc :: "rss \<Rightarrow> string" where
  "keyFunc r = (if RssNamespace r \<noteq> [] then RssNamespace r @ ''/'' @ RssName r else RssName r)"

record cache =
  CacheItems :: "(string \<times> rss) list"
  Indexed :: bool
  CacheIndex :: "(string \<times> string list) list"

definition indexOf :: "string \<Rightarrow> cache \<Rightarrow> string list" where
  "indexOf ns c = (case map_of (CacheIndex c) ns of None \<Rightarrow> [] | Some ks \<Rightarrow> ks)"

definition deleteFromIndices :: "rss \<Rightarrow> string \<Rightarrow> cache \<Rightarrow> cache" where
  "deleteFromIndices obj k c =
     (if \<not> Indexed c then c
      else case map_of (CacheIndex c) (RssNamespace obj) of
        None \<Rightarrow> c
      | Some ks \<Rightarrow> c\<lparr>CacheIndex := AList.update (RssNamespace obj) (removeAll k ks) (CacheIndex c)\<rparr>)"

definition updateIndices :: "rss option \<Rightarrow> rss \<Rightarrow> string \<Rightarrow> cache \<Rightarrow> cache" where
  "updateIndices oldObj newObj k c =
     (let c1 = (case oldObj of None \<Rightarrow> c | Some old \<Rightarrow> deleteFromIndices old k c)
      in if \<not> Indexed c1 then c1
         else c1\<lparr>CacheIndex := AList.update (RssNamespace newObj) (List.insert k (indexOf (RssNamespace newObj) c1)) (CacheIndex c1)\<rparr>)"

definition cacheAdd :: "rss \<Rightarrow> cache \<Rightarrow> cache" where
  "cacheAdd obj c =
     (let k = keyFunc obj; oldObject = map_of (CacheItems c) k
      in updateIndices oldObject obj k (c\<lparr>CacheItems := AList.update k obj (CacheItems c)\<rparr>))"

definition cacheUpdate :: "rss \<Rightarrow> cache \<Rightarrow> cache" where
  "cacheUpdate obj c =
     (let k = keyFunc obj; oldObject = map_of (CacheItems c) k
      in updateIndices oldObject obj k (c\<lparr>CacheItems := AList.update k obj (CacheItems c)\<rparr>))"

definition storeDelete :: "string \<Rightarrow> cache \<Rightarrow> cache" where
  "storeDelete k c =
     (case map_of (CacheItems c) k of
        None \<Rightarrow> c
      | Some old \<Rightarrow> (deleteFromIndices old k c)\<lparr>CacheItems := AList.delete k (CacheItems c)\<rparr>)"

definition cacheDelete :: "rss \<Rightarrow> cache \<Rightarrow> cache" where
  "cacheDelete obj c = storeDelete (keyFunc obj) c"

definition cacheReplace :: "string list \<Rightarrow> rss list \<Rightarrow> cache \<Rightarrow> cache" where
  "cacheReplace order objs c =
     (let items = fold (\<lambda>obj m. AList.update (keyFunc obj) obj m) objs [];
          c1 = c\<lparr>CacheItems := items, CacheIndex := []\<rparr>
      in fold (\<lambda>k c'. case map_of items k of None \<Rightarrow> c' | Some obj \<Rightarrow> updateIndices None obj k c')
           (range_keys order (map fst items)) c1)"

definition cacheList :: "string list \<Rightarrow> cache \<Rightarrow> rss list" where
  "cacheList order c = List.map_filter (map_of (CacheItems c)) (range_keys order (map fst (CacheItems c)))"

definition cacheIndex :: "string list \<Rightarrow> string \<Rightarrow> cache \<Rightarrow> go_error + rss list" where
  "cacheIndex order ns c =
     (if \<not> Indexed c then Inl (ErrNew ''Index with name namespace does not exist'')
      else Inr (List.map_filter (map_of (CacheItems c)) (range_keys order (indexOf ns c))))"

definition cacheGetByKey :: "string \<Rightarrow> cache \<Rightarrow> rss option" where
  "cacheGetByKey k c = map_of (CacheItems c) k"

section \<open>The lister\<close>

definition listerList :: "string list \<Rightarrow> cache \<Rightarrow> selector \<Rightarrow> rss list" where
  "listerList order c sel = ListAll RssMeta (cacheList order c) sel"

definition namespaceListerList :: "string list \<Rightarrow> cache \<Rightarrow> string \<Rightarrow> selector \<Rightarrow> rss list" where
  "namespaceListerList order c ns sel = ListAllByNamespace RssMeta (cacheList order c) (cacheIndex order ns c) ns sel"

definition namespaceListerGet :: "cache \<Rightarrow> string \<Rightarrow> string \<Rightarrow> go_error + rss" where
  "namespaceListerGet c ns name =
     (case cacheGetByKey (ns @ ''/'' @ name) c of
        None \<Rightarrow> Inl (NewNotFound (groupName, groupVersion, ''replicatedstatefulset'') name)
      | Some r \<Rightarrow> Inr r)"

section \<open>The factory\<close>

record factory =
  FacInformers :: "(gotype \<times> nat) list"
  FacStarted :: "gotype list"
  FacCreated :: nat
  FacRunning :: "nat list"

definition NewSharedInformerFactory :: factory where
  "NewSharedInformerFactory = \<lparr>FacInformers = [], FacStarted = [], FacCreated = 0, FacRunning = []\<rparr>"

text \<open>\<open>newFunc\<close> makes an informer that did not exist before, named by the number of its creation.\<close>

definition InformerFor :: "gotype \<Rightarrow> factory \<Rightarrow> nat \<times> factory" where
  "InformerFor ty f =
     (case map_of (FacInformers f) ty of
        Some i \<Rightarrow> (i, f)
      | None \<Rightarrow> (FacCreated f, f\<lparr>FacInformers := AList.update ty (FacCreated f) (FacInformers f), FacCreated := FacCreated f + 1\<rparr>))"

definition startOne :: "gotype \<times> nat \<Rightarrow> factory \<Rightarrow> factory" where
  "startOne e f =
     (case e of (ty, i) \<Rightarrow>
        if ty \<in> set (FacStarted f) then f
        else f\<lparr>FacRunning := FacRunning f @ [i], FacStarted := ty # FacStarted f\<rparr>)"

definition FactoryStart :: "(gotype \<times> nat) list \<Rightarrow> factory \<Rightarrow> factory" where
  "FactoryStart order f = fold startOne (range_keys order (FacInformers f)) f"

definition FactoryWaitForCacheSync :: "(gotype \<times> nat) list \<Rightarrow> (nat \<Rightarrow> bool) \<Rightarrow> factory \<Rightarrow> (gotype \<times> bool) list" where
  "FactoryWaitForCacheSync order synced f =
     map (\<lambda>(ty, i). (ty, synced i)) (range_keys order (filter (\<lambda>e. fst e \<in> set (FacStarted f)) (FacInformers f)))"

definition rssInformer :: "factory \<Rightarrow> nat \<times> factory" where
  "rssInformer f = InformerFor TRss f"

definition ForResource :: "gvr \<Rightarrow> factory \<Rightarrow> (go_error + ((string \<times> string) \<times> nat)) \<times> factory" where
  "ForResource r f =
     (if r = (groupName, groupVersion, ''replicatedstatefulsets'')
      then (case rssInformer f of (i, f') \<Rightarrow> (Inr ((fst r, snd (snd r)), i), f'))
      else (Inl (ErrNew (''no informer found for '' @ gvrString r)), f))"

section \<open>The index agrees with the contents\<close>

definition cache_wf :: "cache \<Rightarrow> bool" where
  "cache_wf c \<longleftrightarrow> distinct (map fst (CacheItems c))
     \<and> (\<forall>k r. map_of (CacheItems c) k = Some r \<longrightarrow> k = keyFunc r)
     \<and> (Indexed c \<longrightarrow> (\<forall>ns. distinct (indexOf ns c) \<and>
          (\<forall>k. k \<in> set (indexOf ns c) \<longleftrightarrow> (\<exists>r. map_of (CacheItems c) k = Some r \<and> RssNamespace r = ns))))"

lemma deleteFromIndices_simps [simp]:
  "CacheItems (deleteFromIndices obj k c) = CacheItems c" "Indexed (deleteFromIndices obj k c) = Indexed c"
  by (auto simp: deleteFromIndices_def split: option.splits)

lemma indexOf_delete:
  "Indexed c \<Longrightarrow> indexOf ns (deleteFromIndices obj k c) = (if ns = RssNamespace obj then removeAll k (indexOf ns c) else indexOf ns c)"
  by (auto simp: deleteFromIndices_def indexOf_def update_conv' split: option.splits)

lemma updateIndices_simps [simp]:
  "CacheItems (updateIndices old new k c) = CacheItems c" "Indexed (updateIndices old new k c) = Indexed c"
  by (auto simp: updateIndices_def Let_def split: option.splits)

lemma indexOf_update:
  assumes "Indexed c"
  shows "indexOf ns (updateIndices old new k c) =
    (let ks = (case old of None \<Rightarrow> indexOf ns c | Some obj \<Rightarrow> indexOf ns (deleteFromIndices obj k c))
     in if ns = RssNamespace new then List.insert k ks else ks)"
  using assms by (auto simp: updateIndices_def Let_def indexOf_def update_conv' split: option.splits)

lemma indexOf_items [simp]: "indexOf ns (c\<lparr>CacheItems := items\<rparr>) = indexOf ns c"
  by (simp add: indexOf_def)

lemma cacheAdd_contents:
  "map_of (CacheItems (cacheAdd obj c)) = (map_of (CacheItems c))(keyFunc obj \<mapsto> obj)"
  by (simp add: cacheAdd_def Let_def update_conv')

lemma cacheAdd_wf:
  assumes "cache_wf c"
  shows "cache_wf (cacheAdd obj c)"
proof -
  let ?k = "keyFunc obj" and ?m = "map_of (CacheItems c)"
  have old: "k \<in> set (indexOf ns c) \<longleftrightarrow> (\<exists>r. ?m k = Some r \<and> RssNamespace r = ns)" "distinct (indexOf ns c)"
    if "Indexed c" for ns k
    using assms that by (simp_all add: cache_wf_def)
  have "distinct (indexOf ns (cacheAdd obj c)) \<and>
      (\<forall>k. k \<in> set (indexOf ns (cacheAdd obj c)) \<longleftrightarrow> (\<exists>r. (?m(?k \<mapsto> obj)) k = Some r \<and> RssNamespace r = ns))"
    if "Indexed c" for ns
  proof (cases "?m ?k")
    case None
    with that old [OF that] show ?thesis by (auto simp: cacheAdd_def Let_def indexOf_update)
  next
    case (Some r)
    with that old [OF that] show ?thesis
      by (auto simp: cacheAdd_def Let_def indexOf_update indexOf_delete distinct_removeAll)
  qed
  moreover have "distinct (map fst (CacheItems (cacheAdd obj c)))"
    using assms by (simp add: cacheAdd_def Let_def cache_wf_def distinct_update)
  moreover have "Indexed (cacheAdd obj c) = Indexed c" by (simp add: cacheAdd_def Let_def)
  ultimately show ?thesis using assms unfolding cache_wf_def cacheAdd_contents by auto
qed

lemma cacheUpdate_is_add: "cacheUpdate = cacheAdd"
  by (simp add: fun_eq_iff cacheUpdate_def cacheAdd_def)

lemma storeDelete_contents: "map_of (CacheItems (storeDelete k c)) = (map_of (CacheItems c))(k := None)"
  by (auto simp: storeDelete_def delete_conv' split: option.splits)

lemma cacheDelete_contents:
  "map_of (CacheItems (cacheDelete obj c)) = (map_of (CacheItems c))(keyFunc obj := None)"
  by (simp add: cacheDelete_def storeDelete_contents)

lemma cacheDelete_wf:
  assumes "cache_wf c"
  shows "cache_wf (cacheDelete obj c)"
proof (cases "map_of (CacheItems c) (keyFunc obj)")
  case None
  then show ?thesis using assms by (simp add: cacheDelete_def storeDelete_def)
next
  case (Some r)
  let ?k = "keyFunc obj" and ?m = "map_of (CacheItems c)"
  have old: "k \<in> set (indexOf ns c) \<longleftrightarrow> (\<exists>r. ?m k = Some r \<and> RssNamespace r = ns)" "distinct (indexOf ns c)"
    if "Indexed c" for ns k
    using assms that by (simp_all add: cache_wf_def)
  have "distinct (indexOf ns (cacheDelete obj c)) \<and>
      (\<forall>k. k \<in> set (indexOf ns (cacheDelete obj c)) \<longleftrightarrow> (\<exists>r. (?m(?k := None)) k = Some r \<and> RssNamespace r = ns))"
    if "Indexed c" for ns
    using Some old [OF that] that by (auto simp: cacheDelete_def storeDelete_def indexOf_delete distinct_removeAll)
  moreover have "distinct (map fst (CacheItems (cacheDelete obj c)))"
    using assms Some by (simp add: cacheDelete_def storeDelete_def cache_wf_def distinct_delete)
  moreover have "Indexed (cacheDelete obj c) = Indexed c" using Some by (simp add: cacheDelete_def storeDelete_def)
  ultimately show ?thesis using assms unfolding cache_wf_def cacheDelete_contents by auto
qed

definition replaced :: "rss list \<Rightarrow> (string \<times> rss) list" where
  "replaced objs = fold (\<lambda>obj m. AList.update (keyFunc obj) obj m) objs []"

definition keyed :: "(string \<times> rss) list \<Rightarrow> bool" where
  "keyed m \<longleftrightarrow> distinct (map fst m) \<and> (\<forall>k r. map_of m k = Some r \<longrightarrow> k = keyFunc r)"

lemma keyed_update: "keyed m \<Longrightarrow> keyed (AList.update (keyFunc obj) obj m)"
  unfolding keyed_def update_conv' by (simp add: distinct_update)

lemma replaced_keys: "keyed (replaced objs)"
proof -
  have "keyed (fold (\<lambda>obj m. AList.update (keyFunc obj) obj m) objs m)" if "keyed m" for m
    using that by (induction objs arbitrary: m) (simp_all add: keyed_update)
  moreover have "keyed []" unfolding keyed_def by simp
  ultimately show ?thesis unfolding replaced_def by blast
qed

definition indexStep :: "(string \<times> rss) list \<Rightarrow> string \<Rightarrow> cache \<Rightarrow> cache" where
  "indexStep items k c' = (case map_of items k of None \<Rightarrow> c' | Some obj \<Rightarrow> updateIndices None obj k c')"

lemma indexStep_simps [simp]: "CacheItems (indexStep items k c) = CacheItems c" "Indexed (indexStep items k c) = Indexed c"
  by (simp_all add: indexStep_def split: option.splits)

lemma indexStep_fold:
  "CacheItems (fold (indexStep items) ks c) = CacheItems c" "Indexed (fold (indexStep items) ks c) = Indexed c"
  by (induction ks arbitrary: c) simp_all

lemma indexOf_step:
  "Indexed c \<Longrightarrow> indexOf ns (indexStep items k c) =
    (case map_of items k of Some obj \<Rightarrow> if RssNamespace obj = ns then List.insert k (indexOf ns c) else indexOf ns c | None \<Rightarrow> indexOf ns c)"
  by (auto simp: indexStep_def indexOf_update split: option.splits)

lemma indexOf_rebuilt:
  assumes "Indexed c" and "distinct (indexOf ns c)"
  shows "distinct (indexOf ns (fold (indexStep items) ks c)) \<and>
    set (indexOf ns (fold (indexStep items) ks c)) =
      set (indexOf ns c) \<union> {k \<in> set ks. \<exists>r. map_of items k = Some r \<and> RssNamespace r = ns}"
  using assms
proof (induction ks arbitrary: c)
  case (Cons k ks)
  have st: "set (indexOf ns (indexStep items k c)) =
      set (indexOf ns c) \<union> (if \<exists>r. map_of items k = Some r \<and> RssNamespace r = ns then {k} else {})"
    using Cons.prems(1) by (cases "map_of items k") (simp_all add: indexOf_step)
  have "distinct (indexOf ns (indexStep items k c))" using Cons.prems by (simp add: indexOf_step split: option.splits)
  from Cons.IH [OF _ this] Cons.prems(1) st show ?case by (simp add: set_eq_iff) blast
qed simp

lemma cacheReplace_fold:
  "cacheReplace order objs c =
    fold (indexStep (replaced objs)) (range_keys order (map fst (replaced objs))) (c\<lparr>CacheItems := replaced objs, CacheIndex := []\<rparr>)"
  by (simp add: cacheReplace_def Let_def replaced_def indexStep_def [abs_def])

lemma cacheReplace_contents: "map_of (CacheItems (cacheReplace order objs c)) = map_of (replaced objs)"
  by (simp add: cacheReplace_fold indexStep_fold)

lemma cacheReplace_wf: "cache_wf (cacheReplace order objs c)"
proof -
  let ?c = "c\<lparr>CacheItems := replaced objs, CacheIndex := []\<rparr>"
  have "distinct (indexOf ns (cacheReplace order objs c)) \<and>
      (\<forall>k. k \<in> set (indexOf ns (cacheReplace order objs c)) \<longleftrightarrow> (\<exists>r. map_of (replaced objs) k = Some r \<and> RssNamespace r = ns))"
    if "Indexed c" for ns
  proof -
    have "indexOf ns ?c = []" by (simp add: indexOf_def)
    moreover have "k \<in> set (map fst (replaced objs))" if "map_of (replaced objs) k = Some r" for k r
      using that by (metis domI dom_map_of_conv_image_fst list.set_map)
    ultimately show ?thesis
      using indexOf_rebuilt [of ?c ns "replaced objs" "range_keys order (map fst (replaced objs))"] that
      unfolding cacheReplace_fold by (simp only: set_range_keys) auto
  qed
  then show ?thesis
    using replaced_keys [of objs] unfolding cache_wf_def keyed_def cacheReplace_contents by (simp add: cacheReplace_fold indexStep_fold)
qed

section \<open>What the lister relies on\<close>

locale indexed_cache =
  fixes contents :: "'s \<Rightarrow> string \<Rightarrow> rss option"
    and listing :: "'s \<Rightarrow> rss list"
    and index :: "'s \<Rightarrow> string \<Rightarrow> go_error + rss list"
    and ok :: "'s \<Rightarrow> bool"
  assumes listed: "ok s \<Longrightarrow> set (listing s) = ran (contents s)" "ok s \<Longrightarrow> distinct (listing s)"
    and found: "ok s \<Longrightarrow> index s ns = Inr items \<Longrightarrow> set items = {r \<in> ran (contents s). RssNamespace r = ns}"
      "ok s \<Longrightarrow> index s ns = Inr items \<Longrightarrow> distinct items"
begin

lemma list_all:
  "ok s \<Longrightarrow> set (ListAll RssMeta (listing s) sel) = {r \<in> ran (contents s). selectorMatches sel (Labels (RssMeta r))} \<and> distinct (ListAll RssMeta (listing s) sel)"
  using listed [of s] by (auto simp: ListAll_def)

lemma list_by_namespace:
  assumes "ok s"
  shows "set (ListAllByNamespace RssMeta (listing s) (index s ns) ns sel) =
      {r \<in> ran (contents s). (ns = [] \<or> RssNamespace r = ns) \<and> selectorMatches sel (Labels (RssMeta r))}"
    and "distinct (ListAllByNamespace RssMeta (listing s) (index s ns) ns sel)"
  using listed [OF assms] found [OF assms] by (auto simp: ListAllByNamespace_def split: sum.splits)

end

lemma map_filter_items:
  assumes "distinct ks" and "\<And>k r. m k = Some r \<Longrightarrow> k = keyFunc r"
  shows "distinct (List.map_filter m ks) \<and> set (List.map_filter m ks) = {r. \<exists>k \<in> set ks. m k = Some r}"
  using assms(1)
proof (induction ks)
  case (Cons k ks)
  have "k = k'" if "m k = Some r" "m k' = Some r" for k' r using that assms(2) by metis
  with Cons show ?case by (auto simp: map_filter_simps split: option.splits)
qed (simp add: map_filter_simps)

lemma index_items: "(\<And>k. k \<in> K \<longleftrightarrow> (\<exists>r. m k = Some r \<and> P r)) \<Longrightarrow> {r. \<exists>k \<in> K. m k = Some r} = {r \<in> ran m. P r}"
  unfolding ran_def by fastforce

lemma ran_map_of: "ran (map_of its) = {r. \<exists>k \<in> set (map fst its). map_of its k = Some r}"
proof -
  have "k \<in> set (map fst its)" if "map_of its k = Some r" for k r
    using that by (metis domI dom_map_of_conv_image_fst list.set_map)
  then show ?thesis unfolding ran_def by blast
qed

interpretation lc: indexed_cache "\<lambda>c. map_of (CacheItems c)" "cacheList order" "\<lambda>c ns. cacheIndex order ns c" cache_wf for order
proof
  fix c
  assume wf: "cache_wf c"
  note items = map_filter_items [of _ "map_of (CacheItems c)"]
  have keys: "distinct (map fst (CacheItems c))" "\<And>k r. map_of (CacheItems c) k = Some r \<Longrightarrow> k = keyFunc r"
    using wf by (simp_all add: cache_wf_def)
  from this items [of "range_keys order (map fst (CacheItems c))"]
  have "set (cacheList order c) = ran (map_of (CacheItems c)) \<and> distinct (cacheList order c)"
    unfolding ran_map_of cacheList_def by (simp only: set_range_keys distinct_range_keys)
  then show "set (cacheList order c) = ran (map_of (CacheItems c))" and "distinct (cacheList order c)" by simp_all
  fix ns found
  assume "cacheIndex order ns c = Inr found"
  then have "Indexed c" "found = List.map_filter (map_of (CacheItems c)) (range_keys order (indexOf ns c))"
    by (simp_all add: cacheIndex_def split: if_splits)
  moreover from this have ix: "distinct (indexOf ns c)"
      "\<And>k. k \<in> set (indexOf ns c) \<longleftrightarrow> (\<exists>r. map_of (CacheItems c) k = Some r \<and> RssNamespace r = ns)"
    using wf by (simp_all add: cache_wf_def)
  ultimately have "set found = {r \<in> ran (map_of (CacheItems c)). RssNamespace r = ns} \<and> distinct found"
    using items [of "range_keys order (indexOf ns c)"] keys
    unfolding index_items [OF ix(2), symmetric] by (simp only: set_range_keys distinct_range_keys)
  then show "set found = {r \<in> ran (map_of (CacheItems c)). RssNamespace r = ns}" and "distinct found" by simp_all
qed

section \<open>The lister over any history of the cache\<close>

datatype cache_op = OpAdd rss | OpUpdate rss | OpDelete rss | OpReplace "string list" "rss list"

fun applyOp :: "cache_op \<Rightarrow> cache \<Rightarrow> cache" where
  "applyOp (OpAdd r) c = cacheAdd r c"
| "applyOp (OpUpdate r) c = cacheUpdate r c"
| "applyOp (OpDelete r) c = cacheDelete r c"
| "applyOp (OpReplace order rs) c = cacheReplace order rs c"

fun contentsOp :: "cache_op \<Rightarrow> (string \<Rightarrow> rss option) \<Rightarrow> (string \<Rightarrow> rss option)" where
  "contentsOp (OpAdd r) m = m(keyFunc r \<mapsto> r)"
| "contentsOp (OpUpdate r) m = m(keyFunc r \<mapsto> r)"
| "contentsOp (OpDelete r) m = m(keyFunc r := None)"
| "contentsOp (OpReplace order rs) m = map_of (map (\<lambda>r. (keyFunc r, r)) (rev rs))"

definition emptyCache :: "bool \<Rightarrow> cache" where
  "emptyCache indexed = \<lparr>CacheItems = [], Indexed = indexed, CacheIndex = []\<rparr>"

lemma replaced_contents: "map_of (replaced objs) = map_of (map (\<lambda>r. (keyFunc r, r)) (rev objs))"
proof -
  have "map_of (fold (\<lambda>obj m. AList.update (keyFunc obj) obj m) objs m) =
      map_of m ++ map_of (map (\<lambda>r. (keyFunc r, r)) (rev objs))" for m :: "(string \<times> rss) list"
    by (induction objs arbitrary: m) (simp_all add: update_conv' map_add_upd_left fun_eq_iff map_add_def split: option.splits)
  from this [of "[]"] show ?thesis by (simp add: replaced_def)
qed

lemma history_wf: "cache_wf c \<Longrightarrow> cache_wf (fold applyOp ops c)"
proof (induction ops arbitrary: c)
  case (Cons op ops)
  have "cache_wf (applyOp op c)"
    using Cons.prems by (cases op) (simp_all add: cacheAdd_wf cacheUpdate_is_add cacheDelete_wf cacheReplace_wf)
  with Cons.IH show ?case by simp
qed simp

lemma history_contents: "map_of (CacheItems (fold applyOp ops c)) = fold contentsOp ops (map_of (CacheItems c))"
proof (induction ops arbitrary: c)
  case (Cons op ops)
  have "map_of (CacheItems (applyOp op c)) = contentsOp op (map_of (CacheItems c))"
    by (cases op) (simp_all add: cacheAdd_contents cacheUpdate_is_add cacheDelete_contents cacheReplace_contents replaced_contents)
  with Cons.IH [of "applyOp op c"] show ?case by simp
qed simp

lemma emptyCache_wf: "cache_wf (emptyCache b)"
  by (simp add: cache_wf_def emptyCache_def indexOf_def)

text \<open>
  C39. After any additions, updates, deletions and replacements the lister of a namespace returns, each once, the
  resources in the cache that are in that namespace (in any, for the empty one) and whose labels the selector
  matches, whether or not the cache has an index and in whatever order its maps are visited; \<^verbatim>\<open>Get\<close> returns the
  resource filed under the namespace and the name, and a not-found error when there is none.
\<close>

theorem lister_lists_the_cache:
  "set (namespaceListerList order (fold applyOp ops (emptyCache b)) ns sel) =
     {r \<in> ran (fold contentsOp ops Map.empty). (ns = [] \<or> RssNamespace r = ns) \<and> selectorMatches sel (Labels (RssMeta r))}
   \<and> distinct (namespaceListerList order (fold applyOp ops (emptyCache b)) ns sel)
   \<and> namespaceListerGet (fold applyOp ops (emptyCache b)) ns name =
       (case fold contentsOp ops Map.empty (ns @ ''/'' @ name) of
          None \<Rightarrow> Inl (NewNotFound (groupName, groupVersion, ''replicatedstatefulset'') name)
        | Some r \<Rightarrow> Inr r)"
proof -
  let ?c = "fold applyOp ops (emptyCache b)"
  have wf: "cache_wf ?c" by (rule history_wf [OF emptyCache_wf])
  have "map_of (CacheItems ?c) = fold contentsOp ops Map.empty"
    unfolding history_contents by (simp add: emptyCache_def)
  with lc.list_by_namespace [OF wf, of order ns sel] show ?thesis
    by (simp add: namespaceListerList_def namespaceListerGet_def cacheGetByKey_def)
qed

section \<open>Informers are shared and started once\<close>

datatype factory_call = CallInformer | CallForResource gvr | CallInformerFor gotype | CallStart "(gotype \<times> nat) list"

fun factoryCall :: "factory_call \<Rightarrow> factory \<Rightarrow> factory" where
  "factoryCall CallInformer f = snd (rssInformer f)"
| "factoryCall (CallForResource r) f = snd (ForResource r f)"
| "factoryCall (CallInformerFor ty) f = snd (InformerFor ty f)"
| "factoryCall (CallStart order) f = FactoryStart order f"

definition factory_inv :: "factory \<Rightarrow> bool" where
  "factory_inv f \<longleftrightarrow> distinct (map fst (FacInformers f)) \<and> distinct (map snd (FacInformers f))
     \<and> (\<forall>e \<in> set (FacInformers f). snd e < FacCreated f) \<and> set (FacStarted f) \<subseteq> fst ` set (FacInformers f)
     \<and> distinct (FacRunning f) \<and> set (FacRunning f) = {i. \<exists>ty. (ty, i) \<in> set (FacInformers f) \<and> ty \<in> set (FacStarted f)}"

lemma InformerFor_inv:
  assumes "factory_inv f"
  shows "factory_inv (snd (InformerFor ty f))"
proof (cases "map_of (FacInformers f) ty")
  case None
  then have new: "ty \<notin> fst ` set (FacInformers f)" by (simp add: map_of_eq_None_iff)
  have "AList.update ty (FacCreated f) (FacInformers f) = FacInformers f @ [(ty, FacCreated f)]"
    using None by (rule update_new)
  then have f': "snd (InformerFor ty f) =
      f\<lparr>FacInformers := FacInformers f @ [(ty, FacCreated f)], FacCreated := FacCreated f + 1\<rparr>"
    using None by (simp add: InformerFor_def)
  have "ty \<notin> set (FacStarted f)" using new assms unfolding factory_inv_def by blast
  then have "{i. \<exists>ty'. (ty', i) \<in> set (FacInformers f @ [(ty, FacCreated f)]) \<and> ty' \<in> set (FacStarted f)} =
      {i. \<exists>ty'. (ty', i) \<in> set (FacInformers f) \<and> ty' \<in> set (FacStarted f)}" by auto
  moreover have "FacCreated f \<notin> snd ` set (FacInformers f)" using assms unfolding factory_inv_def by auto
  ultimately show ?thesis using assms new unfolding f' factory_inv_def by (simp add: less_Suc_eq) blast
qed (use assms in \<open>simp add: InformerFor_def\<close>)

lemma startOne_inv:
  assumes "factory_inv f" and "e \<in> set (FacInformers f)"
  shows "factory_inv (startOne e f)"
proof (cases "fst e \<in> set (FacStarted f)")
  case True
  then have "startOne e f = f" by (cases e) (simp add: startOne_def)
  then show ?thesis using assms(1) by simp
next
  case False
  obtain ty i where e: "e = (ty, i)" by (cases e)
  have running: "set (FacRunning f) = {j. \<exists>ty. (ty, j) \<in> set (FacInformers f) \<and> ty \<in> set (FacStarted f)}"
    and inj: "inj_on fst (set (FacInformers f))" "inj_on snd (set (FacInformers f))"
    using assms(1) by (simp_all add: factory_inv_def distinct_map)
  have same: "ty' = ty" if "(ty', i) \<in> set (FacInformers f)" for ty'
    using inj_onD [OF inj(2), of "(ty', i)" "(ty, i)"] that assms(2) e by simp
  have uniq: "j = i" if "(ty, j) \<in> set (FacInformers f)" for j
    using inj_onD [OF inj(1), of "(ty, j)" "(ty, i)"] that assms(2) e by simp
  have new: "i \<notin> set (FacRunning f)"
  proof
    assume "i \<in> set (FacRunning f)"
    then obtain ty' where "(ty', i) \<in> set (FacInformers f)" "ty' \<in> set (FacStarted f)" using running by blast
    with same False e show False by simp
  qed
  have grown: "insert i (set (FacRunning f)) =
      {j. \<exists>ty'. (ty', j) \<in> set (FacInformers f) \<and> (ty' = ty \<or> ty' \<in> set (FacStarted f))}"
    unfolding running using uniq assms(2) e by blast
  have "startOne e f = f\<lparr>FacRunning := FacRunning f @ [i], FacStarted := ty # FacStarted f\<rparr>"
    using False by (simp add: startOne_def e)
  moreover have "ty \<in> fst ` set (FacInformers f)" using assms(2) e by force
  ultimately show ?thesis using assms(1) new grown by (simp add: factory_inv_def)
qed

lemma startOne_simps [simp]:
  "FacInformers (startOne e f) = FacInformers f" "set (FacStarted (startOne e f)) = insert (fst e) (set (FacStarted f))"
  by (auto simp: startOne_def split: prod.splits)

lemma startMany:
  assumes "factory_inv f" and "set es \<subseteq> set (FacInformers f)"
  shows "factory_inv (fold startOne es f)" and "FacInformers (fold startOne es f) = FacInformers f"
    and "set (FacStarted (fold startOne es f)) = fst ` set es \<union> set (FacStarted f)"
  using assms by (induction es arbitrary: f) (auto simp: startOne_inv)

lemma FactoryStart_inv:
  assumes "factory_inv f"
  shows "factory_inv (FactoryStart order f)" and "FacInformers (FactoryStart order f) = FacInformers f"
    and "set (FacRunning (FactoryStart order f)) = snd ` set (FacInformers f)"
proof -
  note m = startMany [OF assms, of "range_keys order (FacInformers f)", folded FactoryStart_def]
  show 1: "factory_inv (FactoryStart order f)" and 2: "FacInformers (FactoryStart order f) = FacInformers f" using m(1,2) by simp_all
  have "set (FacStarted (FactoryStart order f)) = fst ` set (FacInformers f)"
    using m(3) assms unfolding factory_inv_def by (simp add: Un_absorb2)
  moreover have "set (FacRunning (FactoryStart order f)) =
      {i. \<exists>ty. (ty, i) \<in> set (FacInformers f) \<and> ty \<in> set (FacStarted (FactoryStart order f))}"
    using 1 2 unfolding factory_inv_def by simp
  ultimately show "set (FacRunning (FactoryStart order f)) = snd ` set (FacInformers f)" by force
qed

lemma InformerFor_keeps: "map_of (FacInformers f) ty = Some i \<Longrightarrow> map_of (FacInformers (snd (InformerFor ty' f))) ty = Some i"
  by (auto simp: InformerFor_def update_conv' split: option.splits)

lemma factoryCall_informer:
  "factoryCall call f = f \<or> (\<exists>ty. factoryCall call f = snd (InformerFor ty f)) \<or> (\<exists>order. factoryCall call f = FactoryStart order f)"
proof (cases call)
  case (CallForResource r)
  then show ?thesis by (cases "InformerFor TRss f") (auto simp: ForResource_def rssInformer_def intro: exI [of _ TRss])
qed (auto simp: rssInformer_def)

lemma factoryCall_step:
  assumes "factory_inv f"
  shows "factory_inv (factoryCall call f)"
    and "map_of (FacInformers f) ty = Some i \<Longrightarrow> map_of (FacInformers (factoryCall call f)) ty = Some i"
  using factoryCall_informer [of call f] InformerFor_inv [OF assms] InformerFor_keeps FactoryStart_inv(1,2) [OF assms] assms
  by metis+

lemma factoryCalls:
  assumes "factory_inv f"
  shows "factory_inv (fold factoryCall calls f)"
    and "map_of (FacInformers f) ty = Some i \<Longrightarrow> map_of (FacInformers (fold factoryCall calls f)) ty = Some i"
  using assms
  by (induction calls arbitrary: f) (auto simp: factoryCall_step)

text \<open>
  Whatever calls are made to the factory, and in whatever order: a type keeps the informer it got first, no
  informer is run twice, and a call of \<^verbatim>\<open>Start\<close> leaves exactly the informers that have been asked for running.
\<close>

lemma informers_shared_and_started_once:
  "distinct (FacRunning (fold factoryCall calls NewSharedInformerFactory))
   \<and> set (FacRunning (FactoryStart order (fold factoryCall calls NewSharedInformerFactory))) =
       snd ` set (FacInformers (fold factoryCall calls NewSharedInformerFactory))
   \<and> fst (InformerFor ty (fold factoryCall later (snd (InformerFor ty (fold factoryCall calls NewSharedInformerFactory))))) =
       fst (InformerFor ty (fold factoryCall calls NewSharedInformerFactory))"
proof -
  let ?f = "fold factoryCall calls NewSharedInformerFactory"
  let ?g = "snd (InformerFor ty ?f)"
  have "factory_inv NewSharedInformerFactory" by (simp add: factory_inv_def NewSharedInformerFactory_def)
  then have inv: "factory_inv ?f" by (rule factoryCalls(1))
  have "map_of (FacInformers ?g) ty = Some (fst (InformerFor ty ?f))"
    by (simp add: InformerFor_def update_conv' split: option.splits)
  from factoryCalls(2) [OF InformerFor_inv [OF inv] this]
  have "fst (InformerFor ty (fold factoryCall later ?g)) = fst (InformerFor ty ?f)" by (simp add: InformerFor_def)
  moreover have "distinct (FacRunning ?f)" using inv by (simp add: factory_inv_def)
  ultimately show ?thesis using FactoryStart_inv(3) [OF inv, of order] by simp
qed

end
