(* ===== verification/Watch.thy ===== *)
theory Watch
  imports Controller Informers
begin

text \<open>
  The informer that drives the controller (\<^verbatim>\<open>run\<close> in pkg/controller/informer.go): the reflector lists and
  watches the resources of one namespace and queues what it learns, and the informer's loop takes the
  changes from the queue, keeps its cache and calls the controller back. The queue, the reflector's handler
  and the informer's process function are those of vendor/k8s.io/client-go/tools/cache (delta_fifo.go,
  reflector.go, controller.go).

  \<^item> \<open>queueAction\<close> to \<open>fifoPop\<close> are the operations of the queue of changes: a list of changes per key, and
    the keys in the order in which they came.
  \<^item> \<open>watch_step\<close> is the operator with its informer: the server's resources change and the reflector hears of
    it, a list replaces what it heard, the informer takes the changes of one key and delivers them one by
    one, or a cluster's goroutine takes a step. The lock of the queue is held while the changes of a key are
    delivered, so the reflector waits meanwhile.
  \<^item> The cache and the clusters share the resources by pointer. What a cluster writes into its resource is
    the step \<open>aliased\<close>.
  \<^item> What is shown: once everything queued is delivered, the controller has a cluster for each
    resource of the server that it accepts, and for no name that the server does not have.
\<close>

section \<open>The queue of changes\<close>

text \<open>A deletion has the resource's last state, or what the cache had when a list showed it is gone.\<close>

datatype lastobj = Final rss | FinalStateUnknown string "rss option"

datatype delta = SyncD rss | AddedD rss | UpdatedD rss | DeletedD lastobj

record deltafifo =
  FifoItems :: "(string \<times> delta list) list"
  FifoQueue :: "string list"
  Populated :: bool
  InitialPopulationCount :: int

fun KeyOf :: "delta \<Rightarrow> string" where
  "KeyOf (SyncD r) = keyFunc r"
| "KeyOf (AddedD r) = keyFunc r"
| "KeyOf (UpdatedD r) = keyFunc r"
| "KeyOf (DeletedD (Final r)) = keyFunc r"
| "KeyOf (DeletedD (FinalStateUnknown k _)) = k"

fun isDeletionDup :: "delta \<Rightarrow> delta \<Rightarrow> delta option" where
  "isDeletionDup (DeletedD a) (DeletedD (FinalStateUnknown k x)) = Some (DeletedD a)"
| "isDeletionDup (DeletedD a) (DeletedD (Final r)) = Some (DeletedD (Final r))"
| "isDeletionDup _ _ = None"

definition dedupDeltas :: "delta list \<Rightarrow> delta list" where
  "dedupDeltas deltas =
     (let n = length deltas
      in if n < 2 then deltas
         else case isDeletionDup (deltas ! (n - 1)) (deltas ! (n - 2)) of
           Some out \<Rightarrow> take (n - 2) deltas @ [out]
         | None \<Rightarrow> deltas)"

definition deltasOf :: "string \<Rightarrow> deltafifo \<Rightarrow> delta list" where
  "deltasOf k f = (case map_of (FifoItems f) k of None \<Rightarrow> [] | Some ds \<Rightarrow> ds)"

fun isDeletion :: "delta \<Rightarrow> bool" where
  "isDeletion (DeletedD _) = True"
| "isDeletion _ = False"

fun isSync :: "delta \<Rightarrow> bool" where
  "isSync (SyncD _) = True"
| "isSync _ = False"

definition willObjectBeDeleted :: "string \<Rightarrow> deltafifo \<Rightarrow> bool" where
  "willObjectBeDeleted k f \<longleftrightarrow> deltasOf k f \<noteq> [] \<and> isDeletion (last (deltasOf k f))"

definition queueAction :: "delta \<Rightarrow> deltafifo \<Rightarrow> deltafifo" where
  "queueAction d f =
     (let k = KeyOf d
      in if isSync d \<and> willObjectBeDeleted k f then f
         else (let newDeltas = dedupDeltas (deltasOf k f @ [d]); exists = map_of (FifoItems f) k \<noteq> None
               in if newDeltas \<noteq> []
                  then f\<lparr>FifoQueue := (if exists then FifoQueue f else FifoQueue f @ [k]),
                         FifoItems := AList.update k newDeltas (FifoItems f)\<rparr>
                  else if exists then f\<lparr>FifoItems := AList.delete k (FifoItems f)\<rparr>
                  else f))"

definition fifoAdd :: "rss \<Rightarrow> deltafifo \<Rightarrow> deltafifo" where
  "fifoAdd r f = queueAction (AddedD r) (f\<lparr>Populated := True\<rparr>)"

definition fifoUpdate :: "rss \<Rightarrow> deltafifo \<Rightarrow> deltafifo" where
  "fifoUpdate r f = queueAction (UpdatedD r) (f\<lparr>Populated := True\<rparr>)"

definition fifoDelete :: "cache \<Rightarrow> rss \<Rightarrow> deltafifo \<Rightarrow> deltafifo" where
  "fifoDelete known r f =
     (let f1 = f\<lparr>Populated := True\<rparr>
      in if cacheGetByKey (keyFunc r) known = None \<and> map_of (FifoItems f1) (keyFunc r) = None then f1
         else queueAction (DeletedD (Final r)) f1)"

text \<open>\<open>order\<close> is the order in which the keys of the cache are ranged over.\<close>

definition fifoReplace :: "string list \<Rightarrow> cache \<Rightarrow> rss list \<Rightarrow> deltafifo \<Rightarrow> deltafifo" where
  "fifoReplace order known rs f =
     (let f1 = fold (\<lambda>r. queueAction (SyncD r)) rs f;
          gone = filter (\<lambda>k. k \<notin> keyFunc ` set rs) (range_keys order (map fst (CacheItems known)));
          f2 = fold (\<lambda>k. queueAction (DeletedD (FinalStateUnknown k (cacheGetByKey k known)))) gone f1
      in if Populated f2 then f2
         else f2\<lparr>Populated := True, InitialPopulationCount := int (length rs + length gone)\<rparr>)"

text \<open>\<^verbatim>\<open>Pop\<close> up to the call of the process function; it waits, \<^const>\<open>None\<close>, while the queue is empty.\<close>

fun popFrom :: "string list \<Rightarrow> deltafifo \<Rightarrow> (delta list \<times> deltafifo) option" where
  "popFrom [] f = None"
| "popFrom (k # ks) f =
     (let n = InitialPopulationCount f;
          f1 = f\<lparr>FifoQueue := ks, InitialPopulationCount := (if n > 0 then n - 1 else n)\<rparr>
      in case map_of (FifoItems f) k of
           None \<Rightarrow> popFrom ks f1
         | Some item \<Rightarrow> Some (item, f1\<lparr>FifoItems := AList.delete k (FifoItems f)\<rparr>))"

definition fifoPop :: "deltafifo \<Rightarrow> (delta list \<times> deltafifo) option" where
  "fifoPop f = popFrom (FifoQueue f) f"

definition HasSynced :: "deltafifo \<Rightarrow> bool" where
  "HasSynced f \<longleftrightarrow> Populated f \<and> InitialPopulationCount f = 0"

section \<open>The informer\<close>

text \<open>One change: the cache first, then the callback.\<close>

definition handed :: "lastobj \<Rightarrow> informerobj" where
  "handed x =
     (case x of
        Final r \<Rightarrow> ObjRss r
      | FinalStateUnknown k (Some r) \<Rightarrow> Tombstone (ObjRss r)
      | FinalStateUnknown k None \<Rightarrow> Tombstone (ObjOther ''nil''))"

definition processUpsert :: "string list \<Rightarrow> bool \<Rightarrow> rss \<Rightarrow> cache \<times> system \<Rightarrow> (cache \<times> system) go" where
  "processUpsert order pick r cs =
     (case cs of (c, s) \<Rightarrow>
        (case cacheGetByKey (keyFunc r) c of
           Some old \<Rightarrow> go_bind (onUpdateEtcdClus order pick (ObjRss old) (ObjRss r) s) (\<lambda>s'. Ret (cacheUpdate r c, s'))
         | None \<Rightarrow> go_bind (onAddEtcdClus order pick (ObjRss r) s) (\<lambda>s'. Ret (cacheAdd r c, s'))))"

definition processDelta :: "string list \<Rightarrow> bool \<Rightarrow> delta \<Rightarrow> cache \<times> system \<Rightarrow> (cache \<times> system) go" where
  "processDelta order pick d cs =
     (case d of
        SyncD r \<Rightarrow> processUpsert order pick r cs
      | AddedD r \<Rightarrow> processUpsert order pick r cs
      | UpdatedD r \<Rightarrow> processUpsert order pick r cs
      | DeletedD x \<Rightarrow> (case cs of (c, s) \<Rightarrow>
          go_bind (onDeleteEtcdClus order pick (handed x) s) (\<lambda>s'. Ret (storeDelete (KeyOf d) c, s'))))"

text \<open>
  \<open>Server\<close> is what the server has, as far as its answers to the reflector tell, by key. \<open>Processing\<close> are the
  changes taken from the queue that the informer has still to deliver.
\<close>

record world =
  Server :: "string \<Rightarrow> rss option"
  Fifo :: deltafifo
  Processing :: "delta list"
  Store :: cache
  Operator :: system

definition runController :: world where
  "runController =
     \<lparr>Server = (\<lambda>_. None),
      Fifo = \<lparr>FifoItems = [], FifoQueue = [], Populated = False, InitialPopulationCount = 0\<rparr>,
      Processing = [],
      Store = \<lparr>CacheItems = [], Indexed = False, CacheIndex = []\<rparr>,
      Operator = newController\<rparr>"

text \<open>The events of a watch; one of another type is reported and skipped.\<close>

definition watchHandler :: "string \<Rightarrow> rss \<Rightarrow> cache \<Rightarrow> deltafifo \<Rightarrow> deltafifo" where
  "watchHandler typ r known f =
     (if typ = kwAdded then fifoAdd r f
      else if typ = kwModified then fifoUpdate r f
      else if typ = kwDeleted then fifoDelete known r f
      else f)"

definition serverChange :: "string \<Rightarrow> rss \<Rightarrow> (string \<Rightarrow> rss option) \<Rightarrow> string \<Rightarrow> rss option" where
  "serverChange typ r m =
     (if typ = kwAdded \<or> typ = kwModified then m(keyFunc r \<mapsto> r)
      else if typ = kwDeleted then m(keyFunc r := None)
      else m)"

text \<open>
  A list that the queue takes in: it does not have a resource whose deletion is still queued, and a resource
  that it lacks is in the cache, or its deletion is queued, or nothing is queued for it.
\<close>

definition takes_in :: "rss list \<Rightarrow> cache \<Rightarrow> deltafifo \<Rightarrow> bool" where
  "takes_in rs known f \<longleftrightarrow>
     (\<forall>r \<in> set rs. \<not> willObjectBeDeleted (keyFunc r) f) \<and>
     (\<forall>k \<in> set (map fst (FifoItems f)). k \<in> keyFunc ` set rs \<or> willObjectBeDeleted k f \<or> cacheGetByKey k known \<noteq> None)"

text \<open>What is written through the pointers that the cache and the clusters share.\<close>

fun aliasDelta :: "(rss \<Rightarrow> rss) \<Rightarrow> delta \<Rightarrow> delta" where
  "aliasDelta g (DeletedD (FinalStateUnknown k x)) = DeletedD (FinalStateUnknown k (map_option g x))"
| "aliasDelta g d = d"

definition writeThrough :: "(rss \<Rightarrow> rss) \<Rightarrow> world \<Rightarrow> world" where
  "writeThrough g w =
     w\<lparr>Store := (Store w)\<lparr>CacheItems := map (\<lambda>(k, r). (k, g r)) (CacheItems (Store w))\<rparr>,
       Fifo := (Fifo w)\<lparr>FifoItems := map (\<lambda>(k, ds). (k, map (aliasDelta g) ds)) (FifoItems (Fifo w))\<rparr>,
       Processing := map (aliasDelta g) (Processing w)\<rparr>"

inductive watch_step :: "(nat \<Rightarrow> kube) \<Rightarrow> nat \<Rightarrow> rss set \<Rightarrow> world \<Rightarrow> world \<Rightarrow> bool" for E fuel R where
  watched: "Processing w = [] \<Longrightarrow> r \<in> R \<Longrightarrow>
    watch_step E fuel R w (w\<lparr>Server := serverChange typ r (Server w), Fifo := watchHandler typ r (Store w) (Fifo w)\<rparr>)"
| listed: "Processing w = [] \<Longrightarrow> set rs \<subseteq> R \<Longrightarrow> distinct (map keyFunc rs) \<Longrightarrow> takes_in rs (Store w) (Fifo w) \<Longrightarrow>
    watch_step E fuel R w (w\<lparr>Server := map_of (map (\<lambda>r. (keyFunc r, r)) rs), Fifo := fifoReplace order (Store w) rs (Fifo w)\<rparr>)"
| popped: "Processing w = [] \<Longrightarrow> fifoPop (Fifo w) = Some (ds, f) \<Longrightarrow>
    watch_step E fuel R w (w\<lparr>Fifo := f, Processing := ds\<rparr>)"
| delivered: "Processing w = d # ds \<Longrightarrow> processDelta order pick d (Store w, Operator w) = Ret (c, s) \<Longrightarrow>
    watch_step E fuel R w (w\<lparr>Processing := ds, Store := c, Operator := s\<rparr>)"
| aliased: "(\<forall>r \<in> R. g r \<in> R \<and> keyFunc (g r) = keyFunc r) \<Longrightarrow> watch_step E fuel R w (writeThrough g w)"
| stepped: "sys_step E fuel {} (Operator w) s \<Longrightarrow> watch_step E fuel R w (w\<lparr>Operator := s\<rparr>)"

inductive watch_reachable :: "(nat \<Rightarrow> kube) \<Rightarrow> nat \<Rightarrow> rss set \<Rightarrow> world \<Rightarrow> bool" for E fuel R where
  init: "watch_reachable E fuel R runController"
| step: "watch_reachable E fuel R w \<Longrightarrow> watch_step E fuel R w w' \<Longrightarrow> watch_reachable E fuel R w'"

section \<open>The queue holds what the server has\<close>

text \<open>What a change makes of a resource, and what a list of them does.\<close>

fun deltaEffect :: "delta \<Rightarrow> rss option \<Rightarrow> rss option" where
  "deltaEffect (DeletedD _) x = None"
| "deltaEffect (SyncD r) x = Some r"
| "deltaEffect (AddedD r) x = Some r"
| "deltaEffect (UpdatedD r) x = Some r"

lemma isDeletionDup_Some:
  "isDeletionDup a b = Some out \<Longrightarrow> isDeletion a \<and> isDeletion b \<and> (out = a \<or> out = b)"
  by (cases "(a, b)" rule: isDeletionDup.cases) auto

lemma dedup_cases:
  "dedupDeltas (ds @ [d]) = ds @ [d] \<or>
   (\<exists>ds' b out. ds = ds' @ [b] \<and> isDeletion d \<and> isDeletion b \<and> (out = d \<or> out = b) \<and> dedupDeltas (ds @ [d]) = ds' @ [out])"
proof (cases ds rule: rev_cases)
  case (snoc ds' b)
  then show ?thesis using isDeletionDup_Some [of d b]
    by (cases "isDeletionDup d b") (auto simp: dedupDeltas_def Let_def nth_append)
qed (simp add: dedupDeltas_def)

lemma effect_isDeletion: "isDeletion d \<Longrightarrow> deltaEffect d x = None"
  by (cases d) auto

lemma fold_effect_dedup [simp]: "fold deltaEffect (dedupDeltas (ds @ [d])) x = deltaEffect d x'"
proof -
  have "deltaEffect d y = deltaEffect d x'" for y by (cases d) simp_all
  then show ?thesis using dedup_cases [of ds d] by (auto simp: effect_isDeletion)
qed

lemma set_dedup: "set (dedupDeltas (ds @ [d])) \<subseteq> insert d (set ds)" "dedupDeltas (ds @ [d]) \<noteq> []"
  using dedup_cases [of ds d] by auto

text \<open>The shape of the queue: its keys are those with changes, and each has changes of its own key.\<close>

fun delta_ok :: "rss set \<Rightarrow> delta \<Rightarrow> bool" where
  "delta_ok R (DeletedD (Final r)) \<longleftrightarrow> r \<in> R"
| "delta_ok R (DeletedD (FinalStateUnknown k x)) \<longleftrightarrow> (\<exists>r \<in> R. x = Some r \<and> keyFunc r = k)"
| "delta_ok R (SyncD r) \<longleftrightarrow> r \<in> R"
| "delta_ok R (AddedD r) \<longleftrightarrow> r \<in> R"
| "delta_ok R (UpdatedD r) \<longleftrightarrow> r \<in> R"

definition fifo_wf :: "rss set \<Rightarrow> deltafifo \<Rightarrow> bool" where
  "fifo_wf R f \<longleftrightarrow> distinct (FifoQueue f) \<and> set (FifoQueue f) = dom (map_of (FifoItems f)) \<and>
     (\<forall>k ds. map_of (FifoItems f) k = Some ds \<longrightarrow> ds \<noteq> [] \<and> (\<forall>d \<in> set ds. KeyOf d = k \<and> delta_ok R d))"

lemma deltasOf_queueAction:
  "deltasOf k (queueAction d f) =
     (if k = KeyOf d \<and> \<not> (isSync d \<and> willObjectBeDeleted k f) then dedupDeltas (deltasOf k f @ [d]) else deltasOf k f)"
  by (auto simp: queueAction_def Let_def deltasOf_def update_conv' set_dedup(2))

lemma fifo_wf_queueAction:
  assumes "fifo_wf R f" and "delta_ok R d"
  shows "fifo_wf R (queueAction d f)"
proof -
  have "\<forall>e \<in> set (deltasOf (KeyOf d) f). KeyOf e = KeyOf d \<and> delta_ok R e"
    using assms(1) by (cases "map_of (FifoItems f) (KeyOf d)") (auto simp: fifo_wf_def deltasOf_def)
  then have new: "\<forall>e \<in> set (dedupDeltas (deltasOf (KeyOf d) f @ [d])). KeyOf e = KeyOf d \<and> delta_ok R e"
    using set_dedup(1) [of "deltasOf (KeyOf d) f" d] assms(2) by blast
  have q: "distinct (FifoQueue f)" "set (FifoQueue f) = dom (map_of (FifoItems f))"
    and old: "\<And>k ds. map_of (FifoItems f) k = Some ds \<Longrightarrow> ds \<noteq> [] \<and> (\<forall>d \<in> set ds. KeyOf d = k \<and> delta_ok R d)"
    using assms(1) by (auto simp: fifo_wf_def)
  show ?thesis
    using q new old set_dedup(2) unfolding queueAction_def Let_def
    by (auto simp: fifo_wf_def update_conv' assms(1) [unfolded fifo_wf_def] split: if_splits)
qed

lemma fifo_wf_populated [simp]:
  "fifo_wf R (f\<lparr>Populated := b\<rparr>) = fifo_wf R f" "fifo_wf R (f\<lparr>InitialPopulationCount := n\<rparr>) = fifo_wf R f"
  "deltasOf k (f\<lparr>Populated := b\<rparr>) = deltasOf k f" "deltasOf k (f\<lparr>InitialPopulationCount := n\<rparr>) = deltasOf k f"
  by (simp_all add: fifo_wf_def deltasOf_def)

text \<open>What the deliveries of the queue will make of a resource.\<close>

definition outcome :: "deltafifo \<Rightarrow> (string \<Rightarrow> rss option) \<Rightarrow> string \<Rightarrow> rss option" where
  "outcome f m k = fold deltaEffect (deltasOf k f) (m k)"

lemma outcome_queueAction:
  "outcome (queueAction d f) m k =
     (if k = KeyOf d \<and> \<not> (isSync d \<and> willObjectBeDeleted k f) then deltaEffect d (m k) else outcome f m k)"
  by (auto simp: outcome_def deltasOf_queueAction)

lemma will_queueAction:
  "KeyOf d \<noteq> k \<Longrightarrow> willObjectBeDeleted k (queueAction d f) = willObjectBeDeleted k f"
  by (simp add: willObjectBeDeleted_def deltasOf_queueAction)

lemma outcome_will: "willObjectBeDeleted k f \<Longrightarrow> outcome f m k = None"
proof -
  assume "willObjectBeDeleted k f"
  then obtain ds d where "deltasOf k f = ds @ [d]" "isDeletion d"
    by (cases "deltasOf k f" rule: rev_cases) (auto simp: willObjectBeDeleted_def)
  then show ?thesis by (simp add: outcome_def effect_isDeletion)
qed

lemma outcome_sync:
  assumes "distinct (map keyFunc rs)" and "\<forall>r \<in> set rs. \<not> willObjectBeDeleted (keyFunc r) f"
  shows "outcome (fold (\<lambda>r. queueAction (SyncD r)) rs f) m k =
    (case map_of (map (\<lambda>r. (keyFunc r, r)) rs) k of Some r \<Rightarrow> Some r | None \<Rightarrow> outcome f m k)"
  using assms
proof (induction rs arbitrary: f)
  case (Cons r rs)
  have "\<forall>r' \<in> set rs. \<not> willObjectBeDeleted (keyFunc r') (queueAction (SyncD r) f)"
    using Cons.prems by (auto simp: will_queueAction image_iff)
  moreover have "map_of (map (\<lambda>r. (keyFunc r, r)) rs) (keyFunc r) = None"
    using Cons.prems(1) by (auto simp: map_of_eq_None_iff)
  ultimately show ?case using Cons by (auto simp: outcome_queueAction split: option.splits)
qed simp

lemma outcome_gone:
  "outcome (fold (\<lambda>k. queueAction (DeletedD (FinalStateUnknown k (x k)))) ks f) m k =
    (if k \<in> set ks then None else outcome f m k)"
  by (induction ks arbitrary: f) (auto simp: outcome_queueAction)

lemma fifo_wf_fold: "fifo_wf R f \<Longrightarrow> \<forall>x \<in> set xs. delta_ok R (h x) \<Longrightarrow> fifo_wf R (fold (\<lambda>x. queueAction (h x)) xs f)"
  by (induction xs arbitrary: f) (simp_all add: fifo_wf_queueAction)

lemma fifo_empty: "fifo_wf R f \<Longrightarrow> FifoQueue f = [] \<Longrightarrow> deltasOf k f = []"
  by (auto simp: fifo_wf_def deltasOf_def split: option.splits)

lemma outcome_none: "map_of (FifoItems f) k = None \<Longrightarrow> outcome f m k = m k"
  by (simp add: outcome_def deltasOf_def)

lemma fifoPop_ready: "fifo_wf R f \<Longrightarrow> FifoQueue f \<noteq> [] \<Longrightarrow> fifoPop f \<noteq> None"
proof (cases "FifoQueue f")
  case (Cons k ks)
  assume "fifo_wf R f"
  then have "k \<in> dom (map_of (FifoItems f))" using Cons by (auto simp: fifo_wf_def)
  then show ?thesis using Cons by (auto simp: fifoPop_def Let_def)
qed simp

definition store_ok :: "rss set \<Rightarrow> cache \<Rightarrow> bool" where
  "store_ok R c \<longleftrightarrow> (\<forall>k r. map_of (CacheItems c) k = Some r \<longrightarrow> k = keyFunc r \<and> r \<in> R)"

lemma watchHandler_outcome:
  assumes "fifo_wf R f" and "r \<in> R" and "dom m = dom (map_of (CacheItems c))"
  shows "fifo_wf R (watchHandler typ r c f)" and "outcome (watchHandler typ r c f) m = serverChange typ r (outcome f m)"
proof -
  show "fifo_wf R (watchHandler typ r c f)"
    using assms(1,2)
    by (auto simp: watchHandler_def fifoAdd_def fifoUpdate_def fifoDelete_def Let_def intro!: fifo_wf_queueAction)
  have pop: "outcome (f\<lparr>Populated := b\<rparr>) m k = outcome f m k" for b k by (simp add: outcome_def)
  have del: "outcome (fifoDelete c r f) m = (outcome f m)(keyFunc r := None)"
    using assms(3) outcome_none [of f "keyFunc r" m]
    by (auto simp: fun_eq_iff fifoDelete_def Let_def outcome_queueAction pop cacheGetByKey_def)
  show "outcome (watchHandler typ r c f) m = serverChange typ r (outcome f m)"
    by (auto simp: watchHandler_def serverChange_def del fun_eq_iff fifoAdd_def fifoUpdate_def outcome_queueAction pop)
qed

lemma fifoReplace_outcome:
  assumes "fifo_wf R f" and "set rs \<subseteq> R" and "distinct (map keyFunc rs)" and "takes_in rs c f"
    and "store_ok R c" and "dom m = dom (map_of (CacheItems c))"
  shows "fifo_wf R (fifoReplace order c rs f)" and "outcome (fifoReplace order c rs f) m = map_of (map (\<lambda>r. (keyFunc r, r)) rs)"
proof -
  let ?f1 = "fold (\<lambda>r. queueAction (SyncD r)) rs f"
  let ?gone = "filter (\<lambda>k. k \<notin> keyFunc ` set rs) (range_keys order (map fst (CacheItems c)))"
  let ?h = "\<lambda>k. DeletedD (FinalStateUnknown k (cacheGetByKey k c))"
  let ?f2 = "fold (\<lambda>k. queueAction (?h k)) ?gone ?f1"
  have gone: "set ?gone = dom m - keyFunc ` set rs"
    using assms(6) by (auto simp: dom_map_of_conv_image_fst)
  have "fifo_wf R ?f1" using assms(2) by (intro fifo_wf_fold [OF assms(1)]) auto
  moreover have "\<forall>k \<in> set ?gone. delta_ok R (?h k)"
    using assms(5) unfolding gone assms(6) by (auto simp: store_ok_def cacheGetByKey_def)
  ultimately have "fifo_wf R ?f2" by (rule fifo_wf_fold)
  then show "fifo_wf R (fifoReplace order c rs f)" by (simp add: fifoReplace_def Let_def)
  have rest: "outcome f m k = None" if "k \<notin> keyFunc ` set rs" "k \<notin> dom m" for k
  proof (cases "map_of (FifoItems f) k")
    case None
    then show ?thesis using that(2) by (auto simp: outcome_none)
  next
    case (Some ds)
    then have "k \<in> set (map fst (FifoItems f))" by (metis domI dom_map_of_conv_image_fst list.set_map)
    moreover have "cacheGetByKey k c = None" using that(2) assms(6) by (auto simp: cacheGetByKey_def)
    ultimately have "willObjectBeDeleted k f" using assms(4) that(1) unfolding takes_in_def by blast
    then show ?thesis by (rule outcome_will)
  qed
  have sync: "outcome ?f1 m k = (case map_of (map (\<lambda>r. (keyFunc r, r)) rs) k of Some r \<Rightarrow> Some r | None \<Rightarrow> outcome f m k)" for k
    using assms(3,4) by (intro outcome_sync) (auto simp: takes_in_def)
  have "outcome ?f2 m k = map_of (map (\<lambda>r. (keyFunc r, r)) rs) k" for k
  proof (cases "k \<in> keyFunc ` set rs")
    case True
    then have "map_of (map (\<lambda>r. (keyFunc r, r)) rs) k \<noteq> None" by (auto simp: map_of_eq_None_iff image_image)
    then show ?thesis using True gone by (auto simp: outcome_gone sync)
  next
    case False
    then have "map_of (map (\<lambda>r. (keyFunc r, r)) rs) k = None" by (auto simp: map_of_eq_None_iff)
    then show ?thesis using False gone rest [of k] by (auto simp: outcome_gone sync)
  qed
  then show "outcome (fifoReplace order c rs f) m = map_of (map (\<lambda>r. (keyFunc r, r)) rs)"
    by (auto simp: fun_eq_iff fifoReplace_def Let_def outcome_def)
qed

lemma fifoPop_some:
  assumes "fifo_wf R f" and "fifoPop f = Some (ds, f')"
  obtains k where "deltasOf k f = ds" "\<forall>d \<in> set ds. KeyOf d = k \<and> delta_ok R d"
    "\<And>k'. deltasOf k' f' = (if k' = k then [] else deltasOf k' f)" "fifo_wf R f'"
proof (cases "FifoQueue f")
  case Nil
  then show ?thesis using assms(2) by (simp add: fifoPop_def)
next
  case (Cons k ks)
  have q: "distinct (k # ks)" "set (k # ks) = dom (map_of (FifoItems f))"
    using assms(1) Cons by (auto simp: fifo_wf_def)
  then obtain es where es: "map_of (FifoItems f) k = Some es" by auto
  have f': "ds = es" "f' = f\<lparr>FifoQueue := ks, InitialPopulationCount := InitialPopulationCount f', FifoItems := AList.delete k (FifoItems f)\<rparr>"
    using assms(2) Cons es by (auto simp: fifoPop_def Let_def)
  have "deltasOf k' f' = (if k' = k then [] else deltasOf k' f)" for k'
    by (subst f'(2)) (simp add: deltasOf_def delete_conv')
  moreover have "fifo_wf R f'"
    using assms(1) q by (subst f'(2)) (auto simp: fifo_wf_def delete_conv')
  moreover have "deltasOf k f = ds" "\<forall>d \<in> set ds. KeyOf d = k \<and> delta_ok R d"
    using assms(1) es f'(1) by (auto simp: deltasOf_def fifo_wf_def)
  ultimately show ?thesis using that by blast
qed

text \<open>
  Outside \<^const>\<open>takes_in\<close> a list is not taken in: a resource whose deletion is still queued stays deleted
  though the list has it again, and one that is only queued stays though the list does not have it.
\<close>

lemma will_sync: "willObjectBeDeleted k f \<Longrightarrow> willObjectBeDeleted k (queueAction (SyncD r) f)"
  by (simp add: willObjectBeDeleted_def deltasOf_queueAction)

lemma fold_will_sync: "willObjectBeDeleted k f \<Longrightarrow> willObjectBeDeleted k (fold (\<lambda>r. queueAction (SyncD r)) rs f)"
  by (induction rs arbitrary: f) (simp_all add: will_sync)

lemma outcome_replace:
  "outcome (fifoReplace order c rs f) m k =
     (if k \<in> fst ` set (CacheItems c) \<and> k \<notin> keyFunc ` set rs then None
      else outcome (fold (\<lambda>r. queueAction (SyncD r)) rs f) m k)"
proof -
  have "outcome (f'\<lparr>Populated := True, InitialPopulationCount := n\<rparr>) m k = outcome f' m k" for f' n
    by (simp add: outcome_def)
  then show ?thesis by (simp add: fifoReplace_def Let_def outcome_gone)
qed

lemma list_misses_recreated:
  assumes "r \<in> set rs" and "willObjectBeDeleted (keyFunc r) f"
  shows "outcome (fifoReplace order c rs f) m (keyFunc r) = None"
  using outcome_will [OF fold_will_sync [OF assms(2)]] by (simp add: outcome_replace)

lemma list_keeps_vanished:
  assumes "k \<notin> keyFunc ` set rs" and "cacheGetByKey k c = None"
  shows "outcome (fifoReplace order c rs f) m k = outcome f m k"
proof -
  have "outcome (fold (\<lambda>r. queueAction (SyncD r)) rs f) m k = outcome f m k"
    using assms(1) by (induction rs arbitrary: f) (simp_all add: outcome_queueAction)
  then show ?thesis using assms(2) by (simp add: outcome_replace cacheGetByKey_def map_of_eq_None_iff)
qed

section \<open>The controller follows the cache\<close>

definition failed :: "rss \<Rightarrow> bool" where
  "failed r \<longleftrightarrow> IsFailed (Some (Status r))"

definition accepted :: "rss \<Rightarrow> bool" where
  "accepted r \<longleftrightarrow> \<not> tls_panics (TLS (Spec r)) \<and> tls_valid (TLS (Spec r)) \<and> spec_valid r"

definition known :: "system \<Rightarrow> string set" where
  "known s = dom (map_of (Names s))"

lemma known_simps [simp]:
  "known (ptStart s) = known s" "known (ptStop s) = known s" "known (s\<lparr>Objects := obs\<rparr>) = known s"
  "known (s\<lparr>clustersModified := n\<rparr>) = known s" "known (s\<lparr>clustersFailed := n\<rparr>) = known s"
  by (simp_all add: known_def ptStart_def ptStop_def)

lemma callObject_known: "callObject i h s = Ret s' \<Longrightarrow> known s' = known s"
  by (auto simp: callObject_def go_bind_Ret_iff split: if_splits option.splits)

lemma dispatch_deleted:
  assumes "dispatch pick kwDeleted r s = Ret (err, s')"
  shows "known s' = known s - {RssName r}"
proof (cases "map_of (Names s) (RssName r)")
  case None
  then show ?thesis
    using assms by (auto simp: dispatch_def Let_def kwDeleted_def kwAdded_def kwModified_def known_def)
next
  case (Some i)
  with assms obtain s1 where "callObject i DeleteCluster s = Ret s1" "Names s' = AList.delete (RssName r) (Names s1)"
    by (auto simp: dispatch_def Let_def go_bind_Ret_iff kwDeleted_def kwAdded_def kwModified_def)
  then show ?thesis using callObject_known [of i DeleteCluster s s1] by (simp add: known_def delete_conv')
qed

lemma dispatch_synced:
  assumes "dispatch pick (syncType r s) r s = Ret (err, s')"
  shows "known s' = insert (RssName r) (known s)"
proof (cases "map_of (Names s) (RssName r)")
  case None
  then show ?thesis
    using assms by (auto simp: dispatch_def Let_def syncType_def known_def update_conv')
next
  case (Some i)
  then obtain s1 where "callObject i (send pick (updateEvent r)) s = Ret s1" "known s' = known s1"
    using assms by (auto simp: dispatch_def Let_def go_bind_Ret_iff syncType_def kwAdded_def kwModified_def)
  then show ?thesis using callObject_known Some by (auto simp: known_def)
qed

lemma handleClusterEvent_cases:
  assumes "handleClusterEvent order pick typ r s = Ret (err, s')"
  shows "\<not> failed r \<and> accepted r \<and> dispatch pick typ (r\<lparr>Spec := Cleanup (Spec r)\<rparr>) s = Ret (err, s') \<or>
    failed r \<and> known s' = (if typ = kwDeleted then known s - {RssName r} else known s) \<or>
    \<not> failed r \<and> \<not> accepted r \<and> s' = s"
proof (cases "failed r")
  case True
  then show ?thesis
    using assms by (auto simp: handleClusterEvent_def Let_def failed_def known_def delete_conv' split: if_splits)
next
  case False
  show ?thesis
  proof (cases "Validate order r")
    case (Ret e)
    then show ?thesis
      using assms False Validate_accepts [of order r]
      by (cases e) (simp_all add: handleClusterEvent_def Let_def failed_def accepted_def)
  qed (use assms False in \<open>simp_all add: handleClusterEvent_def Let_def failed_def\<close>)
qed

lemma syncType_Cleanup [simp]: "syncType (r\<lparr>Spec := sp\<rparr>) s = syncType r s" "syncType r (ptStart s) = syncType r s"
  by (simp_all add: syncType_def ptStart_def)

lemma syncEtcdClus_known:
  assumes "syncEtcdClus order pick r s = Ret s'"
  shows "known s' = (if \<not> failed r \<and> accepted r then insert (RssName r) (known s) else known s)"
proof -
  let ?r = "r\<lparr>Spec := Cleanup (Spec r)\<rparr>"
  from assms obtain err s1 where h: "handleClusterEvent order pick (syncType r s) r (ptStart s) = Ret (err, s1)"
    and s': "s' = ptStop s1"
    by (auto simp: syncEtcdClus_def timed_def go_bind_Ret_iff)
  have "syncType r s \<noteq> kwDeleted" by (simp add: syncType_def kwDeleted_def kwAdded_def kwModified_def)
  with handleClusterEvent_cases [OF h] dispatch_synced [of pick ?r "ptStart s" err s1] show ?thesis
    by (auto simp: s')
qed

lemma onDeleteEtcdClus_known:
  assumes "onDeleteEtcdClus order pick obj s = Ret s'" and "deletedObject obj = Ret r"
  shows "known s' = (if failed r \<or> accepted r then known s - {RssName r} else known s)"
proof -
  let ?r = "r\<lparr>Spec := Cleanup (Spec r)\<rparr>"
  from assms obtain err s1 where h: "handleClusterEvent order pick kwDeleted r (ptStart s) = Ret (err, s1)"
    and s': "s' = ptStop s1"
    by (auto simp: onDeleteEtcdClus_def timed_def go_bind_Ret_iff)
  with handleClusterEvent_cases [OF h] dispatch_deleted [of pick ?r "ptStart s" err s1] show ?thesis
    by (auto simp: s')
qed

text \<open>
  A resource that is deleted when its specification does not pass the check stays known to the controller, and
  its cluster is not stopped: the check comes before the switch.
\<close>

lemma invalid_deletion_ignored:
  assumes "\<not> failed r" and "\<not> accepted r" and "onDeleteEtcdClus order pick (ObjRss r) s = Ret s'"
  shows "Names s' = Names s" and "Objects s' = Objects s"
proof -
  from assms(3) obtain err s1 where "handleClusterEvent order pick kwDeleted r (ptStart s) = Ret (err, s1)"
    and s': "s' = ptStop s1"
    by (auto simp: onDeleteEtcdClus_def deletedObject_def timed_def go_bind_Ret_iff)
  then have "s1 = ptStart s" using handleClusterEvent_cases assms(1,2) by blast
  then show "Names s' = Names s" "Objects s' = Objects s" by (simp_all add: s' ptStart_def ptStop_def)
qed

lemma sys_step_known: "sys_step E fuel {} s s' \<Longrightarrow> known s' = known s"
  by (erule sys_step.cases) (auto simp: delivers_def delivers_deleted_def)

lemma sys_step_mono:
  assumes "sys_step E fuel {} s s'"
  shows "sys_step E fuel R s s'"
  using assms
proof (cases rule: sys_step.cases)
  case (set_up i c go_on c')
  show ?thesis unfolding set_up(1) by (rule sys_step.set_up [where E = E, OF set_up(2-4)])
next
  case (loop i r r')
  show ?thesis unfolding loop(1) by (rule sys_step.loop [where E = E, OF loop(2-4)])
qed (simp_all add: delivers_def delivers_deleted_def)

section \<open>The invariant\<close>

text \<open>
  \<open>seen\<close> is what the informer delivered last for each key, before anything was written into it. The accepted
  resources seen are known, and if no refused resource is ever deleted, nothing else is.
\<close>

definition tracked :: "rss set \<Rightarrow> (string \<Rightarrow> rss option) \<Rightarrow> string set \<Rightarrow> bool" where
  "tracked R seen names \<longleftrightarrow>
     (\<forall>k r. seen k = Some r \<longrightarrow> \<not> failed r \<longrightarrow> accepted r \<longrightarrow> RssName r \<in> names) \<and>
     ((\<forall>r \<in> R. failed r \<or> accepted r) \<longrightarrow> names \<subseteq> RssName ` ran seen)"

definition seen_ok :: "rss set \<Rightarrow> (string \<Rightarrow> rss option) \<Rightarrow> bool" where
  "seen_ok R seen \<longleftrightarrow> (\<forall>k r. seen k = Some r \<longrightarrow> k = keyFunc r \<and> r \<in> R)"

definition one_namespace :: "rss set \<Rightarrow> bool" where
  "one_namespace R \<longleftrightarrow> (\<forall>r \<in> R. \<forall>r' \<in> R. RssNamespace r = RssNamespace r')"

lemma keyFunc_name:
  assumes "one_namespace R" and "r \<in> R" and "r' \<in> R"
  shows "keyFunc r = keyFunc r' \<longleftrightarrow> RssName r = RssName r'"
proof -
  have "RssNamespace r = RssNamespace r'" using assms unfolding one_namespace_def by blast
  then show ?thesis by (simp add: keyFunc_def)
qed

lemma tracked_upsert:
  assumes "one_namespace R" and "tracked R seen names" and "seen_ok R seen" and "r \<in> R"
  shows "tracked R (seen(keyFunc r \<mapsto> r)) (if \<not> failed r \<and> accepted r then insert (RssName r) names else names)"
proof -
  let ?seen = "seen(keyFunc r \<mapsto> r)"
  have r: "r \<in> ran ?seen" by (rule ranI [of _ "keyFunc r"]) simp
  have sub: "RssName ` ran seen \<subseteq> RssName ` ran ?seen"
  proof
    fix n assume "n \<in> RssName ` ran seen"
    then obtain k r' where r': "n = RssName r'" "seen k = Some r'" by (auto simp: ran_def)
    then have k: "k = keyFunc r'" "r' \<in> R" using assms(3) unfolding seen_ok_def by blast+
    show "n \<in> RssName ` ran ?seen"
    proof (cases "k = keyFunc r")
      case True
      then have "RssName r' = RssName r" using keyFunc_name [OF assms(1,4) k(2)] k(1) by simp
      then show ?thesis using r r'(1) by simp
    next
      case False
      then have "r' \<in> ran ?seen" using r'(2) by (intro ranI [of _ k]) simp
      then show ?thesis using r'(1) by simp
    qed
  qed
  have "(\<forall>r \<in> R. failed r \<or> accepted r) \<longrightarrow> insert (RssName r) names \<subseteq> RssName ` ran ?seen"
    using assms(2) sub r unfolding tracked_def by blast
  then show ?thesis using assms(2) unfolding tracked_def by simp
qed

lemma tracked_delete:
  assumes "one_namespace R" and "tracked R seen names" and "seen_ok R seen" and "r \<in> R"
  shows "tracked R (seen(keyFunc r := None)) (if failed r \<or> accepted r then names - {RssName r} else names)"
proof -
  have other: "RssName r' \<noteq> RssName r" if "seen k = Some r'" "k \<noteq> keyFunc r" for k r'
    using that assms(3) keyFunc_name [OF assms(1,4), of r'] by (auto simp: seen_ok_def)
  have "RssName ` ran seen - {RssName r} \<subseteq> RssName ` ran (seen(keyFunc r := None))"
  proof
    fix n assume "n \<in> RssName ` ran seen - {RssName r}"
    then have n: "n \<in> RssName ` ran seen" "n \<noteq> RssName r" by auto
    obtain k r' where r': "n = RssName r'" "seen k = Some r'" using n(1) by (auto simp: ran_def)
    moreover have "k \<noteq> keyFunc r"
      using r' n(2) assms(3) keyFunc_name [OF assms(1,4), of r'] by (auto simp: seen_ok_def)
    ultimately show "n \<in> RssName ` ran (seen(keyFunc r := None))" by (auto simp: ran_def image_iff)
  qed
  then have "(\<forall>r \<in> R. failed r \<or> accepted r) \<longrightarrow> names - {RssName r} \<subseteq> RssName ` ran (seen(keyFunc r := None))"
    using assms(2) unfolding tracked_def by blast
  then show ?thesis using assms(2,4) other unfolding tracked_def by simp
qed

definition pending :: "world \<Rightarrow> string \<Rightarrow> delta list" where
  "pending w k = filter (\<lambda>d. KeyOf d = k) (Processing w) @ deltasOf k (Fifo w)"

definition watch_inv :: "rss set \<Rightarrow> (string \<Rightarrow> rss option) \<Rightarrow> world \<Rightarrow> bool" where
  "watch_inv R seen w \<longleftrightarrow>
     fifo_wf R (Fifo w) \<and> (\<forall>d \<in> set (Processing w). delta_ok R d) \<and> store_ok R (Store w) \<and>
     dom seen = dom (map_of (CacheItems (Store w))) \<and> seen_ok R seen \<and>
     (\<forall>k. fold deltaEffect (pending w k) (seen k) = Server w k) \<and> tracked R seen (known (Operator w))"

text \<open>The delivery of one change: the controller takes a step, and the cache and what was seen follow.\<close>

lemma processUpsert_run:
  assumes "processUpsert order pick r (c, s) = Ret (c', s')"
  shows "syncEtcdClus order pick r s = Ret s'" and "map_of (CacheItems c') = (map_of (CacheItems c))(keyFunc r \<mapsto> r)"
proof -
  have "\<exists>s1. syncEtcdClus order pick r s = Ret s1 \<and> (c', s') = (cacheAdd r c, s1)"
    using assms
    by (cases "cacheGetByKey (keyFunc r) c")
      (simp_all add: processUpsert_def onAddEtcdClus_def onUpdateEtcdClus_def cacheUpdate_is_add go_bind_Ret_iff)
  then show "syncEtcdClus order pick r s = Ret s'" "map_of (CacheItems c') = (map_of (CacheItems c))(keyFunc r \<mapsto> r)"
    by (auto simp: cacheAdd_contents)
qed

lemma upsert_step: "r \<in> R \<Longrightarrow> syncEtcdClus order pick r s = Ret s' \<Longrightarrow> sys_step E fuel R s s'"
  by (rule sys_step.added [of R "ObjRss r" order pick]) (simp_all add: delivers_def onAddEtcdClus_def)

lemma upsert_delivered:
  assumes "one_namespace R" and "tracked R seen (known s)" and "seen_ok R seen" and "store_ok R c"
    and "dom seen = dom (map_of (CacheItems c))" and "r \<in> R" and "processUpsert order pick r (c, s) = Ret (c', s')"
  shows "sys_step E fuel R s s' \<and> store_ok R c' \<and> dom (seen(keyFunc r \<mapsto> r)) = dom (map_of (CacheItems c')) \<and>
    seen_ok R (seen(keyFunc r \<mapsto> r)) \<and> tracked R (seen(keyFunc r \<mapsto> r)) (known s')"
proof (intro conjI)
  note run = processUpsert_run [OF assms(7)]
  show "sys_step E fuel R s s'" by (rule upsert_step [OF assms(6) run(1)])
  show "store_ok R c'" using assms(4,6) unfolding store_ok_def run(2) by simp
  show "dom (seen(keyFunc r \<mapsto> r)) = dom (map_of (CacheItems c'))" using assms(5) unfolding run(2) by simp
  show "seen_ok R (seen(keyFunc r \<mapsto> r))" using assms(3,6) unfolding seen_ok_def by simp
  show "tracked R (seen(keyFunc r \<mapsto> r)) (known s')"
    using tracked_upsert [OF assms(1-3,6)] unfolding syncEtcdClus_known [OF run(1)] .
qed

lemma handed_object:
  assumes "delta_ok R (DeletedD x)"
  obtains r where "r \<in> R" "keyFunc r = KeyOf (DeletedD x)" "deletedObject (handed x) = Ret r" "delivers_deleted R (handed x)"
proof (cases x)
  case (Final r)
  then show ?thesis using assms that [of r] by (auto simp: handed_def deletedObject_def delivers_deleted_def)
next
  case (FinalStateUnknown k y)
  then obtain r where "r \<in> R" "y = Some r" "keyFunc r = k" using assms by auto
  then show ?thesis using that [of r] FinalStateUnknown by (auto simp: handed_def deletedObject_def delivers_deleted_def)
qed

lemma delivered_step:
  assumes "one_namespace R" and "tracked R seen (known s)" and "seen_ok R seen" and "store_ok R c"
    and "dom seen = dom (map_of (CacheItems c))" and "delta_ok R d" and "processDelta order pick d (c, s) = Ret (c', s')"
  shows "sys_step E fuel R s s' \<and> store_ok R c' \<and> dom (seen(KeyOf d := deltaEffect d x)) = dom (map_of (CacheItems c')) \<and>
    seen_ok R (seen(KeyOf d := deltaEffect d x)) \<and> tracked R (seen(KeyOf d := deltaEffect d x)) (known s')"
proof (cases d)
  case (DeletedD y)
  obtain r where r: "r \<in> R" "keyFunc r = KeyOf d" "deletedObject (handed y) = Ret r" "delivers_deleted R (handed y)"
    using assms(6) unfolding DeletedD by (rule handed_object)
  have s': "onDeleteEtcdClus order pick (handed y) s = Ret s'" and c': "c' = storeDelete (KeyOf d) c"
    using assms(7) by (auto simp: processDelta_def DeletedD go_bind_Ret_iff)
  have "sys_step E fuel R s s'" by (rule sys_step.deleted [OF r(4) s'])
  moreover have "deltaEffect d x = None" by (simp add: DeletedD)
  moreover have "store_ok R c'" using assms(4) unfolding store_ok_def c' storeDelete_contents by simp
  moreover have "dom (seen(KeyOf d := None)) = dom (map_of (CacheItems c'))"
    using assms(5) unfolding c' storeDelete_contents by simp
  moreover have "seen_ok R (seen(KeyOf d := None))" using assms(3) unfolding seen_ok_def by simp
  moreover have "tracked R (seen(KeyOf d := None)) (known s')"
    using tracked_delete [OF assms(1-3) r(1)] unfolding onDeleteEtcdClus_known [OF s' r(3)] r(2) .
  ultimately show ?thesis by simp
next
  case (SyncD r)
  then show ?thesis using upsert_delivered [OF assms(1-5), of r order pick c' s'] assms(6,7) by (simp add: processDelta_def)
next
  case (AddedD r)
  then show ?thesis using upsert_delivered [OF assms(1-5), of r order pick c' s'] assms(6,7) by (simp add: processDelta_def)
next
  case (UpdatedD r)
  then show ?thesis using upsert_delivered [OF assms(1-5), of r order pick c' s'] assms(6,7) by (simp add: processDelta_def)
qed

lemma outcome_pending: "Processing w = [] \<Longrightarrow> fold deltaEffect (pending w k) (seen k) = outcome (Fifo w) seen k"
  by (simp add: pending_def outcome_def)

lemma watch_inv_init: "watch_inv R (\<lambda>_. None) runController"
  by (simp add: watch_inv_def runController_def fifo_wf_def store_ok_def seen_ok_def pending_def deltasOf_def
      tracked_def known_def newController_def)

text \<open>A step of the reflector: the queue and the server change alike.\<close>

lemma watch_inv_queued:
  assumes "watch_inv R seen w" and "Processing w = []" and "fifo_wf R f" and "outcome f seen = m"
  shows "watch_inv R seen (w\<lparr>Server := m, Fifo := f\<rparr>)"
  using assms by (auto simp: watch_inv_def pending_def outcome_def)

lemma watch_inv_outcome: "watch_inv R seen w \<Longrightarrow> Processing w = [] \<Longrightarrow> outcome (Fifo w) seen = Server w"
  using outcome_pending [of w _ seen] by (simp add: watch_inv_def fun_eq_iff)

lemma watch_inv_popped:
  assumes "watch_inv R seen w" and "Processing w = []" and "fifoPop (Fifo w) = Some (ds, f)"
  shows "watch_inv R seen (w\<lparr>Fifo := f, Processing := ds\<rparr>)"
proof -
  have "fifo_wf R (Fifo w)" using assms(1) by (simp add: watch_inv_def)
  then obtain k where k: "deltasOf k (Fifo w) = ds" "\<forall>d \<in> set ds. KeyOf d = k \<and> delta_ok R d"
    "\<And>k'. deltasOf k' f = (if k' = k then [] else deltasOf k' (Fifo w))" "fifo_wf R f"
    using assms(3) by (rule fifoPop_some) blast
  have own: "filter (\<lambda>d. KeyOf d = k') ds = (if k' = k then ds else [])" for k'
    using k(2) by (auto simp: filter_id_conv filter_empty_conv)
  have "pending (w\<lparr>Fifo := f, Processing := ds\<rparr>) k' = pending w k'" for k'
    by (simp add: pending_def own k(1,3) assms(2))
  then show ?thesis using assms(1) k(2,4) by (simp add: watch_inv_def)
qed

lemma watch_inv_delivered:
  assumes "one_namespace R" and "watch_inv R seen w" and "Processing w = d # ds"
    and "processDelta order pick d (Store w, Operator w) = Ret (c, s)"
  shows "sys_step E fuel R (Operator w) s \<and>
    watch_inv R (seen(KeyOf d := deltaEffect d None)) (w\<lparr>Processing := ds, Store := c, Operator := s\<rparr>)"
proof -
  let ?seen = "seen(KeyOf d := deltaEffect d None)" and ?w = "w\<lparr>Processing := ds, Store := c, Operator := s\<rparr>"
  have inv: "tracked R seen (known (Operator w))" "seen_ok R seen" "store_ok R (Store w)"
      "dom seen = dom (map_of (CacheItems (Store w)))" "delta_ok R d"
    and rest: "fifo_wf R (Fifo w)" "\<forall>d \<in> set ds. delta_ok R d" "\<And>k. fold deltaEffect (pending w k) (seen k) = Server w k"
    using assms(2,3) by (simp_all add: watch_inv_def)
  have "fold deltaEffect (pending ?w k) (?seen k) = Server w k" for k
  proof -
    have eff: "deltaEffect d x = deltaEffect d y" for x y by (cases d) simp_all
    show ?thesis using rest(3) [of k] assms(3) eff [of None "seen k"] by (auto simp: pending_def)
  qed
  with delivered_step [OF assms(1) inv assms(4), of E fuel None] rest(1,2) show ?thesis
    by (simp add: watch_inv_def)
qed

lemma alias_simps [simp]: "KeyOf (aliasDelta g d) = KeyOf d" "deltaEffect (aliasDelta g d) = deltaEffect d"
  by (cases "(g, d)" rule: aliasDelta.cases; simp add: fun_eq_iff)+

lemma alias_ok:
  assumes "\<forall>r \<in> R. g r \<in> R \<and> keyFunc (g r) = keyFunc r"
  shows "delta_ok R d \<Longrightarrow> delta_ok R (aliasDelta g d)"
  using assms by (cases "(g, d)" rule: aliasDelta.cases) auto

lemma alias_filter: "filter (\<lambda>d. KeyOf d = k) (map (aliasDelta g) ds) = map (aliasDelta g) (filter (\<lambda>d. KeyOf d = k) ds)"
  by (induction ds) simp_all

lemma alias_effect: "fold deltaEffect (map (aliasDelta g) ds) = fold deltaEffect ds"
  by (induction ds) simp_all

lemma watch_inv_aliased:
  assumes "\<forall>r \<in> R. g r \<in> R \<and> keyFunc (g r) = keyFunc r" and "watch_inv R seen w"
  shows "watch_inv R seen (writeThrough g w)"
proof -
  let ?f = "(Fifo w)\<lparr>FifoItems := map (\<lambda>(k, ds). (k, map (aliasDelta g) ds)) (FifoItems (Fifo w))\<rparr>"
  have ds: "deltasOf k ?f = map (aliasDelta g) (deltasOf k (Fifo w))" for k
    by (simp add: deltasOf_def map_of_map split: option.splits)
  have "fold deltaEffect (pending (writeThrough g w) k) = fold deltaEffect (pending w k)" for k
    unfolding pending_def by (simp add: writeThrough_def ds alias_filter alias_effect)
  moreover have "fifo_wf R ?f"
    using assms(2) alias_ok [OF assms(1)] by (auto simp: watch_inv_def fifo_wf_def map_of_map dom_def)
  moreover have "store_ok R (Store (writeThrough g w))"
    using assms by (auto simp: watch_inv_def store_ok_def writeThrough_def map_of_map)
  moreover have "dom seen = dom (map_of (CacheItems (Store (writeThrough g w))))"
    using assms(2) by (simp add: watch_inv_def writeThrough_def map_of_map dom_map_option_comp)
  moreover have "\<forall>d \<in> set (Processing (writeThrough g w)). delta_ok R d"
    using assms(2) alias_ok [OF assms(1)] by (auto simp: watch_inv_def writeThrough_def)
  moreover have "Fifo (writeThrough g w) = ?f" "Operator (writeThrough g w) = Operator w" "Server (writeThrough g w) = Server w"
    by (simp_all add: writeThrough_def)
  ultimately show ?thesis using assms(2) unfolding watch_inv_def by simp
qed

lemma watch_inv_stepped:
  "watch_inv R seen w \<Longrightarrow> sys_step E fuel {} (Operator w) s \<Longrightarrow> watch_inv R seen (w\<lparr>Operator := s\<rparr>)"
  by (simp add: watch_inv_def pending_def sys_step_known)

lemma watch_inv_step:
  assumes "one_namespace R" and "watch_step E fuel R w w'" and "watch_inv R seen w"
  shows "(Operator w' = Operator w \<or> sys_step E fuel R (Operator w) (Operator w')) \<and> (\<exists>seen. watch_inv R seen w')"
  using assms(2)
proof (cases rule: watch_step.cases)
  case (watched r ty)
  have wf: "fifo_wf R (Fifo w)" and dm: "dom seen = dom (map_of (CacheItems (Store w)))"
    using assms(3) by (simp_all add: watch_inv_def)
  have "watch_inv R seen w'" unfolding watched(1)
    using watchHandler_outcome [OF wf watched(3) dm] watch_inv_outcome [OF assms(3) watched(2)]
    by (intro watch_inv_queued [OF assms(3) watched(2)]) simp_all
  then show ?thesis using watched(1) by auto
next
  case (listed rs order)
  have inv: "fifo_wf R (Fifo w)" "store_ok R (Store w)" "dom seen = dom (map_of (CacheItems (Store w)))"
    using assms(3) by (simp_all add: watch_inv_def)
  have "watch_inv R seen w'" unfolding listed(1)
    by (rule watch_inv_queued [OF assms(3) listed(2)]) (rule fifoReplace_outcome [OF inv(1) listed(3-5) inv(2,3)])+
  then show ?thesis using listed(1) by auto
next
  case (popped ds f)
  then show ?thesis using watch_inv_popped [OF assms(3) popped(2,3)] by auto
next
  case (delivered d ds order pick c s)
  then show ?thesis using watch_inv_delivered [OF assms(1,3) delivered(2,3), of E fuel] by auto
next
  case (aliased g)
  have "Operator w' = Operator w" by (simp add: aliased(1) writeThrough_def)
  then show ?thesis using watch_inv_aliased [OF aliased(2) assms(3)] aliased(1) by auto
next
  case (stepped s)
  then show ?thesis using watch_inv_stepped [OF assms(3) stepped(2)] sys_step_mono [OF stepped(2)] by auto
qed

lemma watch_run:
  assumes "watch_reachable E fuel R w" and "one_namespace R"
  shows "sys_reachable E fuel R (Operator w) \<and> (\<exists>seen. watch_inv R seen w)"
  using assms(1)
proof (induction rule: watch_reachable.induct)
  case init
  have "Operator runController = newController" by (simp add: runController_def)
  then show ?case using watch_inv_init sys_reachable.init by metis
next
  case (step w w')
  then obtain seen where "watch_inv R seen w" by blast
  from watch_inv_step [OF assms(2) step.hyps(2) this] step.IH show ?case
    by (auto intro: sys_reachable.step)
qed

section \<open>Properties\<close>


definition ex_queued :: world where
  "ex_queued = runController\<lparr>Server := [keyFunc ex_labelled \<mapsto> ex_labelled],
     Fifo := \<lparr>FifoItems = [(keyFunc ex_labelled, [AddedD ex_labelled])], FifoQueue = [keyFunc ex_labelled],
       Populated = True, InitialPopulationCount = 0\<rparr>\<rparr>"

definition ex_delivered :: world where
  "ex_delivered = runController\<lparr>Server := [keyFunc ex_labelled \<mapsto> ex_labelled],
     Fifo := \<lparr>FifoItems = [], FifoQueue = [], Populated = True, InitialPopulationCount = 0\<rparr>,
     Store := cacheAdd ex_labelled (Store runController), Operator := ex_added\<rparr>"

lemma ex_watched: "watch_step E fuel {ex_labelled} runController ex_queued"
proof -
  have "ex_queued = runController\<lparr>Server := serverChange kwAdded ex_labelled (Server runController),
      Fifo := watchHandler kwAdded ex_labelled (Store runController) (Fifo runController)\<rparr>"
    by (simp add: ex_queued_def runController_def serverChange_def watchHandler_def fifoAdd_def queueAction_def
        willObjectBeDeleted_def deltasOf_def dedupDeltas_def Let_def)
  then show ?thesis
    using watch_step.watched [of runController ex_labelled "{ex_labelled}" E fuel kwAdded] by (simp add: runController_def)
qed

lemma ex_processed:
  "processDelta [] True (AddedD ex_labelled) (Store runController, newController) =
     Ret (cacheAdd ex_labelled (Store runController), ex_added)"
  by (simp add: processDelta_def processUpsert_def cacheGetByKey_def runController_def ex_labelled_added)

lemma ex_run: "watch_reachable E fuel {ex_labelled} ex_delivered"
proof -
  let ?f = "\<lparr>FifoItems = [], FifoQueue = [], Populated = True, InitialPopulationCount = 0\<rparr>"
  let ?w = "ex_queued\<lparr>Fifo := ?f, Processing := [AddedD ex_labelled]\<rparr>"
  have "fifoPop (Fifo ex_queued) = Some ([AddedD ex_labelled], ?f)" "Processing ex_queued = []"
    by (simp_all add: ex_queued_def fifoPop_def runController_def)
  then have pop: "watch_step E fuel {ex_labelled} ex_queued ?w" by (intro watch_step.popped)
  have "Processing ?w = AddedD ex_labelled # []" "Store ?w = Store runController" "Operator ?w = newController"
    by (simp_all add: ex_queued_def runController_def)
  then have "watch_step E fuel {ex_labelled} ?w
      (?w\<lparr>Processing := [], Store := cacheAdd ex_labelled (Store runController), Operator := ex_added\<rparr>)"
    using ex_processed by (intro watch_step.delivered [of _ _ _ "[]" True]) simp_all
  also have "?w\<lparr>Processing := [], Store := cacheAdd ex_labelled (Store runController), Operator := ex_added\<rparr> = ex_delivered"
    by (simp add: ex_queued_def ex_delivered_def runController_def)
  finally have dlv: "watch_step E fuel {ex_labelled} ?w ex_delivered" .
  show ?thesis
    by (rule watch_reachable.step [OF watch_reachable.step [OF watch_reachable.step [OF watch_reachable.init ex_watched] pop] dlv])
qed

lemma ex_accepted: "\<not> failed ex_labelled" "accepted ex_labelled"
proof -
  show "\<not> failed ex_labelled" using ex_labelled_not_failed by (simp add: failed_def)
  show "accepted ex_labelled" using ex_labelled_valid Validate_accepts unfolding accepted_def by blast
qed


end
