(* ===== verification/Clients.thy ===== *)
theory Clients
  imports Complex_Main RestClient
begin

text \<open>
  How the operator gets its clients: the configuration of the cluster it runs in
  (pkg/util/k8sutil/k8sutil.go and rest.InClusterConfig of client-go), the REST client that is made of a
  configuration (vendor/k8s.io/client-go/rest/config.go, client.go and url_utils.go), and the generated clientset
  (pkg/generated/clientset/versioned/clientset.go and typed/clusterlabs/v1alpha1/clusterlabs_client.go,
  pkg/client/client.go).

  \<^item> \<open>hostenv\<close> has what stands outside: name resolution, files, the parser of URLs, transports and serializers.
  \<^item> The environment variables of the process are a map that \<open>InClusterConfig\<close> changes.

  The lemmas show when a client is made, that it addresses the API of the custom resource, and what the
  environment is afterwards.
\<close>

section \<open>Configurations\<close>

datatype limiter = TokenBucketRateLimiter rat int

record restconfig =
  Host :: string
  APIPath :: string
  GroupVersion :: "(string \<times> string) option"
  NegotiatedSerializer :: bool
  CfgContentType :: string
  BearerToken :: string
  CfgCAFile :: string
  CfgCAData :: string
  CfgCertFile :: string
  CfgCertData :: string
  Insecure :: bool
  UserAgent :: string
  QPS :: rat
  Burst :: int
  RateLimiter :: "limiter option"

definition zero_config :: restconfig where
  "zero_config = \<lparr>Host = [], APIPath = [], GroupVersion = None, NegotiatedSerializer = False, CfgContentType = [],
     BearerToken = [], CfgCAFile = [], CfgCAData = [], CfgCertFile = [], CfgCertData = [], Insecure = False,
     UserAgent = [], QPS = 0, Burst = 0, RateLimiter = None\<rparr>"

record url =
  UrlScheme :: string
  UrlHost :: string
  UrlPath :: string

record restclient =
  RcBase :: url
  RcAPIPath :: string
  RcContentType :: string
  Throttle :: "limiter option"

record hostenv =
  LookupHost :: "string \<Rightarrow> go_error + string list"
  ReadSecretFile :: "string \<Rightarrow> go_error + string"
  CertPoolError :: "string \<Rightarrow> go_error option"
  ParseURL :: "string \<Rightarrow> go_error + url"
  TransportError :: "restconfig \<Rightarrow> go_error option"
  SerializerError :: "restconfig \<Rightarrow> go_error option"
  DiscoveryError :: "restconfig \<Rightarrow> go_error option"
  KubeClientError :: "restconfig \<Rightarrow> go_error option"
  BuildConfigFromFlags :: "string \<Rightarrow> string \<Rightarrow> go_error + restconfig"
  DefaultKubernetesUserAgent :: string
  HostEncodeParameters :: "params \<Rightarrow> go_error + (string \<times> string list) list"
  HostEncodeObject :: "body \<Rightarrow> go_error + string"
  Exchange :: "restclient \<Rightarrow> httprequest \<Rightarrow> go_error + rss list"

section \<open>The REST client of a configuration\<close>

definition DefaultVersionedAPIPath :: "string \<Rightarrow> string \<times> string \<Rightarrow> string" where
  "DefaultVersionedAPIPath apiPath gv =
     (let p = pathJoin [''/'', apiPath]
      in if fst gv \<noteq> [] then pathJoin [p, fst gv, snd gv] else pathJoin [p, snd gv])"

definition schemedURL :: "hostenv \<Rightarrow> string \<Rightarrow> bool \<Rightarrow> go_error + url" where
  "schemedURL H base defaultTLS =
     (case ParseURL H ((if defaultTLS then ''https://'' else ''http://'') @ base) of
        Inl err \<Rightarrow> Inl err
      | Inr u \<Rightarrow> if UrlPath u \<noteq> [] \<and> UrlPath u \<noteq> ''/''
                 then Inl (ErrNew (''host must be a URL or a host:port pair: '' @ dquoted base)) else Inr u)"

definition hostURL :: "hostenv \<Rightarrow> string \<Rightarrow> bool \<Rightarrow> go_error + url" where
  "hostURL H base defaultTLS =
     (case ParseURL H base of
        Inl _ \<Rightarrow> schemedURL H base defaultTLS
      | Inr u \<Rightarrow> if UrlScheme u = [] \<or> UrlHost u = [] then schemedURL H base defaultTLS else Inr u)"

definition DefaultServerURL :: "hostenv \<Rightarrow> string \<Rightarrow> string \<Rightarrow> string \<times> string \<Rightarrow> bool \<Rightarrow> go_error + (url \<times> string)" where
  "DefaultServerURL H host apiPath gv defaultTLS =
     (if host = [] then Inl (ErrNew ''host must be a URL or a host:port pair'')
      else case hostURL H host defaultTLS of
        Inl err \<Rightarrow> Inl err
      | Inr u \<Rightarrow> Inr (u, DefaultVersionedAPIPath apiPath gv))"

definition defaultServerUrlFor :: "hostenv \<Rightarrow> restconfig \<Rightarrow> go_error + (url \<times> string)" where
  "defaultServerUrlFor H cfg =
     (let hasCA = (CfgCAFile cfg \<noteq> [] \<or> CfgCAData cfg \<noteq> []);
          hasCert = (CfgCertFile cfg \<noteq> [] \<or> CfgCertData cfg \<noteq> []);
          host = (if Host cfg = [] then ''localhost'' else Host cfg)
      in DefaultServerURL H host (APIPath cfg) (case GroupVersion cfg of Some gv \<Rightarrow> gv | None \<Rightarrow> ([], []))
           (hasCA \<or> hasCert \<or> Insecure cfg))"

definition DefaultQPS :: rat where "DefaultQPS = 5"
definition DefaultBurst :: int where "DefaultBurst = 10"

definition NewRESTClient :: "hostenv \<Rightarrow> url \<Rightarrow> string \<Rightarrow> restconfig \<Rightarrow> rat \<Rightarrow> int \<Rightarrow> go_error + restclient" where
  "NewRESTClient H baseURL versionedAPIPath cfg maxQPS maxBurst =
     (let p = UrlPath baseURL; base = baseURL\<lparr>UrlPath := (if p \<noteq> [] \<and> last p = CHR ''/'' then p else p @ ''/'')\<rparr>;
          contentType = (if CfgContentType cfg = [] then ''application/json'' else CfgContentType cfg)
      in case SerializerError H cfg of
           Some err \<Rightarrow> Inl err
         | None \<Rightarrow> Inr \<lparr>RcBase = base, RcAPIPath = versionedAPIPath, RcContentType = contentType,
             Throttle = (if maxQPS > 0 \<and> RateLimiter cfg = None then Some (TokenBucketRateLimiter maxQPS maxBurst)
                         else RateLimiter cfg)\<rparr>)"

definition RESTClientFor :: "hostenv \<Rightarrow> restconfig \<Rightarrow> go_error + restclient" where
  "RESTClientFor H cfg =
     (if GroupVersion cfg = None then Inl (ErrNew ''GroupVersion is required when initializing a RESTClient'')
      else if \<not> NegotiatedSerializer cfg then Inl (ErrNew ''NegotiatedSerializer is required when initializing a RESTClient'')
      else
        (let qps = (if QPS cfg = 0 then DefaultQPS else QPS cfg); burst = (if Burst cfg = 0 then DefaultBurst else Burst cfg)
         in case defaultServerUrlFor H cfg of
              Inl err \<Rightarrow> Inl err
            | Inr (baseURL, versionedAPIPath) \<Rightarrow>
                (case TransportError H cfg of
                   Some err \<Rightarrow> Inl err
                 | None \<Rightarrow> NewRESTClient H baseURL versionedAPIPath cfg qps burst)))"

section \<open>The generated clientset\<close>

definition setConfigDefaults :: "hostenv \<Rightarrow> restconfig \<Rightarrow> restconfig" where
  "setConfigDefaults H cfg = cfg\<lparr>GroupVersion := Some (groupName, groupVersion), APIPath := ''/apis'', NegotiatedSerializer := True,
     UserAgent := (if UserAgent cfg = [] then DefaultKubernetesUserAgent H else UserAgent cfg)\<rparr>"

definition clusterlabsNewForConfig :: "hostenv \<Rightarrow> restconfig \<Rightarrow> go_error + restclient" where
  "clusterlabsNewForConfig H c = RESTClientFor H (setConfigDefaults H c)"

definition orDie :: "go_error + 'a \<Rightarrow> 'a go" where
  "orDie r = (case r of Inl err \<Rightarrow> Panic (Error err) | Inr x \<Rightarrow> Ret x)"

definition clusterlabsNewForConfigOrDie :: "hostenv \<Rightarrow> restconfig \<Rightarrow> restclient go" where
  "clusterlabsNewForConfigOrDie H c = orDie (clusterlabsNewForConfig H c)"

text \<open>
  A clientset has the client of the group and the configuration that its discovery client was made of. The
  discovery client is made by client-go, which may fail.
\<close>

record clientset =
  CsClusterlabs :: restclient
  CsDiscovery :: restconfig

definition NewDiscoveryClientForConfig :: "hostenv \<Rightarrow> restconfig \<Rightarrow> go_error + restconfig" where
  "NewDiscoveryClientForConfig H c = (case DiscoveryError H c of Some err \<Rightarrow> Inl err | None \<Rightarrow> Inr c)"

definition csNewForConfig :: "hostenv \<Rightarrow> restconfig \<Rightarrow> go_error + clientset" where
  "csNewForConfig H c =
     (let cfg = (if RateLimiter c = None \<and> QPS c > 0
                 then c\<lparr>RateLimiter := Some (TokenBucketRateLimiter (QPS c) (Burst c))\<rparr> else c)
      in case clusterlabsNewForConfig H cfg of
           Inl err \<Rightarrow> Inl err
         | Inr client \<Rightarrow>
             (case NewDiscoveryClientForConfig H cfg of
                Inl err \<Rightarrow> Inl err
              | Inr d \<Rightarrow> Inr \<lparr>CsClusterlabs = client, CsDiscovery = d\<rparr>))"

definition csNewForConfigOrDie :: "hostenv \<Rightarrow> restconfig \<Rightarrow> clientset go" where
  "csNewForConfigOrDie H c =
     go_bind (clusterlabsNewForConfigOrDie H c) (\<lambda>client.
     go_bind (orDie (NewDiscoveryClientForConfig H c)) (\<lambda>d. Ret \<lparr>CsClusterlabs = client, CsDiscovery = d\<rparr>))"

text \<open>Methods on a pointer that may be nil.\<close>

definition Discovery :: "clientset option \<Rightarrow> restconfig option" where
  "Discovery c = map_option CsDiscovery c"

definition RESTClient :: "restclient option \<Rightarrow> restclient option" where
  "RESTClient c = (case c of None \<Rightarrow> None | Some rc \<Rightarrow> Some rc)"

definition restOf :: "hostenv \<Rightarrow> restclient \<Rightarrow> restenv" where
  "restOf H rc = \<lparr>BaseURLPath = UrlPath (RcBase rc), VersionedAPIPath = RcAPIPath rc, ContentTypeOf = RcContentType rc,
     EncodeParameters = HostEncodeParameters H, EncodeObject = HostEncodeObject H, roundTrip = Exchange H rc\<rparr>"

definition ReplicatedStatefulSets :: "hostenv \<Rightarrow> restclient \<Rightarrow> string \<Rightarrow> typedclient" where
  "ReplicatedStatefulSets H rc ns = newReplicatedStatefulSets (restOf H rc) ns"

definition MustNew :: "hostenv \<Rightarrow> restconfig \<Rightarrow> clientset go" where
  "MustNew H cfg = orDie (csNewForConfig H cfg)"

section \<open>The configuration of the cluster\<close>

type_synonym procenv = "(string \<times> string) list"

definition Getenv :: "string \<Rightarrow> procenv \<Rightarrow> string" where
  "Getenv k env = (case map_of env k of None \<Rightarrow> [] | Some v \<Rightarrow> v)"

definition Setenv :: "string \<Rightarrow> string \<Rightarrow> procenv \<Rightarrow> procenv" where
  "Setenv k v env = AList.update k v env"

definition JoinHostPort :: "string \<Rightarrow> string \<Rightarrow> string" where
  "JoinHostPort host port = (if CHR '':'' \<in> set host then ''['' @ host @ '']:'' @ port else host @ '':'' @ port)"

definition accountConfig :: "hostenv \<Rightarrow> string \<Rightarrow> string \<Rightarrow> string \<Rightarrow> go_error + restconfig" where
  "accountConfig H dir host port =
     (case ReadSecretFile H (dir @ ''token'') of
        Inl err \<Rightarrow> Inl err
      | Inr token \<Rightarrow>
          (let rootCAFile = dir @ ''ca.crt''
           in Inr (zero_config\<lparr>Host := ''https://'' @ JoinHostPort host port, BearerToken := token,
                CfgCAFile := (if CertPoolError H rootCAFile \<noteq> None then [] else rootCAFile)\<rparr>)))"

definition restInClusterConfig :: "hostenv \<Rightarrow> procenv \<Rightarrow> go_error + restconfig" where
  "restInClusterConfig H env =
     (let host = Getenv ''KUBERNETES_SERVICE_HOST'' env; port = Getenv ''KUBERNETES_SERVICE_PORT'' env
      in if host = [] \<or> port = []
         then Inl (ErrNew ''unable to load in-cluster configuration, KUBERNETES_SERVICE_HOST and KUBERNETES_SERVICE_PORT must be defined'')
         else accountConfig H ''/var/run/secrets/kubernetes.io/serviceaccount/'' host port)"

definition FakeClusterConfig :: "hostenv \<Rightarrow> procenv \<Rightarrow> go_error + restconfig" where
  "FakeClusterConfig H env =
     (let host = Getenv ''KUBERNETES_SERVICE_HOST'' env; port = Getenv ''KUBERNETES_SERVICE_PORT'' env;
          account = Getenv ''KUBERNETES_SERVICE_DIR'' env
      in if host = [] \<or> port = [] \<or> account = []
         then Inl (ErrNew ''unable to load in-cluster configuration, KUBERNETES_SERVICE_HOST, KUBERNETES_SERVICE_PORT and KUBERNETES_SERVICE_DIR must be defined'')
         else accountConfig H account host port)"

definition TestConfig :: "hostenv \<Rightarrow> go_error + restconfig" where
  "TestConfig H =
     (case BuildConfigFromFlags H ''https://192.168.124.10:6443'' ''/Users/beekhof/.kube/config'' of
        Inl err \<Rightarrow> Inl err
      | Inr cfg \<Rightarrow> Inr (cfg\<lparr>Insecure := True, GroupVersion := Some ([], ''v1''), APIPath := ''/api'', NegotiatedSerializer := True\<rparr>))"

definition ensureHost :: "hostenv \<Rightarrow> procenv \<Rightarrow> procenv go" where
  "ensureHost H env =
     (if Getenv ''KUBERNETES_SERVICE_HOST'' env \<noteq> [] then Ret env
      else case LookupHost H ''kubernetes.default.svc'' of
        Inl err \<Rightarrow> Panic (Error err)
      | Inr [] \<Rightarrow> Panic ''index out of range''
      | Inr (a # _) \<Rightarrow> Ret (Setenv ''KUBERNETES_SERVICE_HOST'' a env))"

text \<open>The flag \<^verbatim>\<open>testing\<close> of the function is a constant, so the test configuration is never used.\<close>

definition InClusterConfig :: "hostenv \<Rightarrow> procenv \<Rightarrow> ((go_error + restconfig) \<times> procenv) go" where
  "InClusterConfig H env =
     go_bind (ensureHost H env) (\<lambda>env1.
       let env2 = (if Getenv ''KUBERNETES_SERVICE_PORT'' env1 = [] then Setenv ''KUBERNETES_SERVICE_PORT'' ''443'' env1 else env1);
           cfg = restInClusterConfig H env2; testing = False
       in Ret (if testing then TestConfig H else cfg, env2))"

text \<open>The clients of the Kubernetes API and of its extensions are made by client-go, which may fail.\<close>

definition kubeNewForConfigOrDie :: "hostenv \<Rightarrow> restconfig \<Rightarrow> restconfig go" where
  "kubeNewForConfigOrDie H cfg = (case KubeClientError H cfg of Some err \<Rightarrow> Panic (Error err) | None \<Rightarrow> Ret cfg)"

definition MustNewKubeClientFromConfig :: "hostenv \<Rightarrow> restconfig \<Rightarrow> restconfig go" where
  "MustNewKubeClientFromConfig H cfg = kubeNewForConfigOrDie H cfg"

definition MustNewKubeClient :: "hostenv \<Rightarrow> procenv \<Rightarrow> (restconfig \<times> procenv) go" where
  "MustNewKubeClient H env =
     go_bind (InClusterConfig H env) (\<lambda>(cfg, env').
     go_bind (orDie cfg) (\<lambda>cfg. go_bind (kubeNewForConfigOrDie H cfg) (\<lambda>cli. Ret (cli, env'))))"

definition MustNewKubeExtClient :: "hostenv \<Rightarrow> procenv \<Rightarrow> (restconfig \<times> procenv) go" where
  "MustNewKubeExtClient H env =
     go_bind (InClusterConfig H env) (\<lambda>(cfg, env').
     go_bind (orDie cfg) (\<lambda>cfg. go_bind (kubeNewForConfigOrDie H cfg) (\<lambda>cli. Ret (cli, env'))))"

definition MustNewInCluster :: "hostenv \<Rightarrow> procenv \<Rightarrow> (clientset \<times> procenv) go" where
  "MustNewInCluster H env =
     go_bind (InClusterConfig H env) (\<lambda>(cfg, env').
     go_bind (orDie cfg) (\<lambda>cfg. go_bind (MustNew H cfg) (\<lambda>cli. Ret (cli, env'))))"

section \<open>What a client addresses\<close>

lemma api_path: "DefaultVersionedAPIPath ''/apis'' (groupName, groupVersion) = ''/apis/clusterlabs.org/v1alpha1''"
  by code_simp

lemma RESTClientFor_path:
  assumes "RESTClientFor H cfg = Inr rc" and "GroupVersion cfg = Some gv"
  shows "RcAPIPath rc = DefaultVersionedAPIPath (APIPath cfg) gv"
  using assms
  by (auto simp: RESTClientFor_def NewRESTClient_def defaultServerUrlFor_def DefaultServerURL_def Let_def
      split: if_splits sum.splits option.splits)

lemma clientset_path:
  assumes "csNewForConfig H cfg = Inr cs"
  shows "RcAPIPath (CsClusterlabs cs) = ''/apis/clusterlabs.org/v1alpha1''"
proof -
  obtain c where "RESTClientFor H (setConfigDefaults H c) = Inr (CsClusterlabs cs)"
    using assms by (auto simp: csNewForConfig_def clusterlabsNewForConfig_def Let_def split: sum.splits if_splits)
  from RESTClientFor_path [OF this, of "(groupName, groupVersion)"] show ?thesis
    by (simp add: setConfigDefaults_def api_path)
qed

text \<open>
  The clients of a clientset share one limit of requests when the configuration has one, or a positive rate; this is
  not so for \<open>csNewForConfigOrDie\<close>, which passes the configuration on as it is.
\<close>

lemma clientset_shares_limit:
  assumes "csNewForConfig H cfg = Inr cs" and "RateLimiter cfg \<noteq> None \<or> QPS cfg > 0"
  shows "Throttle (CsClusterlabs cs) = RateLimiter (CsDiscovery cs)" "Throttle (CsClusterlabs cs) \<noteq> None"
  using assms
  by (auto simp: csNewForConfig_def clusterlabsNewForConfig_def NewDiscoveryClientForConfig_def setConfigDefaults_def RESTClientFor_def
      NewRESTClient_def Let_def split: sum.splits if_splits option.splits)

section \<open>The client of the operator\<close>

text \<open>The variables that \<open>InClusterConfig\<close> may set; every other one is as before.\<close>

definition serviceVars :: "string set" where
  "serviceVars = {''KUBERNETES_SERVICE_HOST'', ''KUBERNETES_SERVICE_PORT''}"

lemma Getenv_Setenv: "Getenv k (Setenv k' v env) = (if k = k' then v else Getenv k env)"
  by (simp add: Getenv_def Setenv_def update_conv')

definition unresolved :: "hostenv \<Rightarrow> procenv \<Rightarrow> bool" where
  "unresolved H env = (Getenv ''KUBERNETES_SERVICE_HOST'' env = [] \<and>
     (case LookupHost H ''kubernetes.default.svc'' of Inr (a # _) \<Rightarrow> False | _ \<Rightarrow> True))"

lemma ensureHost_cases:
  "case ensureHost H env of
     Ret env' \<Rightarrow> env' = env \<and> Getenv ''KUBERNETES_SERVICE_HOST'' env \<noteq> [] \<or>
       Getenv ''KUBERNETES_SERVICE_HOST'' env = [] \<and> (\<exists>a. env' = Setenv ''KUBERNETES_SERVICE_HOST'' a env)
   | Panic _ \<Rightarrow> unresolved H env
   | Stuck \<Rightarrow> False"
  by (auto simp: ensureHost_def unresolved_def split: sum.splits list.splits)

definition completed :: "procenv \<Rightarrow> procenv \<Rightarrow> bool" where
  "completed env env' \<longleftrightarrow> Getenv ''KUBERNETES_SERVICE_PORT'' env' \<noteq> [] \<and>
     (\<forall>k. k \<notin> serviceVars \<or> Getenv k env \<noteq> [] \<longrightarrow> Getenv k env' = Getenv k env)"

lemma InClusterConfig_cases:
  "case InClusterConfig H env of
     Ret (cfg, env') \<Rightarrow> cfg = restInClusterConfig H env' \<and> completed env env'
   | Panic _ \<Rightarrow> unresolved H env
   | Stuck \<Rightarrow> False"
proof (cases "ensureHost H env")
  case (Ret env1)
  then have "env1 = env \<and> Getenv ''KUBERNETES_SERVICE_HOST'' env \<noteq> [] \<or>
       Getenv ''KUBERNETES_SERVICE_HOST'' env = [] \<and> (\<exists>a. env1 = Setenv ''KUBERNETES_SERVICE_HOST'' a env)"
    using ensureHost_cases [where H = H and env = env] by simp
  with Ret show ?thesis by (auto simp: InClusterConfig_def Let_def completed_def serviceVars_def Getenv_Setenv)
qed (use ensureHost_cases [where H = H and env = env] in \<open>simp_all add: InClusterConfig_def\<close>)

lemma restInClusterConfig_host:
  assumes "restInClusterConfig H env = Inr cfg"
  shows "Getenv ''KUBERNETES_SERVICE_HOST'' env \<noteq> []"
    "Host cfg = ''https://'' @ JoinHostPort (Getenv ''KUBERNETES_SERVICE_HOST'' env) (Getenv ''KUBERNETES_SERVICE_PORT'' env)"
    "Inr (BearerToken cfg) = ReadSecretFile H ''/var/run/secrets/kubernetes.io/serviceaccount/token''"
  using assms by (auto simp: restInClusterConfig_def accountConfig_def Let_def split: if_splits sum.splits)

lemma clientset_host:
  "csNewForConfig H cfg = Inr cs \<Longrightarrow> Host (CsDiscovery cs) = Host cfg \<and> BearerToken (CsDiscovery cs) = BearerToken cfg"
  by (auto simp: csNewForConfig_def NewDiscoveryClientForConfig_def Let_def split: sum.splits if_splits option.splits)


definition sample_host :: hostenv where
  "sample_host = \<lparr>LookupHost = (\<lambda>n. Inr [''10.0.0.1'']), ReadSecretFile = (\<lambda>p. Inr ''secret''), CertPoolError = (\<lambda>p. None),
     ParseURL = (\<lambda>s. Inr \<lparr>UrlScheme = ''https'', UrlHost = s, UrlPath = []\<rparr>), TransportError = (\<lambda>c. None),
     SerializerError = (\<lambda>c. None), DiscoveryError = (\<lambda>c. None), KubeClientError = (\<lambda>c. None),
     BuildConfigFromFlags = (\<lambda>u f. Inl (ErrNew ''no such file'')), DefaultKubernetesUserAgent = ''rss-operator'',
     HostEncodeParameters = (\<lambda>p. Inr []), HostEncodeObject = (\<lambda>b. Inr ''{}''), Exchange = (\<lambda>c h. Inr [zero_rss])\<rparr>"


end
