(* ===== verification/Spec2Isabelle.thy ===== *)
theory Spec2Isabelle
  imports Startup Logging PeerFinder DeepCopy Watch Clients
begin

text \<open>
  A verification library of the rss-operator, a Kubernetes operator for replicated stateful sets
  (Go, sources under src/).

  \<^bold>\<open>The program.\<close> The process starts in cmd/operator/main.go: it looks up its own pod, creates the custom
  resource definition and waits for it, reports itself ready, and runs an informer. The informer hands
  every \<^verbatim>\<open>ReplicatedStatefulSet\<close> to the controller (pkg/controller), which keeps one cluster object
  (pkg/cluster) per name and turns additions, changes and deletions into a new object, an event in the
  object's channel, or the closing of its stop channel. Each object has a goroutine: it sets the cluster
  up, creates its service, secret and stateful set, and then loops over events, the stop channel and a
  timer. On the timer it polls the pods, reconciles its record of the members (pkg/util/member.go) with
  them by running the status command of the application in every pod, recovers failed members, and runs
  the replication: it starts, demotes and stops instances of the application until the wanted numbers of
  primaries and members are reached. What it knows it writes into the status of the resource
  (pkg/apis). A small helper, the peer finder, runs in the application containers (apps).

  \<^bold>\<open>Theories.\<close> Each is named after the part it models; its definitions keep the names of the source.
  \<^item> \<open>Prelude\<close>, \<open>GoStrings\<close>: the outcome of a Go computation (return, panic, or no end within the
    bound), errors, integers, map iteration order, and the parts of strconv, strings and fmt in use.
    \<open>GoPaths\<close>: paths (package path). \<open>HeapViews\<close>: a heap of typed cells, the values read through its
    addresses, and what it means to share none of them.
  \<^item> \<open>KubeTypes\<close>, \<open>Selectors\<close>, \<open>TlsConfig\<close>, \<open>KubeEnv\<close>: label selectors with the validation of labels; the
    TLS configuration made from files in a temporary directory (pkg/util/k8sutil/tls.go, with a file system); API objects; the record \<open>kube\<close> of the answers of everything outside the
    operator, each a function of the requests made before; the cluster object with the list of its
    requests; the helpers of pkg/util/k8sutil.
  \<^item> \<open>Members\<close>: member.go. \<open>ApiStatus\<close>, \<open>ApiSpec\<close>: status.go, cluster.go, cluster_tls.go and
    register.go of the API. \<open>DeepCopy\<close>: zz_generated.deepcopy.go, on the heap.
    \<open>ClusterErrors\<close>, \<open>ExecParse\<close>, \<open>Retry\<close>: error.go, the parsers of exec.go, retry.go.
  \<^item> \<open>ClusterCore\<close>: operations on one member (start, stop, delete, label, status update). \<open>Recovery\<close>:
    reconcile.go. \<open>Replicate\<close>: replicate.go. \<open>StatefulSetGen\<close>: statefulset.go. \<open>Channels\<close>: that
    none of these touches the channels. \<open>ClusterLoop\<close>: cluster.go, with the loop as the step relation
    \<open>loop_step\<close> of one goroutine and \<open>run_step\<close> of the object and its callers.
  \<^item> \<open>Controller\<close>: pkg/controller, with the step relation \<open>sys_step\<close> of the whole operator: all the
    goroutines and the callbacks of the informer. \<open>Watch\<close>: \<^verbatim>\<open>run\<close> of informer.go with the reflector's handler,
    the queue of changes and the process function of client-go, as the step relation \<open>watch_step\<close> of the
    operator with its informer. \<open>Chaos\<close>: pkg/chaos. \<open>Startup\<close>: main.go, crd.go, the readiness probe
    and the start of the controller. \<open>Logging\<close>: logging.go. \<open>PeerFinder\<close>: apps/dummy/peer-finder.go and
    its identical copy in apps/galera.
  \<^item> \<open>RestClient\<close>, \<open>Clients\<close>: the generated client of the custom resource on the request builder of client-go,
    and the construction of clients from the configuration of the cluster (pkg/client, k8sutil.go, the
    generated clientset). \<open>FakeClient\<close>: the generated fake clientset with its scheme, tracker and reactors.
    \<open>Informers\<close>: the generated listers over the indexed cache, and the factory of shared informers.

  \<^bold>\<open>State and operations.\<close> Structs are records, pointers to a member are its key in the member set, nil
  slices and maps are \<open>None\<close> where the code or \<^verbatim>\<open>reflect.DeepEqual\<close> can tell them apart. A method that
  changes its receiver returns it. The goroutines share only the channels and the map of the controller,
  so a turn of a loop is one step; the cluster objects live in a store because they outlive their entry
  in the map. An order in which a map is ranged over is an answer of the environment, and every property
  holds for all of them.

  \<^bold>\<open>What is shown.\<close>
  \<^item> Members: reconciliation is exactly an abstract description of each entry; names and URLs are read back.
  \<^item> API: conditions stay unique and true; which specifications are accepted and which crash the
    operator; the bounds of the sizes; a deep copy has the value of the original and shares nothing with it.
  \<^item> Helpers: durations; retries; what the list option of a cluster selects; that no file of a TLS
    configuration is left behind.
  \<^item> One member: what each operation does to it and to nothing else, in success and in failure; a member
    is labelled active only between its start and its stop.
  \<^item> Reconciliation and recovery: total correctness, the invariant of the members, the effect on each.
  \<^item> Replication: the choices of seeds, of the next member and of the primary to demote; no panic, the
    invariant, and the goal when there are no errors; termination when all members are primaries; the
    case in which the loop over secondaries never ends.
  \<^item> Generated objects: selectors, labels and names fit together; the configuration secret does not depend
    on any iteration order.
  \<^item> Life cycle: whatever happens, the loop does not panic and keeps the members consistent; nothing is
    created before the phase is recorded; which configuration maps the rules are taken from; resizing;
    failures are reported once.
  \<^item> The whole operator: in every interleaving no goroutine panics, no channel is closed twice, names lead
    to distinct live objects, the gauge counts them; how an ended cluster blocks the controller. With its
    informer it is a refinement of that, and once the queued changes are delivered the controller has the
    clusters that the server's resources ask for. Start-up: when the operator is ready, and that it becomes
    ready.
  \<^item> Clients: which requests the typed client sends, where a client of the operator sends them; the fake
    clientset answers like a store; the listers return what the cache has.
  \<^item> Chaos, logging, peer finder: what a round kills and that it ends; which lines can be formatted and
    that command output always can; how the scripts are run at every moment.

  \<^bold>\<open>Contracts.\<close> The locales \<open>condition_setter\<close> (setters of a condition), \<open>retry_condition\<close> (what a
  condition promises to \<open>Retry\<close>), \<open>member_operation\<close> (the effect of an operation on one member),
  \<open>draining_loop\<close> (a loop whose body uses up candidates) and \<open>indexed_cache\<close> (what the listers rely on) hold
  the lemmas of their clients and are interpreted on every operation of the model that has the contract.

  \<^bold>\<open>Hypotheses.\<close> \<open>pods_labelled\<close>: a pod that the API returns has labels (the generated pods have).
  \<open>cluster_world E N\<close>: besides, the names of the pods listed for a cluster are in the finite set \<open>N\<close>, and
  a stateful set that is read has its number of replicas, which the server fills in. \<open>settles\<close>: the API accepts and establishes
  the definition from some request on. \<open>fair\<close>: a source of chance produces every number again and again. The
  deep copies of the Kubernetes types copy (\<open>lib_copies\<close>). The operating system makes a private temporary
  directory (\<open>secureDir\<close>) and removes it. The typed client has the API path of its group, which the
  clients of \<open>Clients\<close> have. \<open>one_namespace\<close>: the controller watches one namespace. A list that the reflector takes
  is one that the queue takes in (\<open>takes_in\<close>, a condition of the step \<open>listed\<close>): with other lists the queue
  of client-go loses a change, which is shown beside it. Each is satisfied by a concrete environment in the
  witness of the property that uses it.

  \<^bold>\<open>Bounds.\<close> The loops of \<^verbatim>\<open>replicate\<close> take a number of iterations; one more than there are members is
  enough for the loops over primaries, and for the loop over secondaries no number is enough in the case
  shown. The draws of the chaos monkey and the attempts of the start-up are bounded likewise, with a
  theorem that enough of them give a result. The polls of the peer finder and the steps of the
  goroutines are unbounded: their properties hold after every number of them.

  \<^bold>\<open>Not modelled.\<close> Leader election, the event recorder, signal handling, the HTTP server and the registration
  of metrics are library calls, as are the transports, serializers and retries below a request, and the
  distribution of a shared informer to several handlers, which the operator does not use. The YAML, JSON and
  SHA-256 encodings, merge patches, the behaviour of the API server, DNS and the remote command stream are
  answers of the environment. Log output of pkg/cluster is left out of its model (\<open>Logging\<close> treats it
  by itself). After a failed status update the resource and the status share the array of their conditions;
  the model copies it, so where the code then changes that array in place it may skip an update that the
  model sends. Getters return an object with all fields zero on an error, as client-go does. The shell
  scripts under apps are the commands whose answers are parameters; the framework of the end-to-end tests
  and the version constants are left out.
\<close>

end
